(* ===== verification/Prelude.thy ===== *)
theory Prelude
  imports Complex_Main "HOL-Library.Sublist"
begin

text \<open>
  Shared material of the development.

  \<^item> \<open>rbind\<close> and \<open>ensure\<close>: Python functions that may raise return \<open>'e + 'a\<close>,
    with \<open>Inl\<close> for the exception; \<open>rbind\<close> is sequencing, \<open>ensure\<close> is
    \<open>if not cond: raise e\<close>.
  \<^item> \<open>rmap\<close>: a loop (or comprehension) over a list whose body may raise.
  \<^item> Ordered dictionaries: a Python \<open>dict\<close> keeps insertion order, so it is an
    association list with distinct keys; \<open>dget\<close> is \<open>d.get(k)\<close>, \<open>dset\<close> is
    \<open>d[k] = v\<close>, \<open>dupdate\<close> is \<open>d.update(e)\<close>.
  \<^item> \<open>dedup\<close>: \<open>list(dict.fromkeys(xs))\<close>.

  The collections \<open>result_simps\<close> and \<open>dict_simps\<close> gather the rewrite rules the
  component proofs use.
\<close>

named_theorems result_simps \<open>inversion of sequenced results\<close>
named_theorems dict_simps \<open>lookups in updated dictionaries\<close>

subsection \<open>Results\<close>

fun rbind :: "'e + 'a \<Rightarrow> ('a \<Rightarrow> 'e + 'b) \<Rightarrow> 'e + 'b" where
  "rbind (Inl e) f = Inl e"
| "rbind (Inr x) f = f x"

definition ensure :: "bool \<Rightarrow> 'e \<Rightarrow> 'e + unit" where
  "ensure b e = (if b then Inr () else Inl e)"

fun rmap :: "('a \<Rightarrow> 'e + 'b) \<Rightarrow> 'a list \<Rightarrow> 'e + 'b list" where
  "rmap f [] = Inr []"
| "rmap f (x # xs) = rbind (f x) (\<lambda>y. rbind (rmap f xs) (\<lambda>ys. Inr (y # ys)))"

text \<open>A sequence of checks: the first failure is the result.\<close>

fun checks :: "('e + unit) list \<Rightarrow> 'e + unit" where
  "checks [] = Inr ()"
| "checks (c # cs) = rbind c (\<lambda>_. checks cs)"

lemma rbind_eq_Inr [result_simps]:
  "rbind m f = Inr y \<longleftrightarrow> (\<exists>x. m = Inr x \<and> f x = Inr y)"
  by (cases m) auto

lemma rbind_eq_Inl [result_simps]:
  "rbind m f = Inl e \<longleftrightarrow> m = Inl e \<or> (\<exists>x. m = Inr x \<and> f x = Inl e)"
  by (cases m) auto

lemma ensure_eq_Inr [result_simps]: "ensure b e = Inr u \<longleftrightarrow> b"
  by (auto simp: ensure_def)

lemma ensure_eq_Inl [result_simps]: "ensure b e = Inl e' \<longleftrightarrow> \<not> b \<and> e' = e"
  by (auto simp: ensure_def)

lemma rbind_ensure [simp]: "rbind (ensure b e) f = (if b then f () else Inl e)"
  by (simp add: ensure_def)

lemma checks_eq_Inr [result_simps]: "checks cs = Inr u \<longleftrightarrow> list_all (\<lambda>c. c = Inr ()) cs"
  by (induction cs) (auto simp: rbind_eq_Inr)

lemma checks_ok: "list_all (\<lambda>c. c = Inr ()) cs \<Longrightarrow> checks cs = Inr ()"
  by (induction cs) auto

lemma rbind_assoc: "rbind (rbind m f) g = rbind m (\<lambda>x. rbind (f x) g)"
  by (cases m) simp_all

lemma rmap_eq_Inr:
  "rmap f xs = Inr ys \<longleftrightarrow> length ys = length xs \<and> (\<forall>i < length xs. f (xs ! i) = Inr (ys ! i))"
proof (induction xs arbitrary: ys)
  case Nil
  then show ?case by auto
next
  case (Cons x xs)
  show ?case
  proof (cases ys)
    case Nil
    then show ?thesis by (auto simp: result_simps)
  next
    case (Cons y zs)
    then show ?thesis
      using Cons.IH [of zs] by (auto simp: result_simps less_Suc_eq_0_disj)
  qed
qed

lemma rmap_total:
  assumes "\<And>x. x \<in> set xs \<Longrightarrow> f x = Inr (g x)"
  shows "rmap f xs = Inr (map g xs)"
  using assms by (induction xs) auto

subsection \<open>Ordered dictionaries\<close>

type_synonym ('k, 'v) dict = "('k \<times> 'v) list"

abbreviation dget :: "('k, 'v) dict \<Rightarrow> 'k \<Rightarrow> 'v option" where
  "dget d \<equiv> map_of d"

abbreviation dkeys :: "('k, 'v) dict \<Rightarrow> 'k list" where
  "dkeys d \<equiv> map fst d"

fun dset :: "'k \<Rightarrow> 'v \<Rightarrow> ('k, 'v) dict \<Rightarrow> ('k, 'v) dict" where
  "dset k v [] = [(k, v)]"
| "dset k v ((k', v') # d) = (if k = k' then (k, v) # d else (k', v') # dset k v d)"

definition dupdate :: "('k, 'v) dict \<Rightarrow> ('k, 'v) dict \<Rightarrow> ('k, 'v) dict" where
  "dupdate d e = fold (\<lambda>(k, v). dset k v) e d"

fun dremove :: "'k \<Rightarrow> ('k, 'v) dict \<Rightarrow> ('k, 'v) dict" where
  "dremove k [] = []"
| "dremove k ((k', v) # d) = (if k = k' then d else (k', v) # dremove k d)"

lemma dget_dset [simp, dict_simps]: "dget (dset k v d) j = (if j = k then Some v else dget d j)"
  by (induction d) auto

lemma dkeys_dset: "dkeys (dset k v d) = (if k \<in> set (dkeys d) then dkeys d else dkeys d @ [k])"
  by (induction d) (force simp: image_iff)+

lemma fst_set_dset [simp]: "fst ` set (dset k v d) = insert k (fst ` set d)"
  by (induction k v d rule: dset.induct) (simp_all add: insert_commute)

lemma distinct_dset [simp]: "distinct (dkeys d) \<Longrightarrow> distinct (dkeys (dset k v d))"
  by (auto simp: dkeys_dset)

lemma dremove_dset: "k \<notin> set (dkeys d) \<Longrightarrow> dremove k (dset k v d) = d"
  by (induction d) auto

lemma dget_None_iff: "dget d k = None \<longleftrightarrow> k \<notin> set (dkeys d)"
  by (induction d) auto

lemma set_dremove_subset: "set (dremove k d) \<subseteq> set d"
  by (induction k d rule: dremove.induct) auto

lemma dget_dremove: "distinct (dkeys d) \<Longrightarrow> dget (dremove k d) j = (if j = k then None else dget d j)"
proof (induction k d rule: dremove.induct)
  case (2 k k' v d)
  then have d: "distinct (dkeys d)" "k' \<notin> set (dkeys d)" by simp_all
  show ?case
  proof (cases "k = k'")
    case True
    with d show ?thesis by (auto simp: dget_None_iff)
  next
    case False
    with 2 d show ?thesis by (cases "j = k") simp_all
  qed
qed simp

lemma distinct_dremove: "distinct (dkeys d) \<Longrightarrow> distinct (dkeys (dremove k d))"
proof (induction k d rule: dremove.induct)
  case (2 k k' v d)
  then show ?case using set_dremove_subset [of k d] by auto
qed simp

lemma dupdate_Nil [simp, dict_simps]: "dupdate d [] = d"
  by (simp add: dupdate_def)

lemma dupdate_Cons [simp, dict_simps]: "dupdate d ((k, v) # e) = dupdate (dset k v d) e"
  by (simp add: dupdate_def)

lemma distinct_dupdate: "distinct (dkeys d) \<Longrightarrow> distinct (dkeys (dupdate d e))"
  by (induction e arbitrary: d) auto

lemma dget_dupdate_other: "j \<notin> set (dkeys e) \<Longrightarrow> dget (dupdate d e) j = dget d j"
  by (induction e arbitrary: d) auto

lemma set_dkeys_dupdate: "set (dkeys (dupdate d e)) = set (dkeys d) \<union> set (dkeys e)"
proof (induction e arbitrary: d)
  case (Cons kv e)
  then show ?case by (cases kv) auto
qed simp

lemma dget_SomeD: "dget d k = Some v \<Longrightarrow> (k, v) \<in> set d \<and> k \<in> set (dkeys d)"
  using map_of_SomeD by force

subsection \<open>Dictionaries sorted by key\<close>

lemma insort_key_map:
  "(\<And>x. key (g x) = key' x) \<Longrightarrow> insort_key key (g x) (map g xs) = map g (insort_key key' x xs)"
  by (induction xs) auto

lemma sort_key_map:
  "(\<And>x. key (g x) = key' x) \<Longrightarrow> sort_key key (map g xs) = map g (sort_key key' xs)"
  by (induction xs) (simp_all add: insort_key_map)

lemma sort_key_idem: "sort_key f (sort_key f d) = sort_key f d"
  by (rule sort_key_id_if_sorted) simp

lemma sort_dict_eq:
  fixes d e :: "('k :: linorder, 'v) dict"
  assumes "distinct (dkeys d)" "distinct (dkeys e)" "dget d = dget e"
  shows "sort_key fst d = sort_key fst e"
proof (rule map_sorted_distinct_set_unique [where f = fst])
  have "set d = set e" using assms by (simp add: map_of_inject_set)
  then show "set (sort_key fst d) = set (sort_key fst e)" by simp
  show "inj_on fst (set (sort_key fst d) \<union> set (sort_key fst e))"
    using assms(1) \<open>set d = set e\<close> by (simp add: distinct_map)
qed (use assms in \<open>simp_all add: distinct_map\<close>)

subsection \<open>Order-preserving removal of duplicates\<close>

fun dedup_acc :: "'a list \<Rightarrow> 'a list \<Rightarrow> 'a list" where
  "dedup_acc acc [] = rev acc"
| "dedup_acc acc (x # xs) = (if x \<in> set acc then dedup_acc acc xs else dedup_acc (x # acc) xs)"

definition dedup :: "'a list \<Rightarrow> 'a list" where
  "dedup xs = dedup_acc [] xs"

lemma set_dedup_acc: "set (dedup_acc acc xs) = set acc \<union> set xs"
  by (induction acc xs rule: dedup_acc.induct) auto

lemma distinct_dedup_acc: "distinct acc \<Longrightarrow> distinct (dedup_acc acc xs)"
  by (induction acc xs rule: dedup_acc.induct) auto

lemma dedup_acc_distinct:
  "distinct xs \<Longrightarrow> set acc \<inter> set xs = {} \<Longrightarrow> dedup_acc acc xs = rev acc @ xs"
  by (induction acc xs rule: dedup_acc.induct) auto

lemma set_dedup [simp]: "set (dedup xs) = set xs"
  by (simp add: dedup_def set_dedup_acc)

lemma distinct_dedup [simp]: "distinct (dedup xs)"
  by (simp add: dedup_def distinct_dedup_acc)

lemma dedup_distinct [simp]: "distinct xs \<Longrightarrow> dedup xs = xs"
  by (simp add: dedup_def dedup_acc_distinct)

subsection \<open>Lists\<close>

lemma length_le_1_cases:
  "length xs \<le> Suc 0 \<Longrightarrow> xs = [] \<or> (\<exists>x. xs = [x])"
  by (cases xs) auto

lemma last_append_singleton [simp]: "xs \<noteq> [] \<Longrightarrow> last (x # xs @ [y]) = y"
  by simp

lemma sorted_wrt_snoc_last:
  "sorted_wrt (<) xs \<Longrightarrow> xs \<noteq> [] \<Longrightarrow> last xs < (y :: 'a :: order) \<Longrightarrow> sorted_wrt (<) (xs @ [y])"
proof -
  assume s: "sorted_wrt (<) xs" and ne: "xs \<noteq> []" and lt: "last xs < y"
  have "x < y" if "x \<in> set xs" for x
  proof (cases "x = last xs")
    case True
    with lt show ?thesis by simp
  next
    case False
    have dec: "xs = butlast xs @ [last xs]" using ne by simp
    with that False have "x \<in> set (butlast xs)"
      by (metis in_set_butlast_appendI in_set_conv_decomp insertE list.set(2) rotate1.simps(2)
          set_rotate1)
    moreover have "\<forall>a \<in> set (butlast xs). a < last xs"
      using s dec by (metis list.set_intros(1) sorted_wrt_append)
    ultimately have "x < last xs" by blast
    with lt show ?thesis by simp
  qed
  with s show ?thesis by (simp add: sorted_wrt_append)
qed

end
