(* ===== verification/Py_Text.thy ===== *)
theory Py_Text
  imports Prelude "HOL-Library.Char_ord" "HOL-Library.List_Lexorder"
begin

text \<open>
  Python text. A \<open>str\<close> is a list of code points; here it is a \<^typ>\<open>string\<close> whose
  \<^typ>\<open>char\<close>s are the code points U+0000 to U+00FF, so \<open>length\<close> counts what \<open>len\<close>
  counts. The operations are those the sources call, exact on that alphabet:
  \<open>strip\<close>, \<open>lower\<close>, \<open>upper\<close>, \<open>find\<close>, \<open>split\<close>, \<open>in\<close>, \<open>startswith\<close>,
  \<open>endswith\<close>, \<open>int(text)\<close> and the decimal \<open>str(number)\<close>. (The capitals of U+00B5
  and U+00FF lie outside the alphabet; \<open>upper\<close> keeps the two characters.)
  The order on strings is the code point order of \<open>sorted\<close> (List\_Lexorder over Char\_ord).
\<close>

abbreviation ord :: "char \<Rightarrow> nat" where
  "ord c \<equiv> of_char c"

subsection \<open>strip\<close>

definition is_space :: "char \<Rightarrow> bool" where
  "is_space c \<longleftrightarrow> (9 \<le> ord c \<and> ord c \<le> 13) \<or> (28 \<le> ord c \<and> ord c \<le> 32) \<or> ord c = 133 \<or> ord c = 160"

definition lstrip :: "string \<Rightarrow> string" where
  "lstrip s = dropWhile is_space s"

definition rstrip :: "string \<Rightarrow> string" where
  "rstrip s = rev (dropWhile is_space (rev s))"

definition strip :: "string \<Rightarrow> string" where
  "strip s = rstrip (lstrip s)"

lemma strip_Nil [simp]: "strip [] = []"
  by (simp add: strip_def lstrip_def rstrip_def)

lemma rstrip_append: "\<exists>t. s = rstrip s @ t \<and> (\<forall>c \<in> set t. is_space c)"
proof -
  have "rev s = takeWhile is_space (rev s) @ dropWhile is_space (rev s)" by simp
  then have "s = rstrip s @ rev (takeWhile is_space (rev s))"
    unfolding rstrip_def by (metis rev_append rev_rev_ident)
  moreover have "\<forall>c \<in> set (rev (takeWhile is_space (rev s))). is_space c"
    by (auto dest: set_takeWhileD)
  ultimately show ?thesis by blast
qed

lemma lstrip_append: "\<exists>t. s = t @ lstrip s \<and> (\<forall>c \<in> set t. is_space c)"
  unfolding lstrip_def
  by (metis set_takeWhileD takeWhile_dropWhile_id)

lemma lstrip_Cons: "lstrip s = c # cs \<Longrightarrow> \<not> is_space c"
  unfolding lstrip_def by (metis dropWhile_eq_Cons_conv)

lemma rstrip_snoc: "rstrip s = cs @ [c] \<Longrightarrow> \<not> is_space c"
  unfolding rstrip_def by (metis dropWhile_eq_Cons_conv rev_eq_append_conv rev.simps rev_rev_ident
      append_Nil)

lemma lstrip_id: "s = [] \<or> \<not> is_space (hd s) \<Longrightarrow> lstrip s = s"
  unfolding lstrip_def by (cases s) auto

lemma rstrip_id: "s = [] \<or> \<not> is_space (last s) \<Longrightarrow> rstrip s = s"
  unfolding rstrip_def by (cases s rule: rev_cases) auto

lemma strip_last: "strip s \<noteq> [] \<Longrightarrow> \<not> is_space (last (strip s))"
  unfolding strip_def using rstrip_snoc by (metis append_butlast_last_id)

lemma strip_hd: "strip s \<noteq> [] \<Longrightarrow> \<not> is_space (hd (strip s))"
proof -
  assume ne: "strip s \<noteq> []"
  obtain t where t: "lstrip s = strip s @ t"
    unfolding strip_def using rstrip_append by blast
  with ne obtain c cs where "strip s = c # cs" by (cases "strip s") auto
  with t lstrip_Cons [of s c "cs @ t"] show ?thesis by simp
qed

lemma strip_idI: "s = [] \<or> \<not> is_space (hd s) \<and> \<not> is_space (last s) \<Longrightarrow> strip s = s"
  unfolding strip_def by (metis lstrip_id rstrip_id)

lemma strip_idem [simp]: "strip (strip s) = strip s"
  using strip_hd strip_last by (intro strip_idI) blast

lemma strip_eq_self_iff: "strip s = s \<longleftrightarrow> s = [] \<or> \<not> is_space (hd s) \<and> \<not> is_space (last s)"
  using strip_hd strip_last strip_idI by metis

lemma strip_surround: "\<exists>a b. s = a @ strip s @ b"
  using lstrip_append [of s] rstrip_append [of "lstrip s"] unfolding strip_def by metis

lemma set_strip: "set (strip s) \<subseteq> set s"
  using strip_surround [of s] by (metis Un_upper1 Un_upper2 le_sup_iff set_append)

lemma length_strip: "length (strip s) \<le> length s"
  using strip_surround [of s] by (metis le_add1 le_add2 le_trans length_append)

subsection \<open>Case mapping\<close>

definition lower_char :: "char \<Rightarrow> char" where
  "lower_char c = (if (65 \<le> ord c \<and> ord c \<le> 90) \<or> (192 \<le> ord c \<and> ord c \<le> 222 \<and> ord c \<noteq> 215)
     then char_of (ord c + 32) else c)"

definition lower :: "string \<Rightarrow> string" where
  "lower s = map lower_char s"

definition upper_char :: "char \<Rightarrow> string" where
  "upper_char c = (if (97 \<le> ord c \<and> ord c \<le> 122) \<or> (224 \<le> ord c \<and> ord c \<le> 254 \<and> ord c \<noteq> 247)
     then [char_of (ord c - 32)] else if ord c = 223 then ''SS'' else [c])"

definition upper :: "string \<Rightarrow> string" where
  "upper s = concat (map upper_char s)"

lemma length_lower [simp]: "length (lower s) = length s"
  by (simp add: lower_def)

subsection \<open>Searching\<close>

definition occurs_at :: "string \<Rightarrow> string \<Rightarrow> nat \<Rightarrow> bool" where
  "occurs_at p s i \<longleftrightarrow> i + length p \<le> length s \<and> take (length p) (drop i s) = p"

text \<open>\<open>p in s\<close>\<close>

abbreviation in_text :: "string \<Rightarrow> string \<Rightarrow> bool" where
  "in_text p s \<equiv> sublist p s"

lemma occurs_at_split: "occurs_at p s i \<longleftrightarrow> (\<exists>a b. s = a @ p @ b \<and> length a = i)"
proof
  assume "occurs_at p s i"
  then have le: "i + length p \<le> length s" and eq: "take (length p) (drop i s) = p"
    by (auto simp: occurs_at_def)
  have "s = take i s @ p @ drop (length p) (drop i s)"
    using eq by (metis append_take_drop_id)
  moreover have "length (take i s) = i" using le by simp
  ultimately show "\<exists>a b. s = a @ p @ b \<and> length a = i" by blast
qed (auto simp: occurs_at_def)

lemma in_text_iff_occurs: "in_text p s \<longleftrightarrow> (\<exists>i. occurs_at p s i)"
  by (auto simp: occurs_at_split sublist_def)

text \<open>\<open>s.find(p, start)\<close>, with \<^term>\<open>None\<close> for \<open>-1\<close>.\<close>

function find_from :: "string \<Rightarrow> string \<Rightarrow> nat \<Rightarrow> nat option" where
  "find_from p s i =
     (if length s < i + length p then None
      else if take (length p) (drop i s) = p then Some i
      else find_from p s (Suc i))"
  by pat_completeness auto
termination
  by (relation "measure (\<lambda>(p, s, i). Suc (length s) - i)") auto

declare find_from.simps [simp del]

lemma find_from_None: "find_from p s i = None \<longleftrightarrow> (\<forall>j \<ge> i. \<not> occurs_at p s j)"
proof (induction p s i rule: find_from.induct)
  case (1 p s i)
  show ?case
  proof (cases "length s < i + length p \<or> take (length p) (drop i s) = p")
    case True
    then show ?thesis
      by (subst find_from.simps) (auto simp: occurs_at_def not_less)
  next
    case False
    with 1 have IH: "find_from p s (Suc i) = None \<longleftrightarrow> (\<forall>j \<ge> Suc i. \<not> occurs_at p s j)"
      by blast
    from False have "\<not> occurs_at p s i" by (auto simp: occurs_at_def)
    then have "(\<forall>j \<ge> i. \<not> occurs_at p s j) \<longleftrightarrow> (\<forall>j \<ge> Suc i. \<not> occurs_at p s j)"
      by (metis Suc_leD le_antisym not_less_eq_eq)
    with False IH show ?thesis by (subst find_from.simps) simp
  qed
qed

lemma find_from_Some:
  "find_from p s i = Some j \<Longrightarrow> i \<le> j \<and> occurs_at p s j \<and> (\<forall>k. i \<le> k \<and> k < j \<longrightarrow> \<not> occurs_at p s k)"
proof (induction p s i rule: find_from.induct)
  case (1 p s i)
  show ?case
  proof (cases "length s < i + length p \<or> take (length p) (drop i s) = p")
    case True
    with "1.prems" show ?thesis
      by (auto simp: find_from.simps [of p s i] occurs_at_def split: if_splits)
  next
    case False
    with "1.prems" have rec: "find_from p s (Suc i) = Some j"
      by (simp add: find_from.simps [of p s i] split: if_splits)
    with False "1.IH"
    have IH: "Suc i \<le> j \<and> occurs_at p s j \<and> (\<forall>k. Suc i \<le> k \<and> k < j \<longrightarrow> \<not> occurs_at p s k)"
      by blast
    have "\<not> occurs_at p s k" if "i \<le> k" "k < j" for k
      using that False IH by (cases "k = i") (auto simp: occurs_at_def)
    with IH show ?thesis by simp
  qed
qed

subsection \<open>split and join\<close>

fun split_on :: "char \<Rightarrow> string \<Rightarrow> string list" where
  "split_on d [] = [[]]"
| "split_on d (c # cs) =
     (if c = d then [] # split_on d cs
      else (case split_on d cs of [] \<Rightarrow> [[c]] | w # ws \<Rightarrow> (c # w) # ws))"

fun join_with :: "char \<Rightarrow> string list \<Rightarrow> string" where
  "join_with d [] = []"
| "join_with d [w] = w"
| "join_with d (w # ws) = w @ d # join_with d ws"

text \<open>\<open>pair.split("=", 1)\<close> on a text that contains the separator.\<close>

definition split_once :: "char \<Rightarrow> string \<Rightarrow> string \<times> string" where
  "split_once d s = (takeWhile (\<lambda>c. c \<noteq> d) s, drop 1 (dropWhile (\<lambda>c. c \<noteq> d) s))"

lemma split_on_ne [simp]: "split_on d s \<noteq> []"
  by (induction s) (auto split: list.splits)

lemma split_on_word: "d \<notin> set w \<Longrightarrow> split_on d w = [w]"
  by (induction w) auto

lemma split_on_append: "d \<notin> set w \<Longrightarrow> split_on d (w @ d # s) = w # split_on d s"
  by (induction w) auto

lemma split_join: "ws \<noteq> [] \<Longrightarrow> \<forall>w \<in> set ws. d \<notin> set w \<Longrightarrow> split_on d (join_with d ws) = ws"
proof (induction d ws rule: join_with.induct)
  case (3 d w v vs)
  then show ?case by (simp add: split_on_append)
qed (auto simp: split_on_word)

lemma split_on_free: "w \<in> set (split_on d s) \<Longrightarrow> d \<notin> set w"
  by (induction s arbitrary: w) (auto split: if_splits list.splits)

lemma split_once_join [simp]: "d \<notin> set k \<Longrightarrow> split_once d (k @ d # v) = (k, v)"
  by (induction k) (auto simp: split_once_def)

subsection \<open>Numbers\<close>

definition is_digit :: "char \<Rightarrow> bool" where
  "is_digit c \<longleftrightarrow> 48 \<le> ord c \<and> ord c \<le> 57"

definition digit_value :: "char \<Rightarrow> int" where
  "digit_value c = int (ord c) - 48"

text \<open>Digits with single underscores between them; \<open>after\<close> says the last character was a digit.\<close>

fun parse_digits :: "int \<Rightarrow> bool \<Rightarrow> string \<Rightarrow> int option" where
  "parse_digits acc after [] = (if after then Some acc else None)"
| "parse_digits acc after (c # cs) =
     (if is_digit c then parse_digits (acc * 10 + digit_value c) True cs
      else if c = CHR ''_'' \<and> after then parse_digits acc False cs
      else None)"

definition MAX_STR_DIGITS :: nat where
  "MAX_STR_DIGITS = 4300"

text \<open>\<open>int(text)\<close>; \<^term>\<open>None\<close> is \<open>ValueError\<close>, which also answers more than 4300 digits.\<close>

definition int_of_text :: "string \<Rightarrow> int option" where
  "int_of_text s = (let t = strip s in
     if MAX_STR_DIGITS < length (filter is_digit t) then None
     else (case t of
         [] \<Rightarrow> None
       | c # cs \<Rightarrow>
           if c = CHR ''-'' then map_option uminus (parse_digits 0 False cs)
           else if c = CHR ''+'' then parse_digits 0 False cs
           else parse_digits 0 False t))"

fun show_nat :: "nat \<Rightarrow> string" where
  "show_nat n = (if n < 10 then [char_of (48 + n)] else show_nat (n div 10) @ [char_of (48 + n mod 10)])"

declare show_nat.simps [simp del]

definition show_int :: "int \<Rightarrow> string" where
  "show_int n = (if n < 0 then CHR ''-'' # show_nat (nat (- n)) else show_nat (nat n))"

lemma parse_digits_append:
  "parse_digits acc a s = Some n \<Longrightarrow> parse_digits acc a (s @ t) = parse_digits n True t"
  by (induction acc a s rule: parse_digits.induct) (auto split: if_splits)

lemma ord_digit [simp]: "n < 10 \<Longrightarrow> ord (char_of (48 + n)) = 48 + n"
  by (simp add: of_char_of)

lemma show_nat_digits: "c \<in> set (show_nat n) \<Longrightarrow> is_digit c"
proof (induction n rule: show_nat.induct)
  case (1 n)
  then show ?case
    by (cases "n < 10") (auto simp: show_nat.simps [of n] is_digit_def)
qed

lemma show_nat_ne [simp]: "show_nat n \<noteq> []"
  by (subst show_nat.simps) simp

lemma parse_show_nat: "parse_digits 0 False (show_nat n) = Some (int n)"
proof (induction n rule: show_nat.induct)
  case (1 n)
  show ?case
  proof (cases "n < 10")
    case True
    then show ?thesis by (simp add: show_nat.simps [of n] is_digit_def digit_value_def)
  next
    case False
    with 1 have IH: "parse_digits 0 False (show_nat (n div 10)) = Some (int (n div 10))" by simp
    have "int (n div 10) * 10 + int (n mod 10) = int n"
      by (metis div_mult_mod_eq of_nat_add of_nat_mult of_nat_numeral)
    with False IH show ?thesis
      by (simp add: show_nat.simps [of n] parse_digits_append is_digit_def digit_value_def)
  qed
qed

lemma show_nat_inject: "show_nat m = show_nat n \<Longrightarrow> m = n"
  by (metis option.inject of_nat_eq_iff parse_show_nat)

subsection \<open>Hexadecimal digests\<close>

definition is_lower_hex :: "char \<Rightarrow> bool" where
  "is_lower_hex c \<longleftrightarrow> c \<in> set ''0123456789abcdef''"

text \<open>What \<open>hashlib.sha256(...).hexdigest()\<close> documents: 64 lower-case hexadecimal digits.\<close>

definition hex_digest :: "(string \<Rightarrow> string) \<Rightarrow> bool" where
  "hex_digest sha \<longleftrightarrow> (\<forall>t. length (sha t) = 64 \<and> (\<forall>c \<in> set (sha t). is_lower_hex c))"

lemma lower_hex_not_space: "is_lower_hex c \<Longrightarrow> \<not> is_space c"
  by (auto simp: is_lower_hex_def is_space_def)

lemma hex_digest_const: "hex_digest (\<lambda>t. replicate 64 (CHR ''0''))"
  by (simp add: hex_digest_def is_lower_hex_def)

end
