(* ===== verification/Py_Value.thy ===== *)
theory Py_Value
  imports Py_Text
begin

text \<open>
  Dynamically typed Python values as the sources receive them from \<open>json.loads\<close> and hand
  them to \<open>json.dumps\<close>: \<open>None\<close>, \<open>bool\<close>, \<open>int\<close>, \<open>float\<close>, \<open>str\<close>, \<open>list\<close>
  and \<open>dict\<close> with text keys (in insertion order). A finite float is its rational value
  together with its \<open>repr\<close> text, so that \<open>str\<close> and \<open>json.dumps\<close> compute without a
  model of shortest decimal printing; no theorem depends on the pairing.

  \<open>py_str\<close> is \<open>str(v)\<close>, \<open>py_repr\<close> is \<open>repr(v)\<close>, \<open>truthy\<close> is \<open>bool(v)\<close>,
  \<open>str_or_empty\<close> is \<open>str(v or "")\<close>, \<open>dumps\<close> is
  \<open>json.dumps(v, ensure_ascii=False, sort_keys=True, separators=(",", ":"))\<close> and
  \<open>dumps_strict\<close> the same with \<open>allow_nan=False\<close>, where \<^term>\<open>None\<close> is the
  \<open>ValueError\<close>. The last section shows that the encoding of texts can be decoded again,
  which makes the canonical encodings injective.
\<close>

datatype pyfloat = FNan | FInf | FNegInf | FFin rat string

datatype pyval =
    VNone
  | VBool bool
  | VInt int
  | VFloat pyfloat
  | VStr string
  | VList "pyval list"
  | VDict "(string \<times> pyval) list"

subsection \<open>Tests and coercions\<close>

fun is_VStr :: "pyval \<Rightarrow> bool" where
  "is_VStr (VStr s) = True"
| "is_VStr v = False"

fun is_VDict :: "pyval \<Rightarrow> bool" where
  "is_VDict (VDict d) = True"
| "is_VDict v = False"

fun is_VBool :: "pyval \<Rightarrow> bool" where
  "is_VBool (VBool b) = True"
| "is_VBool v = False"

text \<open>\<open>isinstance(v, int) and not isinstance(v, bool)\<close>\<close>

fun is_plain_int :: "pyval \<Rightarrow> bool" where
  "is_plain_int (VInt n) = True"
| "is_plain_int v = False"

text \<open>\<open>isinstance(v, int)\<close>: a bool is an int; the value it stands for\<close>

fun as_int :: "pyval \<Rightarrow> int option" where
  "as_int (VInt n) = Some n"
| "as_int (VBool b) = Some (if b then 1 else 0)"
| "as_int v = None"

fun as_text :: "pyval \<Rightarrow> string option" where
  "as_text (VStr s) = Some s"
| "as_text v = None"

fun as_list :: "pyval \<Rightarrow> pyval list option" where
  "as_list (VList vs) = Some vs"
| "as_list v = None"

fun as_dict :: "pyval \<Rightarrow> (string, pyval) dict option" where
  "as_dict (VDict d) = Some d"
| "as_dict v = None"

text \<open>\<open>[x for x in vs]\<close> when every element is a text\<close>

fun as_texts :: "pyval list \<Rightarrow> string list option" where
  "as_texts [] = Some []"
| "as_texts (v # vs) =
     (case as_text v of None \<Rightarrow> None | Some s \<Rightarrow> map_option ((#) s) (as_texts vs))"

fun truthy :: "pyval \<Rightarrow> bool" where
  "truthy VNone = False"
| "truthy (VBool b) = b"
| "truthy (VInt n) = (n \<noteq> 0)"
| "truthy (VFloat f) = (case f of FFin q r \<Rightarrow> q \<noteq> 0 | _ \<Rightarrow> True)"
| "truthy (VStr s) = (s \<noteq> [])"
| "truthy (VList vs) = (vs \<noteq> [])"
| "truthy (VDict d) = (d \<noteq> [])"

text \<open>\<open>v == n\<close> for an int literal \<open>n\<close>: numbers compare by value, whatever their type\<close>

fun eq_int :: "pyval \<Rightarrow> int \<Rightarrow> bool" where
  "eq_int (VInt m) n = (m = n)"
| "eq_int (VBool b) n = ((if b then 1 else 0) = n)"
| "eq_int (VFloat (FFin q r)) n = (q = of_int n)"
| "eq_int v n = False"

text \<open>\<open>d.get(k)\<close> and \<open>d.get(k, default)\<close>\<close>

definition vget :: "(string, pyval) dict \<Rightarrow> string \<Rightarrow> pyval" where
  "vget d k = (case dget d k of None \<Rightarrow> VNone | Some v \<Rightarrow> v)"

definition vget_default :: "(string, pyval) dict \<Rightarrow> string \<Rightarrow> pyval \<Rightarrow> pyval" where
  "vget_default d k x = (case dget d k of None \<Rightarrow> x | Some v \<Rightarrow> v)"

lemma as_text_eq [simp]: "as_text v = Some s \<longleftrightarrow> v = VStr s"
  by (cases v) auto

lemma as_text_None: "as_text v = None \<longleftrightarrow> \<not> is_VStr v"
  by (cases v) auto

lemma as_list_eq [simp]: "as_list v = Some vs \<longleftrightarrow> v = VList vs"
  by (cases v) auto

lemma as_dict_eq [simp]: "as_dict v = Some d \<longleftrightarrow> v = VDict d"
  by (cases v) auto

lemma as_texts_eq: "as_texts vs = Some ss \<longleftrightarrow> vs = map VStr ss"
proof (induction vs arbitrary: ss)
  case (Cons v vs)
  then show ?case
    by (cases v; cases ss) (auto simp: Cons.IH)
qed auto

lemma as_texts_map [simp]: "as_texts (map VStr ss) = Some ss"
  by (simp add: as_texts_eq)

lemma vget_dset [simp, dict_simps]: "vget (dset k v d) j = (if j = k then v else vget d j)"
  by (simp add: vget_def)

lemma vget_Cons [simp]: "vget ((k, v) # d) j = (if j = k then v else vget d j)"
  by (simp add: vget_def)

lemma vget_Nil [simp]: "vget [] j = VNone"
  by (simp add: vget_def)

lemma vget_dupdate_other: "j \<notin> set (dkeys e) \<Longrightarrow> vget (dupdate d e) j = vget d j"
  by (simp add: vget_def dget_dupdate_other)

lemma vget_default_Cons [simp]:
  "vget_default ((k, v) # d) j x = (if j = k then v else vget_default d j x)"
  by (simp add: vget_default_def)

lemma vget_default_Nil [simp]: "vget_default [] j x = x"
  by (simp add: vget_default_def)

subsection \<open>str and repr\<close>

definition hex_digit :: "nat \<Rightarrow> char" where
  "hex_digit n = (if n < 10 then char_of (48 + n) else char_of (87 + n))"

definition hex2 :: "nat \<Rightarrow> string" where
  "hex2 n = [hex_digit (n div 16), hex_digit (n mod 16)]"

definition printable :: "char \<Rightarrow> bool" where
  "printable c \<longleftrightarrow> 32 \<le> ord c \<and> \<not> (127 \<le> ord c \<and> ord c \<le> 160) \<and> ord c \<noteq> 173"

definition repr_char :: "char \<Rightarrow> char \<Rightarrow> string" where
  "repr_char q c =
     (if c = q \<or> ord c = 92 then [CHR 0x5C, c]
      else if ord c = 9 then [CHR 0x5C, CHR ''t'']
      else if ord c = 10 then [CHR 0x5C, CHR ''n'']
      else if ord c = 13 then [CHR 0x5C, CHR ''r'']
      else if printable c then [c]
      else [CHR 0x5C, CHR ''x''] @ hex2 (ord c))"

definition repr_text :: "string \<Rightarrow> string" where
  "repr_text s =
     (let single = CHR 0x27; double = CHR 0x22;
          q = (if single \<in> set s \<and> double \<notin> set s then double else single)
      in q # concat (map (repr_char q) s) @ [q])"

fun comma_sep :: "string \<Rightarrow> string list \<Rightarrow> string" where
  "comma_sep sep [] = []"
| "comma_sep sep [w] = w"
| "comma_sep sep (w # ws) = w @ sep @ comma_sep sep ws"

fun repr_float :: "pyfloat \<Rightarrow> string" where
  "repr_float FNan = ''nan''"
| "repr_float FInf = ''inf''"
| "repr_float FNegInf = ''-inf''"
| "repr_float (FFin q r) = r"

fun py_repr :: "pyval \<Rightarrow> string" where
  "py_repr VNone = ''None''"
| "py_repr (VBool b) = (if b then ''True'' else ''False'')"
| "py_repr (VInt n) = show_int n"
| "py_repr (VFloat f) = repr_float f"
| "py_repr (VStr s) = repr_text s"
| "py_repr (VList vs) = ''['' @ comma_sep '', '' (map py_repr vs) @ '']''"
| "py_repr (VDict d) =
     ''{'' @ comma_sep '', '' (map (\<lambda>(k, v). repr_text k @ '': '' @ py_repr v) d) @ ''}''"

fun py_str :: "pyval \<Rightarrow> string" where
  "py_str (VStr s) = s"
| "py_str v = py_repr v"

definition str_or_empty :: "pyval \<Rightarrow> string" where
  "str_or_empty v = (if truthy v then py_str v else [])"

lemma str_or_empty_VStr [simp]: "str_or_empty (VStr s) = s"
  by (cases s) (auto simp: str_or_empty_def)

lemma str_or_empty_VNone [simp]: "str_or_empty VNone = []"
  by (simp add: str_or_empty_def)

subsection \<open>Canonical JSON\<close>

definition json_escape :: "char \<Rightarrow> string" where
  "json_escape c =
     (if ord c = 34 \<or> ord c = 92 then [CHR 0x5C, c]
      else if ord c = 10 then [CHR 0x5C, CHR ''n'']
      else if ord c = 13 then [CHR 0x5C, CHR ''r'']
      else if ord c = 9 then [CHR 0x5C, CHR ''t'']
      else if ord c = 12 then [CHR 0x5C, CHR ''f'']
      else if ord c = 8 then [CHR 0x5C, CHR ''b'']
      else if ord c < 32 then [CHR 0x5C, CHR ''u'', CHR ''0'', CHR ''0''] @ hex2 (ord c)
      else [c])"

definition json_text :: "string \<Rightarrow> string" where
  "json_text s = CHR 0x22 # concat (map json_escape s) @ [CHR 0x22]"

fun json_float :: "pyfloat \<Rightarrow> string" where
  "json_float FNan = ''NaN''"
| "json_float FInf = ''Infinity''"
| "json_float FNegInf = ''-Infinity''"
| "json_float (FFin q r) = r"

fun dumps :: "pyval \<Rightarrow> string" where
  "dumps VNone = ''null''"
| "dumps (VBool b) = (if b then ''true'' else ''false'')"
| "dumps (VInt n) = show_int n"
| "dumps (VFloat f) = json_float f"
| "dumps (VStr s) = json_text s"
| "dumps (VList vs) = ''['' @ comma_sep '','' (map dumps vs) @ '']''"
| "dumps (VDict d) =
     ''{'' @ comma_sep '','' (map snd (sort_key fst
        (map (\<lambda>(k, v). (k, json_text k @ '':'' @ dumps v)) d))) @ ''}''"

fun nan_free :: "pyval \<Rightarrow> bool" where
  "nan_free (VFloat f) = (case f of FFin q r \<Rightarrow> True | _ \<Rightarrow> False)"
| "nan_free (VList vs) = (\<forall>v \<in> set vs. nan_free v)"
| "nan_free (VDict d) = (\<forall>(k, v) \<in> set d. nan_free v)"
| "nan_free v = True"

definition dumps_strict :: "pyval \<Rightarrow> string option" where
  "dumps_strict v = (if nan_free v then Some (dumps v) else None)"

text \<open>
  \<open>json.dumps(v, indent=2, ensure_ascii=False)\<close> at nesting depth \<open>n\<close> (keys in
  insertion order), and the length in bytes of a text written as UTF-8.
\<close>

definition indent_at :: "nat \<Rightarrow> string" where
  "indent_at n = CHR 0x0A # replicate (2 * n) (CHR '' '')"

fun dumps_indent :: "nat \<Rightarrow> pyval \<Rightarrow> string" where
  "dumps_indent n VNone = ''null''"
| "dumps_indent n (VBool b) = (if b then ''true'' else ''false'')"
| "dumps_indent n (VInt i) = show_int i"
| "dumps_indent n (VFloat f) = json_float f"
| "dumps_indent n (VStr s) = json_text s"
| "dumps_indent n (VList vs) =
     (if vs = [] then ''[]''
      else ''['' @ indent_at (Suc n) @ comma_sep ('','' @ indent_at (Suc n)) (map (dumps_indent (Suc n)) vs)
             @ indent_at n @ '']'')"
| "dumps_indent n (VDict d) =
     (if d = [] then ''{}''
      else ''{'' @ indent_at (Suc n)
             @ comma_sep ('','' @ indent_at (Suc n)) (map (\<lambda>(k, v). json_text k @ '': '' @ dumps_indent (Suc n) v) d)
             @ indent_at n @ ''}'')"

definition utf8_length :: "string \<Rightarrow> nat" where
  "utf8_length s = sum_list (map (\<lambda>c. if ord c < 128 then 1 else 2) s)"

subsection \<open>Equality of values\<close>

text \<open>
  \<open>v == w\<close> of Python: numbers compare by value whatever their type (and NaN is not equal to
  itself), dicts without regard to order.
\<close>

datatype number = Number rat | PosInf | NegInf | NotANumber

fun as_number :: "pyval \<Rightarrow> number option" where
  "as_number (VBool b) = Some (Number (if b then 1 else 0))"
| "as_number (VInt n) = Some (Number (of_int n))"
| "as_number (VFloat (FFin q r)) = Some (Number q)"
| "as_number (VFloat FInf) = Some PosInf"
| "as_number (VFloat FNegInf) = Some NegInf"
| "as_number (VFloat FNan) = Some NotANumber"
| "as_number v = None"

lemma size_member: "x \<in> set xs \<Longrightarrow> f x < Suc (size_list f xs)"
  by (induction xs) auto

function py_eq :: "pyval \<Rightarrow> pyval \<Rightarrow> bool" where
  "py_eq v w = (case (v, w) of
       (VNone, VNone) \<Rightarrow> True
     | (VStr s, VStr t) \<Rightarrow> s = t
     | (VList vs, VList ws) \<Rightarrow> length vs = length ws \<and> list_all (\<lambda>(a, b). py_eq a b) (zip vs ws)
     | (VDict d, VDict e) \<Rightarrow> length d = length e \<and>
         list_all (\<lambda>(k, a). case dget e k of None \<Rightarrow> False | Some b \<Rightarrow> py_eq a b) d
     | _ \<Rightarrow> (case (as_number v, as_number w) of
           (Some a, Some b) \<Rightarrow> a = b \<and> a \<noteq> NotANumber
         | _ \<Rightarrow> False))"
  by auto
termination
proof (relation "measure (\<lambda>(v, w). size v)"; clarsimp)
  fix vs ws :: "pyval list" and a b
  assume "(a, b) \<in> set (zip vs ws)"
  then have "a \<in> set vs" by (rule set_zip_leftD)
  then show "size a < Suc (size_list size vs)" by (rule size_member)
next
  fix d :: "(string \<times> pyval) list" and k a
  assume "(k, a) \<in> set d"
  from size_member [OF this, of "size_prod (\<lambda>_. 0) size"]
  show "size a < Suc (size_list (size_prod (\<lambda>_. 0) size) d)" by simp
qed

declare py_eq.simps [simp del]

text \<open>Values as a JSON reader returns them: every object has distinct keys.\<close>

fun distinct_keys :: "pyval \<Rightarrow> bool" where
  "distinct_keys (VList vs) = (\<forall>v \<in> set vs. distinct_keys v)"
| "distinct_keys (VDict d) = (distinct (dkeys d) \<and> (\<forall>(k, v) \<in> set d. distinct_keys v))"
| "distinct_keys v = True"

lemma py_eq_refl: "nan_free v \<Longrightarrow> distinct_keys v \<Longrightarrow> py_eq v v"
proof (induction v)
  case (VFloat f)
  then show ?case by (cases f) (simp_all add: py_eq.simps)
next
  case (VList vs)
  then show ?case by (subst py_eq.simps) (auto simp: list_all_iff zip_same)
next
  case (VDict d)
  have "py_eq a a" if "(k, a) \<in> set d" for k a
    using VDict that by fastforce
  moreover have "dget d k = Some a" if "(k, a) \<in> set d" for k a
    using VDict.prems(2) that by simp
  ultimately show ?case by (subst py_eq.simps) (auto simp: list_all_iff)
qed (simp_all add: py_eq.simps)

subsection \<open>Decoding an encoded text\<close>

text \<open>
  A reader of one encoded text: it returns the decoded characters up to the closing quote
  and the input behind it.
\<close>

definition unhex :: "char \<Rightarrow> nat" where
  "unhex c = (if is_digit c then ord c - 48 else ord c - 87)"

fun unescape :: "string \<Rightarrow> (string \<times> string) option" where
  "unescape [] = None"
| "unescape (c # cs) =
     (if ord c = 34 then Some ([], cs)
      else if ord c = 92 then
        (case cs of
           e # r \<Rightarrow>
             if e = CHR ''u'' then
               (case r of
                  z1 # z0 # h1 # h0 # r' \<Rightarrow>
                    map_option (\<lambda>(s, t). (char_of (16 * unhex h1 + unhex h0) # s, t)) (unescape r')
                | _ \<Rightarrow> None)
             else map_option (\<lambda>(s, t).
               ((if e = CHR ''n'' then CHR 0x0A else if e = CHR ''r'' then CHR 0x0D
                 else if e = CHR ''t'' then CHR 0x09 else if e = CHR ''f'' then CHR 0x0C
                 else if e = CHR ''b'' then CHR 0x08 else e) # s, t)) (unescape r)
         | [] \<Rightarrow> None)
      else map_option (\<lambda>(s, t). (c # s, t)) (unescape cs))"

lemma ord_eq_iff: "ord c = ord d \<longleftrightarrow> c = d"
  by simp

lemma ord_control:
  "ord c = 8 \<Longrightarrow> c = CHR 0x08" "ord c = 9 \<Longrightarrow> c = CHR 0x09" "ord c = 10 \<Longrightarrow> c = CHR 0x0A"
  "ord c = 12 \<Longrightarrow> c = CHR 0x0C" "ord c = 13 \<Longrightarrow> c = CHR 0x0D"
  "ord c = 34 \<Longrightarrow> c = CHR 0x22" "ord c = 92 \<Longrightarrow> c = CHR 0x5C"
  by (simp_all only: flip: of_char_eq_iff [where ?'a = nat]) simp_all

lemma unhex_hex_digit: "n < 16 \<Longrightarrow> unhex (hex_digit n) = n"
  by (simp add: unhex_def hex_digit_def is_digit_def of_char_of)

lemma unescape_escape:
  "unescape (json_escape c @ rest) = map_option (\<lambda>(s, t). (c # s, t)) (unescape rest)"
proof (cases "ord c < 32 \<and> ord c \<notin> {8, 9, 10, 12, 13}")
  case True
  then have esc: "json_escape c = [CHR 0x5C, CHR ''u'', CHR ''0'', CHR ''0''] @ hex2 (ord c)"
    by (auto simp: json_escape_def)
  have "ord c div 16 < 16" using True by linarith
  then have "16 * unhex (hex_digit (ord c div 16)) + unhex (hex_digit (ord c mod 16)) = ord c"
    by (simp add: unhex_hex_digit)
  then have "char_of (16 * unhex (hex_digit (ord c div 16)) + unhex (hex_digit (ord c mod 16))) = c"
    by simp
  then show ?thesis by (simp add: esc hex2_def)
next
  case False
  consider (q) "ord c = 34 \<or> ord c = 92" | (n) "ord c = 10" | (r) "ord c = 13" | (t) "ord c = 9"
    | (f) "ord c = 12" | (b) "ord c = 8" | (plain) "32 \<le> ord c" "ord c \<noteq> 34" "ord c \<noteq> 92"
    using False by fastforce
  then show ?thesis
  proof cases
    case q
    then show ?thesis by (elim disjE) (auto simp: json_escape_def dest: ord_control)
  next
    case plain
    then show ?thesis by (simp add: json_escape_def)
  qed (auto simp: json_escape_def dest: ord_control)
qed

lemma unescape_text:
  "unescape (concat (map json_escape s) @ CHR 0x22 # rest) = Some (s, rest)"
  by (induction s) (simp_all add: unescape_escape)

lemma json_text_append_inject:
  assumes "json_text s @ a = json_text t @ b"
  shows "s = t \<and> a = b"
proof -
  have "concat (map json_escape s) @ CHR 0x22 # a = concat (map json_escape t) @ CHR 0x22 # b"
    using assms by (simp add: json_text_def)
  then have "Some (s, a) = Some (t, b)"
    by (metis unescape_text)
  then show ?thesis by simp
qed

end
