(* ===== verification/Product_Identity.thy ===== *)
theory Product_Identity
  imports Py_Value
begin

text \<open>
  \<open>product_identity_port.py\<close> and \<open>item_catalog.py\<close>: the gates a scanned product barcode
  passes before it may join a tray, and the lookup of catalog codes inside a barcode.

  Values the code receives untyped (\<open>scanned_barcodes\<close>, \<open>capacity\<close>,
  \<open>item_code_length\<close>) are \<^typ>\<open>pyval\<close>s. \<open>sha256_hex\<close> stands for
  \<open>hashlib.sha256(text.encode("utf-8")).hexdigest()\<close> and is an argument. \<open>int(value)\<close> of an
  infinite float raises \<open>OverflowError\<close>, which the code does not catch: it is the
  \<open>Inl\<close> of \<open>positive_int\<close> and of \<open>decide_product_admission\<close>.
\<close>

datatype py_exception = OverflowError

subsection \<open>Constants and decisions\<close>

definition SCAN_ACCEPTED :: string where "SCAN_ACCEPTED = ''accepted''"
definition SCAN_FORMAT_ERROR :: string where "SCAN_FORMAT_ERROR = ''format_error''"
definition SCAN_MISMATCH :: string where "SCAN_MISMATCH = ''mismatch''"
definition SCAN_DUPLICATE :: string where "SCAN_DUPLICATE = ''duplicate''"
definition SCAN_TRAY_FULL :: string where "SCAN_TRAY_FULL = ''tray_full''"
definition MAX_PRODUCT_BARCODE_LENGTH :: nat where "MAX_PRODUCT_BARCODE_LENGTH = 128"

definition FORMULA_PREFIX_CHARS :: "string list" where
  "FORMULA_PREFIX_CHARS = [''='', ''+'', ''-'', ''@'']"

definition HTML_OR_SCRIPT_MARKERS :: "string list" where
  "HTML_OR_SCRIPT_MARKERS = [''<'', ''>'', [CHR 0x60], ''javascript:'']"

lemmas scan_status_defs =
  SCAN_ACCEPTED_def SCAN_FORMAT_ERROR_def SCAN_MISMATCH_def SCAN_DUPLICATE_def SCAN_TRAY_FULL_def

record scan_decision =
  status :: string
  event_name :: string
  event_detail :: "(string, pyval) dict"

definition accepted :: "scan_decision \<Rightarrow> bool" where
  "accepted d \<longleftrightarrow> status d = SCAN_ACCEPTED"

definition accept_decision :: scan_decision where
  "accept_decision = \<lparr>status = SCAN_ACCEPTED, event_name = [], event_detail = []\<rparr>"

subsection \<open>Coercions\<close>

definition trunc_rat :: "rat \<Rightarrow> int" where
  "trunc_rat q = (if 0 \<le> q then \<lfloor>q\<rfloor> else \<lceil>q\<rceil>)"

fun py_int :: "pyval \<Rightarrow> py_exception + int option" where
  "py_int (VInt n) = Inr (Some n)"
| "py_int (VBool b) = Inr (Some (if b then 1 else 0))"
| "py_int (VStr s) = Inr (int_of_text s)"
| "py_int (VFloat f) =
     (case f of FNan \<Rightarrow> Inr None | FInf \<Rightarrow> Inl OverflowError | FNegInf \<Rightarrow> Inl OverflowError
      | FFin q r \<Rightarrow> Inr (Some (trunc_rat q)))"
| "py_int v = Inr None"

definition positive_int :: "pyval \<Rightarrow> py_exception + int option" where
  "positive_int v =
     (if is_VBool v then Inr None
      else rbind (py_int v) (\<lambda>parsed. Inr (case parsed of
          None \<Rightarrow> None
        | Some n \<Rightarrow> (if 0 < n then Some n else None))))"

definition scanned_texts :: "pyval \<Rightarrow> string list option" where
  "scanned_texts v = (case as_list v of None \<Rightarrow> None | Some vs \<Rightarrow> as_texts vs)"

definition format_error_decision ::
  "(string \<Rightarrow> string) \<Rightarrow> string \<Rightarrow> string \<Rightarrow> pyval \<Rightarrow> bool \<Rightarrow> scan_decision" where
  "format_error_decision sha256_hex raw_barcode reason item_code_length redact_raw_barcode =
     \<lparr>status = SCAN_FORMAT_ERROR, event_name = ''SCAN_FAIL_FORMAT'',
      event_detail =
        (if redact_raw_barcode then
           [(''raw_barcode_sha256'', VStr (sha256_hex raw_barcode)),
            (''raw_barcode_length'', VInt (int (length raw_barcode))),
            (''reason'', VStr reason), (''item_code_length'', item_code_length)]
         else
           [(''raw_barcode'', VStr raw_barcode),
            (''reason'', VStr reason), (''item_code_length'', item_code_length)])\<rparr>"

subsection \<open>Unsafe input\<close>

definition is_slash :: "char \<Rightarrow> bool" where
  "is_slash c \<longleftrightarrow> c = CHR 0x5C \<or> c = CHR ''/''"

text \<open>\<open>re.search("(^|[\\/])\.\.([\\/]|$)", s)\<close>; \<open>$\<close> also matches before a final newline\<close>

definition dotdot_at :: "string \<Rightarrow> nat \<Rightarrow> bool" where
  "dotdot_at s i \<longleftrightarrow> i + 2 \<le> length s \<and> s ! i = CHR ''.'' \<and> s ! (i + 1) = CHR ''.'' \<and>
     (i = 0 \<or> is_slash (s ! (i - 1))) \<and>
     (i + 2 = length s \<or> is_slash (s ! (i + 2)) \<or> (i + 3 = length s \<and> s ! (i + 2) = CHR 0x0A))"

definition has_dotdot_component :: "string \<Rightarrow> bool" where
  "has_dotdot_component s = list_ex (dotdot_at s) [0..<length s]"

definition is_ascii_letter :: "char \<Rightarrow> bool" where
  "is_ascii_letter c \<longleftrightarrow> (65 \<le> ord c \<and> ord c \<le> 90) \<or> (97 \<le> ord c \<and> ord c \<le> 122)"

fun has_drive_prefix :: "string \<Rightarrow> bool" where
  "has_drive_prefix (a # b # c # cs) = (is_ascii_letter a \<and> b = CHR '':'' \<and> is_slash c)"
| "has_drive_prefix s = False"

definition is_control_char :: "char \<Rightarrow> bool" where
  "is_control_char c \<longleftrightarrow> ord c < 32 \<or> ord c = 127"

definition unsafe_product_input_reason :: "string \<Rightarrow> string option" where
  "unsafe_product_input_reason raw_barcode =
     (if MAX_PRODUCT_BARCODE_LENGTH < length raw_barcode then Some ''barcode_too_long''
      else if raw_barcode \<noteq> strip raw_barcode then Some ''leading_or_trailing_whitespace''
      else if list_ex is_control_char raw_barcode then Some ''control_character''
      else if take 1 raw_barcode \<in> set FORMULA_PREFIX_CHARS then Some ''formula_prefix''
      else if list_ex (\<lambda>marker. in_text marker (lower raw_barcode)) HTML_OR_SCRIPT_MARKERS
        then Some ''html_or_script_marker''
      else if (raw_barcode \<noteq> [] \<and> is_slash (hd raw_barcode)) \<or> has_dotdot_component raw_barcode
          \<or> has_drive_prefix raw_barcode then Some ''path_traversal_marker''
      else None)"

subsection \<open>Gates\<close>

definition is_start_item_code :: "string \<Rightarrow> int \<Rightarrow> bool" where
  "is_start_item_code raw_barcode item_code_length \<longleftrightarrow> int (length raw_barcode) = item_code_length"

definition exceeds_item_code_length :: "string \<Rightarrow> int \<Rightarrow> bool" where
  "exceeds_item_code_length raw_barcode item_code_length \<longleftrightarrow> item_code_length < int (length raw_barcode)"

definition matches_current_item :: "string \<Rightarrow> string \<Rightarrow> bool" where
  "matches_current_item raw_barcode item_code \<longleftrightarrow> in_text item_code raw_barcode"

definition is_raw_duplicate :: "string \<Rightarrow> string list \<Rightarrow> bool" where
  "is_raw_duplicate raw_barcode scanned \<longleftrightarrow> raw_barcode \<in> set scanned"

definition is_at_capacity :: "string list \<Rightarrow> int \<Rightarrow> bool" where
  "is_at_capacity scanned capacity \<longleftrightarrow> capacity \<le> int (length scanned)"

text \<open>The three decisions after the format gates, in the code's order.\<close>

definition decide_against_tray :: "string \<Rightarrow> string \<Rightarrow> string list \<Rightarrow> int \<Rightarrow> scan_decision" where
  "decide_against_tray raw_barcode item_code scanned tray_capacity =
     (if \<not> matches_current_item raw_barcode item_code then
        \<lparr>status = SCAN_MISMATCH, event_name = ''SCAN_FAIL_MISMATCH'',
         event_detail = [(''expected'', VStr item_code), (''scanned'', VStr raw_barcode)]\<rparr>
      else if is_raw_duplicate raw_barcode scanned then
        \<lparr>status = SCAN_DUPLICATE, event_name = ''SCAN_FAIL_DUPLICATE'',
         event_detail = [(''barcode'', VStr raw_barcode)]\<rparr>
      else if is_at_capacity scanned tray_capacity then
        \<lparr>status = SCAN_TRAY_FULL, event_name = ''SCAN_FAIL_TRAY_FULL'',
         event_detail = [(''barcode'', VStr raw_barcode),
           (''scan_count'', VInt (int (length scanned))), (''tray_capacity'', VInt tray_capacity)]\<rparr>
      else accept_decision)"

definition decide_product_admission ::
  "(string \<Rightarrow> string) \<Rightarrow> string \<Rightarrow> string \<Rightarrow> pyval \<Rightarrow> pyval \<Rightarrow> pyval \<Rightarrow> py_exception + scan_decision" where
  "decide_product_admission sha256_hex raw_barcode item_code scanned_barcodes capacity item_code_length =
     rbind (positive_int item_code_length) (\<lambda>required_item_code_length.
       let unsafe_reason = unsafe_product_input_reason raw_barcode;
           format_error = (\<lambda>reason len. format_error_decision sha256_hex raw_barcode reason len)
       in case required_item_code_length of
         None \<Rightarrow> Inr (format_error ''invalid_item_code_length'' item_code_length (unsafe_reason \<noteq> None))
       | Some required \<Rightarrow>
         (case unsafe_reason of
            Some reason \<Rightarrow> Inr (format_error reason (VInt required) True)
          | None \<Rightarrow>
            if \<not> exceeds_item_code_length raw_barcode required
            then Inr (format_error ''barcode_too_short'' (VInt required) False)
            else if strip item_code = []
            then Inr (format_error ''missing_item_code'' (VInt required) False)
            else (case scanned_texts scanned_barcodes of
                None \<Rightarrow> Inr (format_error ''malformed_scanned_barcodes'' (VInt required) False)
              | Some scanned \<Rightarrow>
                  rbind (positive_int capacity) (\<lambda>tray_capacity.
                    case tray_capacity of
                      None \<Rightarrow> Inr (format_error ''invalid_tray_capacity'' (VInt required) False)
                    | Some cap \<Rightarrow>
                        Inr (decide_against_tray raw_barcode (strip item_code) scanned cap)))))"

definition decide_catalog_product_match :: "string \<Rightarrow> string \<Rightarrow> string list \<Rightarrow> scan_decision" where
  "decide_catalog_product_match expected_item_code raw_barcode matching_codes =
     (let codes = dedup matching_codes;
          mismatch = (\<lambda>name detail. \<lparr>status = SCAN_MISMATCH, event_name = name,
            event_detail = [(''expected'', VStr expected_item_code), (''scanned'', VStr raw_barcode), detail]\<rparr>)
      in if 1 < length codes
         then mismatch ''SCAN_FAIL_AMBIGUOUS_ITEM_CODE'' (''matching_item_codes'', VList (map VStr codes))
         else if length codes = 1 \<and> hd codes \<noteq> expected_item_code
         then mismatch ''SCAN_FAIL_MISMATCH'' (''matched_item_code'', VStr (hd codes))
         else accept_decision)"

subsection \<open>Catalog codes inside a barcode\<close>

type_synonym catalog_row = "(string, pyval) dict"
type_synonym catalog_view = "(string, catalog_row) dict"

definition find_catalog_item :: "catalog_view \<Rightarrow> string \<Rightarrow> catalog_row option" where
  "find_catalog_item view item_code = dget view (strip item_code)"

text \<open>The \<open>while True\<close> loop that collects every span of a code, overlapping ones included.\<close>

function code_spans :: "string \<Rightarrow> string \<Rightarrow> nat \<Rightarrow> (nat \<times> nat) list" where
  "code_spans code tx start =
     (case find_from code tx start of
        None \<Rightarrow> []
      | Some index \<Rightarrow> (index, index + length code) # code_spans code tx (index + 1))"
  by pat_completeness auto
termination
proof (relation "measure (\<lambda>(code, tx, start). Suc (length tx) - start)")
  fix code tx :: string and start index :: nat
  assume "find_from code tx start = Some index"
  then have "start \<le> index" and "occurs_at code tx index" by (auto dest: find_from_Some)
  then show "((code, tx, index + 1), (code, tx, start))
      \<in> measure (\<lambda>(code, tx, start). Suc (length tx) - start)"
    by (auto simp: occurs_at_def)
qed simp

declare code_spans.simps [simp del]

definition spans_by_code :: "catalog_view \<Rightarrow> string \<Rightarrow> (string, (nat \<times> nat) list) dict" where
  "spans_by_code view tx =
     filter (\<lambda>(code, spans). spans \<noteq> []) (map (\<lambda>(code, row). (code, code_spans code tx 0)) view)"

definition longer_spans :: "(string, (nat \<times> nat) list) dict \<Rightarrow> string \<Rightarrow> (nat \<times> nat) list" where
  "longer_spans by_code code =
     concat (map snd (filter (\<lambda>(other, spans). other \<noteq> code \<and> length code < length other) by_code))"

definition span_covered :: "(nat \<times> nat) list \<Rightarrow> nat \<times> nat \<Rightarrow> bool" where
  "span_covered others sp = list_ex (\<lambda>(a, b). a \<le> fst sp \<and> snd sp \<le> b) others"

definition matching_catalog_codes :: "catalog_view \<Rightarrow> string \<Rightarrow> string list" where
  "matching_catalog_codes view barcode =
     (let by_code = spans_by_code view barcode in
      map fst (filter (\<lambda>(code, spans).
        \<not> (longer_spans by_code code \<noteq> [] \<and> list_all (span_covered (longer_spans by_code code)) spans))
        by_code))"

subsection \<open>The catalog\<close>

record item_catalog =
  catalog_rows :: "catalog_row list"
  by_code :: catalog_view

text \<open>One iteration of the constructor's loop over the rows of Item.csv.\<close>

definition add_row :: "item_catalog \<Rightarrow> catalog_row \<Rightarrow> item_catalog" where
  "add_row cat source_row =
     (let code = strip (str_or_empty (vget source_row ''Item Code''));
          row = (if code \<noteq> [] then dset ''Item Code'' (VStr code) source_row else source_row)
      in cat\<lparr>catalog_rows := catalog_rows cat @ [row],
             by_code := (if code \<noteq> [] \<and> code \<notin> set (dkeys (by_code cat))
                         then by_code cat @ [(code, row)] else by_code cat)\<rparr>)"

definition build_catalog :: "catalog_row list \<Rightarrow> item_catalog" where
  "build_catalog rows = fold (\<lambda>row cat. add_row cat row) rows \<lparr>catalog_rows = [], by_code = []\<rparr>"

definition find_by_code :: "item_catalog \<Rightarrow> string \<Rightarrow> catalog_row option" where
  "find_by_code cat item_code = find_catalog_item (by_code cat) item_code"

definition matching_codes_in_barcode :: "item_catalog \<Rightarrow> string \<Rightarrow> string list" where
  "matching_codes_in_barcode cat barcode = matching_catalog_codes (by_code cat) barcode"

definition find_in_barcode :: "item_catalog \<Rightarrow> string \<Rightarrow> catalog_row option" where
  "find_in_barcode cat barcode =
     (case matching_codes_in_barcode cat barcode of
        [code] \<Rightarrow> find_by_code cat code
      | _ \<Rightarrow> None)"

definition wf_catalog :: "item_catalog \<Rightarrow> bool" where
  "wf_catalog cat \<longleftrightarrow> distinct (dkeys (by_code cat)) \<and>
     (\<forall>(code, row) \<in> set (by_code cat).
        code \<noteq> [] \<and> strip code = code \<and> vget row ''Item Code'' = VStr code)"

subsection \<open>Facts: coercions and gates\<close>

lemma positive_int_Some: "positive_int v = Inr (Some n) \<Longrightarrow> 0 < n"
  by (auto simp: positive_int_def result_simps split: if_splits option.splits)

lemma positive_int_VInt [simp]: "positive_int (VInt n) = Inr (if 0 < n then Some n else None)"
  by (simp add: positive_int_def)

lemma scanned_texts_VList [simp]: "scanned_texts (VList (map VStr ss)) = Some ss"
  by (simp add: scanned_texts_def)

lemma scanned_texts_Some: "scanned_texts v = Some ss \<longleftrightarrow> v = VList (map VStr ss)"
  by (cases v) (auto simp: scanned_texts_def as_texts_eq)

lemma not_accepted_format_error [simp]: "\<not> accepted (format_error_decision sha b r l red)"
  by (simp add: accepted_def format_error_decision_def scan_status_defs)

lemma accepted_accept_decision [simp]: "accepted accept_decision"
  by (simp add: accepted_def accept_decision_def)

lemma accepted_decide_against_tray:
  "accepted (decide_against_tray b i ss cap) \<longleftrightarrow>
     in_text i b \<and> b \<notin> set ss \<and> int (length ss) < cap"
  by (auto simp: decide_against_tray_def accepted_def accept_decision_def scan_status_defs
      matches_current_item_def is_raw_duplicate_def is_at_capacity_def)

text \<open>What the unsafe-input gate lets through.\<close>

definition safe_barcode :: "string \<Rightarrow> bool" where
  "safe_barcode b \<longleftrightarrow> length b \<le> 128 \<and> strip b = b \<and> (\<forall>c \<in> set b. 32 \<le> ord c \<and> ord c \<noteq> 127) \<and>
     (b \<noteq> [] \<longrightarrow> hd b \<notin> {CHR ''='', CHR ''+'', CHR ''-'', CHR ''@'', CHR ''/'', CHR 0x5C}) \<and>
     (\<forall>m \<in> {''<'', ''>'', [CHR 0x60], ''javascript:''}. \<not> in_text m (lower b)) \<and>
     (\<forall>i. \<not> dotdot_at b i) \<and> \<not> has_drive_prefix b"

lemma has_dotdot_component_iff: "has_dotdot_component b \<longleftrightarrow> (\<exists>i. dotdot_at b i)"
proof -
  have "dotdot_at b i \<Longrightarrow> i < length b" for i by (simp add: dotdot_at_def)
  then show ?thesis by (auto simp: has_dotdot_component_def list_ex_iff)
qed

lemma take_1_in: "take 1 b \<in> set FORMULA_PREFIX_CHARS \<longleftrightarrow>
    b \<noteq> [] \<and> hd b \<in> {CHR ''='', CHR ''+'', CHR ''-'', CHR ''@''}"
  by (cases b) (auto simp: FORMULA_PREFIX_CHARS_def)

lemma unsafe_reason_None_iff: "unsafe_product_input_reason b = None \<longleftrightarrow> safe_barcode b"
proof -
  have ctl: "list_ex is_control_char b \<longleftrightarrow> \<not> (\<forall>c \<in> set b. 32 \<le> ord c \<and> ord c \<noteq> 127)"
    by (force simp: list_ex_iff is_control_char_def not_le)
  have mark: "list_ex (\<lambda>m. in_text m (lower b)) HTML_OR_SCRIPT_MARKERS \<longleftrightarrow>
      \<not> (\<forall>m \<in> {''<'', ''>'', [CHR 0x60], ''javascript:''}. \<not> in_text m (lower b))"
    by (simp add: HTML_OR_SCRIPT_MARKERS_def)
  show ?thesis
    unfolding unsafe_product_input_reason_def safe_barcode_def take_1_in ctl mark
      has_dotdot_component_iff MAX_PRODUCT_BARCODE_LENGTH_def is_slash_def
    by auto
qed

text \<open>The full characterisation of an accepted scan.\<close>

lemma admission_accepted_iff:
  "(\<exists>d. decide_product_admission sha b item scanned cap len = Inr d \<and> accepted d) \<longleftrightarrow>
   (\<exists>n c ss. positive_int len = Inr (Some n) \<and> positive_int cap = Inr (Some c) \<and>
      scanned = VList (map VStr ss) \<and> safe_barcode b \<and> n < int (length b) \<and>
      strip item \<noteq> [] \<and> in_text (strip item) b \<and> b \<notin> set ss \<and> int (length ss) < c)"
  (is "?lhs \<longleftrightarrow> ?rhs")
proof (cases "\<exists>n. positive_int len = Inr (Some n) \<and> unsafe_product_input_reason b = None \<and>
    n < int (length b) \<and> strip item \<noteq> []")
  case True
  then obtain n where n: "positive_int len = Inr (Some n)" "n < int (length b)"
    and b: "unsafe_product_input_reason b = None" "strip item \<noteq> []"
    by blast
  from b(1) have safe: "safe_barcode b" by (simp add: unsafe_reason_None_iff)
  show ?thesis
  proof (cases "scanned_texts scanned")
    case None
    then have "\<nexists>ss. scanned = VList (map VStr ss)" by auto
    with None n b show ?thesis
      by (simp add: decide_product_admission_def exceeds_item_code_length_def)
  next
    case (Some ss)
    then have sc: "scanned = VList (map VStr ts) \<longleftrightarrow> ts = ss" for ts
      by (metis option.inject scanned_texts_VList scanned_texts_Some)
    show ?thesis
      using n b safe Some sc
      by (cases "positive_int cap")
         (auto simp: decide_product_admission_def exceeds_item_code_length_def
            accepted_decide_against_tray split: option.splits)
  qed
next
  case False
  then have "\<not> ?rhs" unfolding unsafe_reason_None_iff by blast
  moreover have "\<not> ?lhs"
    using False
    by (auto simp: decide_product_admission_def result_simps Let_def exceeds_item_code_length_def
        split: option.splits if_splits)
  ultimately show ?thesis by blast
qed

subsection \<open>Facts: catalog search\<close>

lemma set_code_spans:
  "set (code_spans code s start) = {(i, i + length code) | i. start \<le> i \<and> occurs_at code s i}"
proof (induction code s start rule: code_spans.induct)
  case (1 code s start)
  show ?case
  proof (cases "find_from code s start")
    case None
    then have "code_spans code s start = []" by (simp add: code_spans.simps [of code s start])
    moreover from None have "\<forall>j \<ge> start. \<not> occurs_at code s j" by (simp add: find_from_None)
    ultimately show ?thesis by auto
  next
    case (Some i)
    note f = find_from_Some [OF Some]
    have "{(j, j + length code) | j. start \<le> j \<and> occurs_at code s j}
        = insert (i, i + length code) {(j, j + length code) | j. i + 1 \<le> j \<and> occurs_at code s j}"
      using f by (auto simp: not_less_eq_eq)
    with 1 [OF Some] Some show ?thesis
      by (simp add: code_spans.simps [of code s start])
  qed
qed

lemma code_spans_empty: "code_spans code s 0 = [] \<longleftrightarrow> \<not> in_text code s"
proof -
  have "code_spans code s 0 = [] \<longleftrightarrow> set (code_spans code s 0) = {}" by simp
  also have "\<dots> \<longleftrightarrow> \<not> in_text code s" by (auto simp: set_code_spans in_text_iff_occurs)
  finally show ?thesis .
qed

lemma spans_by_code_eq:
  "spans_by_code view s = map (\<lambda>c. (c, code_spans c s 0)) (filter (\<lambda>c. in_text c s) (dkeys view))"
  by (induction view) (auto simp: spans_by_code_def code_spans_empty)

lemma set_longer_spans:
  "set (longer_spans (spans_by_code view s) c) =
     {(j, j + length c') | c' j. c' \<in> set (dkeys view) \<and> length c < length c' \<and> occurs_at c' s j}"
proof -
  have "set (longer_spans (spans_by_code view s) c) =
      (\<Union>c' \<in> {c' \<in> set (dkeys view). in_text c' s \<and> c' \<noteq> c \<and> length c < length c'}.
         set (code_spans c' s 0))"
    by (fastforce simp: longer_spans_def spans_by_code_eq)
  also have "\<dots> = {(j, j + length c') | c' j.
      c' \<in> set (dkeys view) \<and> length c < length c' \<and> occurs_at c' s j}"
    unfolding set_code_spans in_text_iff_occurs by blast
  finally show ?thesis .
qed

text \<open>An occurrence of \<open>c\<close> at \<open>i\<close> that no longer catalog code covers.\<close>

definition own_occurrence :: "string set \<Rightarrow> string \<Rightarrow> string \<Rightarrow> nat \<Rightarrow> bool" where
  "own_occurrence codes s c i \<longleftrightarrow> occurs_at c s i \<and>
     (\<forall>c' \<in> codes. \<forall>j. length c < length c' \<and> occurs_at c' s j \<longrightarrow>
        \<not> (j \<le> i \<and> i + length c \<le> j + length c'))"

lemma uncovered_iff:
  "\<not> (longer_spans (spans_by_code view s) c \<noteq> [] \<and>
       list_all (span_covered (longer_spans (spans_by_code view s) c)) (code_spans c s 0)) \<and>
   in_text c s \<longleftrightarrow> (\<exists>i. own_occurrence (set (dkeys view)) s c i)"
  (is "\<not> (?L \<noteq> [] \<and> list_all (span_covered ?L) ?S) \<and> _ \<longleftrightarrow> ?rhs")
proof -
  have cov: "span_covered ?L (i, i + length c) \<longleftrightarrow>
      (\<exists>c' \<in> set (dkeys view). \<exists>j. length c < length c' \<and> occurs_at c' s j \<and>
         j \<le> i \<and> i + length c \<le> j + length c')" for i
    unfolding span_covered_def list_ex_iff set_longer_spans by fastforce
  have "list_all (span_covered ?L) ?S \<longleftrightarrow> (\<forall>i. occurs_at c s i \<longrightarrow> span_covered ?L (i, i + length c))"
    by (auto simp: list_all_iff set_code_spans)
  moreover have "?L = [] \<Longrightarrow> \<not> span_covered ?L sp" for sp by (simp add: span_covered_def)
  ultimately show ?thesis
    unfolding own_occurrence_def in_text_iff_occurs using cov by blast
qed

lemma matching_catalog_codes_eq:
  "matching_catalog_codes view s =
     filter (\<lambda>c. \<not> (longer_spans (spans_by_code view s) c \<noteq> [] \<and>
       list_all (span_covered (longer_spans (spans_by_code view s) c)) (code_spans c s 0)) \<and>
       in_text c s) (dkeys view)"
proof -
  define L where "L = longer_spans (spans_by_code view s)"
  show ?thesis
    unfolding matching_catalog_codes_def Let_def L_def [symmetric]
    by (subst spans_by_code_eq) (simp add: filter_map comp_def conj_commute)
qed

lemma set_matching_catalog_codes:
  "c \<in> set (matching_catalog_codes view s) \<longleftrightarrow>
     c \<in> set (dkeys view) \<and> (\<exists>i. own_occurrence (set (dkeys view)) s c i)"
  unfolding matching_catalog_codes_eq set_filter mem_Collect_eq uncovered_iff by blast

lemma own_occurrence_in_text: "own_occurrence K s c i \<Longrightarrow> in_text c s"
  by (auto simp: own_occurrence_def in_text_iff_occurs)

lemma add_row_wf: "wf_catalog cat \<Longrightarrow> wf_catalog (add_row cat row)"
  by (auto simp: wf_catalog_def add_row_def Let_def)

lemma build_catalog_wf: "wf_catalog (build_catalog rows)"
proof -
  have "wf_catalog cat \<Longrightarrow> wf_catalog (fold (\<lambda>row cat. add_row cat row) rows cat)" for cat
    by (induction rows arbitrary: cat) (auto simp: add_row_wf)
  moreover have "wf_catalog \<lparr>catalog_rows = [], by_code = []\<rparr>" by (simp add: wf_catalog_def)
  ultimately show ?thesis unfolding build_catalog_def by blast
qed

lemma find_in_barcode_Some:
  assumes "wf_catalog cat" "find_in_barcode cat b = Some row"
  shows "\<exists>code. matching_codes_in_barcode cat b = [code] \<and> code \<noteq> [] \<and> strip code = code \<and>
    in_text code b \<and> vget row ''Item Code'' = VStr code"
proof -
  obtain code where m: "matching_codes_in_barcode cat b = [code]" and
    f: "find_by_code cat code = Some row"
    using assms(2) by (auto simp: find_in_barcode_def split: list.splits)
  from m have "code \<in> set (matching_catalog_codes (by_code cat) b)"
    by (simp add: matching_codes_in_barcode_def)
  then have k: "code \<in> set (dkeys (by_code cat))" and t: "in_text code b"
    by (auto simp: set_matching_catalog_codes dest: own_occurrence_in_text)
  from k assms(1) have code: "code \<noteq> []" "strip code = code"
    by (auto simp: wf_catalog_def)
  with f have "(code, row) \<in> set (by_code cat)"
    by (auto simp: find_by_code_def find_catalog_item_def dest: dget_SomeD)
  with assms(1) have "vget row ''Item Code'' = VStr code"
    by (auto simp: wf_catalog_def)
  with m code t show ?thesis by blast
qed

subsection \<open>The interface the exchange workflow relies on\<close>

locale barcode_catalog =
  fixes matching :: "'c \<Rightarrow> string \<Rightarrow> string list"
    and lookup_in :: "'c \<Rightarrow> string \<Rightarrow> catalog_row option"
    and valid :: "'c \<Rightarrow> bool"
  assumes lookup_in_Some: "valid cat \<Longrightarrow> lookup_in cat b = Some row \<Longrightarrow>
      \<exists>code. matching cat b = [code] \<and> code \<noteq> [] \<and> strip code = code \<and> in_text code b \<and>
        vget row ''Item Code'' = VStr code"
    and single_match_found: "valid cat \<Longrightarrow> matching cat b = [code] \<Longrightarrow> lookup_in cat b \<noteq> None"
begin

lemma lookup_code:
  assumes "valid cat" "lookup_in cat b = Some row"
  obtains code where "matching cat b = [code]" "code \<noteq> []" "strip code = code" "in_text code b"
    "vget row ''Item Code'' = VStr code"
  using lookup_in_Some [OF assms] by blast

lemma lookup_unambiguous:
  "valid cat \<Longrightarrow> lookup_in cat b = Some row \<Longrightarrow> length (dedup (matching cat b)) = 1"
  by (metis One_nat_def distinct_singleton dedup_distinct length_Cons list.size(3) lookup_in_Some)

end

lemma find_in_barcode_single:
  assumes "wf_catalog cat" "matching_codes_in_barcode cat b = [code]"
  shows "find_in_barcode cat b \<noteq> None"
proof -
  have "code \<in> set (matching_catalog_codes (by_code cat) b)"
    using assms(2) by (simp add: matching_codes_in_barcode_def)
  then have k: "code \<in> set (dkeys (by_code cat))"
    by (auto simp: set_matching_catalog_codes)
  with assms(1) have "strip code = code" by (auto simp: wf_catalog_def)
  with k assms(2) show ?thesis
    by (simp add: find_in_barcode_def find_by_code_def find_catalog_item_def dget_None_iff)
qed

interpretation item_cat: barcode_catalog matching_codes_in_barcode find_in_barcode wf_catalog
  by unfold_locales (rule find_in_barcode_Some find_in_barcode_single; assumption)+

subsection \<open>Properties\<close>

lemma matching_nonempty:
  assumes "c \<in> set (dkeys view)" "in_text c s"
  shows "matching_catalog_codes view s \<noteq> []"
proof -
  let ?K = "{c' \<in> set (dkeys view). in_text c' s}"
  have "finite ?K" and "?K \<noteq> {}" using assms by auto
  then have "Max (length ` ?K) \<in> length ` ?K" by (intro Max_in) auto
  then obtain m where m0: "m \<in> ?K" "length m = Max (length ` ?K)" by (rule imageE) simp
  have "\<forall>c' \<in> ?K. length c' \<le> length m"
    unfolding m0(2) using \<open>finite ?K\<close> by (intro ballI Max_ge) auto
  note m = m0(1) this
  then obtain i where "occurs_at m s i" by (auto simp: in_text_iff_occurs)
  with m have "own_occurrence (set (dkeys view)) s m i"
    by (fastforce simp: own_occurrence_def in_text_iff_occurs)
  with m have "m \<in> set (matching_catalog_codes view s)"
    by (auto simp: set_matching_catalog_codes)
  then show ?thesis by auto
qed

text \<open>
  C19. A product scan is accepted exactly when every gate holds: the code length setting and the
  tray capacity are positive integers, the recorded scans are a list of texts, the barcode is
  safe (length at most 128, no surrounding whitespace, no control character, no spreadsheet
  formula prefix, no markup or script marker, no path), longer than the item code, contains the
  tray's item code, was not scanned before, and the tray has room.
\<close>

theorem product_scan_accepted_iff:
  "(\<exists>d. decide_product_admission sha b item scanned cap len = Inr d \<and> accepted d) \<longleftrightarrow>
   (\<exists>n c ss. positive_int len = Inr (Some n) \<and> positive_int cap = Inr (Some c) \<and>
      scanned = VList (map VStr ss) \<and> safe_barcode b \<and> n < int (length b) \<and>
      strip item \<noteq> [] \<and> in_text (strip item) b \<and> b \<notin> set ss \<and> int (length ss) < c)"
  by (rule admission_accepted_iff)

text \<open>
  A rejected barcode that failed the safety gate never reaches the event log in clear: the
  detail of the decision then carries its digest and length and no field with the raw text.
\<close>

theorem unsafe_barcode_redacted:
  assumes "decide_product_admission sha b item scanned cap len = Inr d" "\<not> safe_barcode b"
  shows "status d = SCAN_FORMAT_ERROR \<and> vget (event_detail d) ''raw_barcode_sha256'' = VStr (sha b) \<and>
    ''raw_barcode'' \<notin> set (dkeys (event_detail d))"
proof -
  from assms(2) obtain r where "unsafe_product_input_reason b = Some r"
    by (metis unsafe_reason_None_iff option.exhaust)
  moreover from assms(1) obtain p where "positive_int len = Inr p"
    by (auto simp: decide_product_admission_def result_simps)
  ultimately have "\<exists>reason l. d = format_error_decision sha b reason l True"
    using assms(1) by (cases p) (auto simp: decide_product_admission_def)
  then show ?thesis by (auto simp: format_error_decision_def)
qed

theorem unsafe_barcode_redacted_witness:
  "status (format_error_decision (\<lambda>_. ''00'') ''=HYPERLINK'' ''formula_prefix'' (VInt 3) True) = SCAN_FORMAT_ERROR \<and>
   ''raw_barcode'' \<notin> set (dkeys (event_detail
      (format_error_decision (\<lambda>_. ''00'') ''=HYPERLINK'' ''formula_prefix'' (VInt 3) True)))"
proof -
  have "unsafe_product_input_reason ''=HYPERLINK'' = Some ''formula_prefix''"
    by (simp add: unsafe_product_input_reason_def MAX_PRODUCT_BARCODE_LENGTH_def strip_def lstrip_def
        rstrip_def is_space_def is_control_char_def FORMULA_PREFIX_CHARS_def)
  then have e: "decide_product_admission (\<lambda>_. ''00'') ''=HYPERLINK'' ''ABC'' (VList []) (VInt 60) (VInt 3)
      = Inr (format_error_decision (\<lambda>_. ''00'') ''=HYPERLINK'' ''formula_prefix'' (VInt 3) True)"
    and u: "\<not> safe_barcode ''=HYPERLINK''"
    by (simp_all add: decide_product_admission_def flip: unsafe_reason_None_iff)
  show ?thesis using unsafe_barcode_redacted [OF e u] by blast
qed

text \<open>
  C25. The catalog search reports a code exactly when the code occurs in the barcode at a place
  that no occurrence of a longer catalog code covers; it keeps the catalog's order and reports
  no code twice.
\<close>

theorem matching_catalog_codes_spec:
  assumes "distinct (dkeys view)"
  shows "set (matching_catalog_codes view s) =
      {c \<in> set (dkeys view). \<exists>i. own_occurrence (set (dkeys view)) s c i} \<and>
    distinct (matching_catalog_codes view s) \<and> subseq (matching_catalog_codes view s) (dkeys view)"
  using assms set_matching_catalog_codes [of _ view s]
  unfolding matching_catalog_codes_eq by (auto intro: subseq_filter_left)

theorem matching_catalog_codes_spec_witness:
  "set (matching_catalog_codes [(''AB'', []), (''ABC'', [])] ''xABCyAB'') = {''AB'', ''ABC''} \<and>
   own_occurrence {''AB'', ''ABC''} ''xABCyAB'' ''AB'' 5"
proof -
  have d: "distinct (dkeys [(''AB'', [] :: catalog_row), (''ABC'', [])])" by simp
  have ev: "matching_catalog_codes [(''AB'', []), (''ABC'', [])] ''xABCyAB'' = [''AB'', ''ABC'']"
    by code_simp
  have own: "own_occurrence {''AB'', ''ABC''} ''xABCyAB'' ''AB'' 5"
  proof -
    have "j = 1" if "occurs_at ''ABC'' ''xABCyAB'' j" for j
    proof -
      from that have "j \<le> 4" by (simp add: occurs_at_def)
      then have "j = 0 \<or> j = 1 \<or> j = 2 \<or> j = 3 \<or> j = 4" by linarith
      with that show ?thesis by (auto simp: occurs_at_def)
    qed
    then show ?thesis by (fastforce simp: own_occurrence_def occurs_at_def)
  qed
  show ?thesis using matching_catalog_codes_spec [OF d, of "''xABCyAB''"] ev own by simp
qed

text \<open>
  After the basic gate, the catalog decision accepts a barcode exactly when the catalog names
  no code in it or only the expected one; several codes are reported as ambiguous.
\<close>

theorem catalog_decision_iff:
  "accepted (decide_catalog_product_match expected b codes) \<longleftrightarrow> set codes \<subseteq> {expected}"
proof -
  consider (none) "dedup codes = []" | (one) c where "dedup codes = [c]"
    | (many) c c' cs where "dedup codes = c # c' # cs"
    by (metis list.exhaust)
  then show ?thesis
  proof cases
    case none
    then have "set codes = {}" by (metis set_dedup list.set(1))
    with none show ?thesis by (simp add: decide_catalog_product_match_def)
  next
    case (one c)
    then have "set codes = {c}" by (metis set_dedup list.set(1,2))
    with one show ?thesis
      by (auto simp: decide_catalog_product_match_def accepted_def scan_status_defs accept_decision_def)
  next
    case (many c c' cs)
    then have "c \<noteq> c'" "c \<in> set codes" "c' \<in> set codes"
      by (metis distinct_dedup distinct_length_2_or_more, metis set_dedup list.set_intros(1),
          metis set_dedup list.set_intros)
    with many show ?thesis
      by (auto simp: decide_catalog_product_match_def Let_def accepted_def scan_status_defs)
  qed
qed

end
