(* ===== verification/Label_Qr.thy ===== *)
theory Label_Qr
  imports Py_Value
begin

text \<open>
  \<open>label_qr.py\<close>: reading the master label (the paper tag of a tray). A label is a JSON
  object or a \<open>K=V|K=V\<close> text; it may arrive base64 encoded. The decoders of the Python
  standard library are the fields of \<open>qr_codecs\<close>: \<open>json_loads\<close> decodes a JSON text with
  object members in document order and duplicates kept (\<^term>\<open>None\<close> is
  \<open>JSONDecodeError\<close>), and \<open>b64_utf8\<close> is strict base64 followed by UTF-8
  (\<^term>\<open>None\<close> is any of the three caught exceptions).
\<close>

record qr_codecs =
  json_loads :: "string \<Rightarrow> pyval option"
  b64_utf8 :: "string \<Rightarrow> string option"

type_synonym fields = "(string, string) dict"

subsection \<open>The JSON form\<close>

fun normalized_json_object :: "(string \<times> pyval) list \<Rightarrow> fields \<Rightarrow> fields option" where
  "normalized_json_object [] parsed = Some parsed"
| "normalized_json_object ((key, value) # pairs) parsed =
     (let normalized_key = strip key in
      if normalized_key = [] \<or> normalized_key \<in> set (dkeys parsed) then None
      else normalized_json_object pairs (parsed @ [(normalized_key, strip (py_str value))]))"

definition fields_value :: "fields \<Rightarrow> pyval" where
  "fields_value d = VDict (map (\<lambda>(k, v). (k, VStr v)) d)"

text \<open>\<open>object_pairs_hook\<close> runs on every object, the inner ones first.\<close>

fun apply_hook :: "pyval \<Rightarrow> pyval option" where
  "apply_hook (VList vs) = map_option VList (those (map apply_hook vs))"
| "apply_hook (VDict d) =
     (case those (map (\<lambda>(k, v). map_option (Pair k) (apply_hook v)) d) of
        None \<Rightarrow> None
      | Some pairs \<Rightarrow> map_option fields_value (normalized_json_object pairs []))"
| "apply_hook v = Some v"

text \<open>The fields of a value that is a dictionary of texts.\<close>

fun value_fields :: "(string \<times> pyval) list \<Rightarrow> fields" where
  "value_fields d = map (\<lambda>(k, v). (k, py_str v)) d"

subsection \<open>The pipe form\<close>

fun parse_pairs :: "string list \<Rightarrow> fields \<Rightarrow> fields option" where
  "parse_pairs [] parsed = (if parsed = [] then None else Some parsed)"
| "parse_pairs (pair # pairs) parsed =
     (if strip pair = [] then parse_pairs pairs parsed
      else if CHR ''='' \<notin> set pair then None
      else let (key, val) = split_once (CHR ''='') pair; key = strip key in
        if key = [] \<or> key \<in> set (dkeys parsed) then None
        else parse_pairs pairs (parsed @ [(key, strip val)]))"

definition parse_pipe_form :: "string \<Rightarrow> fields option" where
  "parse_pipe_form qr_data =
     (if CHR ''='' \<in> set qr_data \<and> CHR ''|'' \<in> set qr_data
      then parse_pairs (split_on (CHR ''|'') qr_data) [] else None)"

definition parse_new_format_qr :: "qr_codecs \<Rightarrow> string \<Rightarrow> fields option" where
  "parse_new_format_qr C qr_data =
     (if prefix ''{'' (strip qr_data) \<and> suffix ''}'' (strip qr_data)
      then (case json_loads C qr_data of
          None \<Rightarrow> parse_pipe_form qr_data
        | Some tree \<Rightarrow>
            (case apply_hook tree of
               None \<Rightarrow> parse_pipe_form qr_data
             | Some (VDict d) \<Rightarrow> Some (value_fields d)
             | Some _ \<Rightarrow> None))
      else parse_pipe_form qr_data)"

text \<open>\<open>parse_new_format_qr(text) or {}\<close>\<close>

definition qr_fields :: "qr_codecs \<Rightarrow> string \<Rightarrow> fields" where
  "qr_fields C qr_data = (case parse_new_format_qr C qr_data of None \<Rightarrow> [] | Some d \<Rightarrow> d)"

subsection \<open>Normal form and key of a label\<close>

definition normalize_master_label_input :: "qr_codecs \<Rightarrow> string \<Rightarrow> string" where
  "normalize_master_label_input C raw_value =
     (let val = strip raw_value in
      case b64_utf8 C val of
        None \<Rightarrow> val
      | Some decoded \<Rightarrow> (if qr_fields C decoded \<noteq> [] then decoded else val))"

definition canonical_master_label_key :: "qr_codecs \<Rightarrow> string \<Rightarrow> string" where
  "canonical_master_label_key C raw_value =
     (let val = normalize_master_label_input C raw_value; parsed = qr_fields C val in
      if parsed \<noteq> [] then ''qr:'' @ dumps (fields_value parsed) else ''raw:'' @ val)"

subsection \<open>Reading fields\<close>

text \<open>\<open>str(d.get(key) or "")\<close> on a dictionary of texts\<close>

definition field :: "fields \<Rightarrow> string \<Rightarrow> string" where
  "field d key = (case dget d key of None \<Rightarrow> [] | Some v \<Rightarrow> v)"

definition inspection_master_item_code :: "fields \<Rightarrow> string" where
  "inspection_master_item_code qr_data =
     (if qr_data = [] then []
      else let clc = strip (field qr_data ''CLC'');
               item = strip (if field qr_data ''ITEM'' \<noteq> [] then field qr_data ''ITEM''
                             else field qr_data ''ITEM_CODE'')
           in if upper clc = ''INSPECTION'' \<and> item \<noteq> [] then item else clc)"

definition raw_quantity :: "fields \<Rightarrow> string" where
  "raw_quantity qr_data =
     (if field qr_data ''QT'' \<noteq> [] then field qr_data ''QT''
      else if field qr_data ''QTY'' \<noteq> [] then field qr_data ''QTY''
      else field qr_data ''QUANTITY'')"

definition parse_positive_quantity :: "fields \<Rightarrow> int option \<Rightarrow> int option" where
  "parse_positive_quantity qr_data default_quantity =
     (if raw_quantity qr_data = [] then default_quantity
      else (case int_of_text (strip (raw_quantity qr_data)) of
          None \<Rightarrow> None
        | Some quantity \<Rightarrow> (if 0 < quantity then Some quantity else None)))"

subsection \<open>Well-formed field dictionaries\<close>

definition wf_fields :: "fields \<Rightarrow> bool" where
  "wf_fields d \<longleftrightarrow> distinct (dkeys d) \<and>
     (\<forall>(k, v) \<in> set d. k \<noteq> [] \<and> strip k = k \<and> strip v = v)"

lemma wf_fields_Nil [simp]: "wf_fields []"
  by (simp add: wf_fields_def)

lemma wf_fields_snoc:
  "wf_fields d \<Longrightarrow> strip k \<noteq> [] \<Longrightarrow> strip k \<notin> set (dkeys d) \<Longrightarrow> wf_fields (d @ [(strip k, strip v)])"
  by (auto simp: wf_fields_def)

lemma normalized_json_object_wf:
  "normalized_json_object pairs d = Some d' \<Longrightarrow> wf_fields d \<Longrightarrow> wf_fields d'"
  by (induction pairs d rule: normalized_json_object.induct)
     (auto simp: Let_def wf_fields_snoc split: if_splits)

lemma parse_pairs_wf: "parse_pairs pairs d = Some d' \<Longrightarrow> wf_fields d \<Longrightarrow> wf_fields d'"
  by (induction pairs d rule: parse_pairs.induct)
     (auto simp: Let_def wf_fields_snoc split: if_splits prod.splits)

lemma parse_pipe_form_wf: "parse_pipe_form s = Some d \<Longrightarrow> wf_fields d"
  by (auto simp: parse_pipe_form_def dest: parse_pairs_wf split: if_splits)

lemma value_fields_of_value [simp]:
  "value_fields (map (\<lambda>(k, v). (k, VStr v)) d) = d"
  by (induction d) auto

lemma apply_hook_dict:
  "apply_hook v = Some (VDict d) \<Longrightarrow> \<exists>f. d = map (\<lambda>(k, v). (k, VStr v)) f \<and> wf_fields f"
  by (cases v) (auto simp: fields_value_def split: option.splits
      intro: normalized_json_object_wf [OF _ wf_fields_Nil])

lemma parse_new_format_qr_wf_fields: "parse_new_format_qr C s = Some d \<Longrightarrow> wf_fields d"
  by (auto simp: parse_new_format_qr_def simp del: value_fields.simps
      dest: parse_pipe_form_wf dest!: apply_hook_dict split: if_splits option.splits pyval.splits)

lemma qr_fields_wf: "wf_fields (qr_fields C s)"
  by (auto simp: qr_fields_def dest: parse_new_format_qr_wf_fields split: option.splits)

subsection \<open>Printing and reading the pipe form\<close>

definition render_pipe_form :: "fields \<Rightarrow> string" where
  "render_pipe_form d = join_with (CHR ''|'') (map (\<lambda>(k, v). k @ CHR ''='' # v) d)"

definition plain_fields :: "fields \<Rightarrow> bool" where
  "plain_fields d \<longleftrightarrow> wf_fields d \<and>
     (\<forall>(k, v) \<in> set d. CHR ''='' \<notin> set k \<and> CHR ''|'' \<notin> set k \<and> CHR ''|'' \<notin> set v)"

lemma strip_key_value:
  assumes "strip k = k" "k \<noteq> []"
  shows "strip (k @ CHR ''='' # v) \<noteq> []"
proof
  assume empty: "strip (k @ CHR ''='' # v) = []"
  have "\<not> is_space (hd k)" using assms by (metis strip_hd)
  with assms have "lstrip (k @ CHR ''='' # v) = k @ CHR ''='' # v"
    by (intro lstrip_id) simp
  with empty have "rstrip (k @ CHR ''='' # v) = []" by (simp add: strip_def)
  with rstrip_append [of "k @ CHR ''='' # v"] have "\<forall>c \<in> set (k @ CHR ''='' # v). is_space c"
    by auto
  then have "is_space (hd k)" using assms(2) by (cases k) auto
  with \<open>\<not> is_space (hd k)\<close> show False by simp
qed

lemma parse_pairs_render:
  "plain_fields (acc @ d) \<Longrightarrow> parse_pairs (map (\<lambda>(k, v). k @ CHR ''='' # v) d) acc =
     (if acc @ d = [] then None else Some (acc @ d))"
proof (induction d arbitrary: acc)
  case (Cons kv d)
  obtain k v where kv: "kv = (k, v)" by (cases kv)
  from Cons.prems kv have k: "strip k = k" "k \<noteq> []" "CHR ''='' \<notin> set k" "k \<notin> set (dkeys acc)"
    and v: "strip v = v"
    by (auto simp: plain_fields_def wf_fields_def)
  from Cons.prems kv have "plain_fields ((acc @ [(k, v)]) @ d)" by simp
  from Cons.IH [OF this] kv k v show ?case
    by (simp add: strip_key_value)
qed simp

lemma set_render: "d \<noteq> [] \<Longrightarrow> CHR ''='' \<in> set (render_pipe_form d)"
  unfolding render_pipe_form_def
  by (cases d rule: list.exhaust [case_names Nil Cons], simp, rename_tac kv e)
     (case_tac e; auto split: prod.splits)

lemma bar_in_join: "CHR ''|'' \<in> set (join_with (CHR ''|'') (a # b # ws))"
  by simp

lemma parse_render:
  assumes "plain_fields d" "2 \<le> length d"
  shows "parse_pipe_form (render_pipe_form d) = Some d"
proof -
  let ?ws = "map (\<lambda>(k, v). k @ CHR ''='' # v) d"
  obtain a b e where d: "d = a # b # e"
    using assms(2) by (cases d; cases "tl d") auto
  have "\<forall>w \<in> set ?ws. CHR ''|'' \<notin> set w"
    using assms(1) by (auto simp: plain_fields_def)
  then have split: "split_on (CHR ''|'') (render_pipe_form d) = ?ws"
    unfolding render_pipe_form_def by (intro split_join) (simp_all add: d)
  have "CHR ''|'' \<in> set (render_pipe_form d)"
    unfolding render_pipe_form_def d by simp
  moreover have "CHR ''='' \<in> set (render_pipe_form d)"
    by (intro set_render) (simp add: d)
  ultimately show ?thesis
    using parse_pairs_render [of "[]" d] assms(1) unfolding parse_pipe_form_def split
    by (simp add: d del: parse_pairs.simps)
qed

subsection \<open>The canonical key is injective\<close>

definition enc_member :: "string \<times> string \<Rightarrow> string" where
  "enc_member kv = json_text (fst kv) @ '':'' @ json_text (snd kv)"

lemma dumps_fields:
  "dumps (fields_value d) = ''{'' @ comma_sep '','' (map enc_member (sort_key fst d)) @ ''}''"
proof -
  have "sort_key fst (map (\<lambda>kv. (fst kv, enc_member kv)) d)
      = map (\<lambda>kv. (fst kv, enc_member kv)) (sort_key fst d)"
    by (rule sort_key_map) simp
  then show ?thesis
    by (simp add: fields_value_def comp_def case_prod_unfold enc_member_def [abs_def])
qed

lemma enc_member_append_inject:
  "enc_member x @ a = enc_member y @ b \<Longrightarrow> x = y \<and> a = b"
proof -
  assume eq: "enc_member x @ a = enc_member y @ b"
  then have "fst x = fst y" and
    rest: "'':'' @ json_text (snd x) @ a = '':'' @ json_text (snd y) @ b"
    using json_text_append_inject [of "fst x" "'':'' @ json_text (snd x) @ a"]
    by (auto simp: enc_member_def)
  from rest have "snd x = snd y \<and> a = b"
    by (intro json_text_append_inject) simp
  with \<open>fst x = fst y\<close> show ?thesis by (simp add: prod_eq_iff)
qed

lemma comma_sep_Cons: "comma_sep sep (w # ws) = (if ws = [] then w else w @ sep @ comma_sep sep ws)"
  by (cases ws) auto

lemma enc_member_ne: "enc_member x \<noteq> []" "hd (enc_member x) \<noteq> CHR ''}''"
  by (auto simp: enc_member_def json_text_def)

lemma members_inject:
  "comma_sep '','' (map enc_member xs) @ ''}'' = comma_sep '','' (map enc_member ys) @ ''}'' \<Longrightarrow> xs = ys"
proof (induction xs arbitrary: ys)
  case Nil
  then show ?case
    using enc_member_ne
    by (cases ys) (auto simp: comma_sep_Cons Cons_eq_append_conv split: if_splits)
next
  case (Cons x xs)
  obtain y ys' where ys: "ys = y # ys'"
    using Cons.prems enc_member_ne
    by (cases ys) (auto simp: comma_sep_Cons append_eq_Cons_conv split: if_splits)
  let ?rest = "\<lambda>zs. if zs = [] then ''}'' else '','' @ comma_sep '','' (map enc_member zs) @ ''}''"
  have "enc_member x @ ?rest xs = enc_member y @ ?rest ys'"
    using Cons.prems by (simp add: ys comma_sep_Cons split: if_splits)
  then have "x = y" and "?rest xs = ?rest ys'"
    using enc_member_append_inject by blast+
  moreover from \<open>?rest xs = ?rest ys'\<close> have "xs = ys'"
    using Cons.IH [of ys'] by (auto split: if_splits)
  ultimately show ?case by (simp add: ys)
qed

lemma dumps_fields_inject:
  assumes "distinct (dkeys d)" "distinct (dkeys e)"
  shows "dumps (fields_value d) = dumps (fields_value e) \<longleftrightarrow> dget d = dget e"
proof
  assume "dumps (fields_value d) = dumps (fields_value e)"
  then have "sort_key fst d = sort_key fst e"
    by (intro members_inject) (simp add: dumps_fields)
  then have "set d = set e" by (metis set_sort)
  with assms show "dget d = dget e" by (simp add: map_of_inject_set)
next
  assume "dget d = dget e"
  from sort_dict_eq [OF assms this] show "dumps (fields_value d) = dumps (fields_value e)"
    by (simp only: dumps_fields)
qed

subsection \<open>Properties\<close>

lemma strip_join_head:
  assumes "c # cs = join_with d ws" "\<not> is_space c"
  shows "\<exists>r. strip (c # cs) = c # r"
proof -
  have "lstrip (c # cs) = c # cs" using assms(2) by (intro lstrip_id) simp
  then have eq: "strip (c # cs) = rstrip (c # cs)" by (simp add: strip_def)
  obtain t where t: "c # cs = rstrip (c # cs) @ t" "\<forall>x \<in> set t. is_space x"
    using rstrip_append by blast
  with assms(2) have "rstrip (c # cs) \<noteq> []" by (metis append_Nil list.set_intros(1))
  with t(1) eq show ?thesis by (metis append_eq_Cons_conv)
qed

lemma render_head:
  assumes "plain_fields ((k, v) # d)"
  shows "\<exists>r. strip (render_pipe_form ((k, v) # d)) = hd k # r"
proof -
  from assms have k: "k \<noteq> []" "strip k = k" by (auto simp: plain_fields_def wf_fields_def)
  then have "\<not> is_space (hd k)" by (metis strip_hd)
  moreover have "\<exists>cs. render_pipe_form ((k, v) # d) = hd k # cs"
    using k(1) by (cases k; cases d) (auto simp: render_pipe_form_def)
  ultimately show ?thesis
    by (metis render_pipe_form_def strip_join_head)
qed

text \<open>
  C27. Whatever a scanned label contains, a dictionary that \<open>parse_new_format_qr\<close> returns has
  pairwise distinct, non-empty keys without surrounding whitespace, and values without
  surrounding whitespace; this holds for the JSON form, for the pipe form and for a JSON form
  that falls back to the pipe form.
\<close>

theorem parse_new_format_qr_wf:
  assumes "parse_new_format_qr C qr_data = Some d"
  shows "distinct (dkeys d) \<and> (\<forall>(k, v) \<in> set d. k \<noteq> [] \<and> strip k = k \<and> strip v = v)"
  using parse_new_format_qr_wf_fields [OF assms] by (simp add: wf_fields_def)

definition no_codecs :: qr_codecs where
  "no_codecs = \<lparr>json_loads = (\<lambda>_. None), b64_utf8 = (\<lambda>_. None)\<rparr>"

theorem parse_new_format_qr_wf_witness:
  "parse_new_format_qr no_codecs ''PHS=2| CLC = A1 |QT=5'' = Some [(''PHS'', ''2''), (''CLC'', ''A1''), (''QT'', ''5'')]
   \<and> distinct (dkeys [(''PHS'', ''2''), (''CLC'', ''A1''), (''QT'', ''5'')])"
proof -
  have e: "parse_new_format_qr no_codecs ''PHS=2| CLC = A1 |QT=5'' = Some [(''PHS'', ''2''), (''CLC'', ''A1''), (''QT'', ''5'')]"
    by (simp add: parse_new_format_qr_def parse_pipe_form_def no_codecs_def split_once_def strip_def
        lstrip_def rstrip_def is_space_def)
  show ?thesis using e parse_new_format_qr_wf [OF e] by simp
qed

text \<open>
  Printing a field dictionary in the pipe form and reading it back gives the same dictionary,
  in the same order, whatever the JSON decoder does: for at least two fields, with clean keys
  and values that contain no separator, and a first key that does not open a JSON object.
\<close>

theorem pipe_form_round_trip:
  assumes "plain_fields d" "2 \<le> length d" "hd (fst (hd d)) \<noteq> CHR ''{''"
  shows "parse_new_format_qr C (render_pipe_form d) = Some d"
proof -
  obtain k v e where d: "d = (k, v) # e" using assms(2) by (cases d) auto
  with assms(1) obtain r where "strip (render_pipe_form d) = hd k # r" using render_head by blast
  with assms(3) d have "\<not> prefix ''{'' (strip (render_pipe_form d))" by simp
  with parse_render [OF assms(1,2)] show ?thesis by (simp add: parse_new_format_qr_def)
qed

theorem pipe_form_round_trip_witness:
  "parse_new_format_qr no_codecs (render_pipe_form [(''PHS'', ''2''), (''CLC'', ''A=1'')])
     = Some [(''PHS'', ''2''), (''CLC'', ''A=1'')]"
  by (rule pipe_form_round_trip)
     (simp_all add: plain_fields_def wf_fields_def strip_def lstrip_def rstrip_def is_space_def)

text \<open>
  C26. The key under which completed labels are remembered identifies labels exactly: two raw
  inputs get the same key if and only if they normalise to labels with the same fields (in any
  order), or neither normalises to a field dictionary and the normalised texts are equal.
\<close>

theorem canonical_key_identifies:
  "canonical_master_label_key C a = canonical_master_label_key C b \<longleftrightarrow>
     (let na = normalize_master_label_input C a; nb = normalize_master_label_input C b;
          fa = qr_fields C na; fb = qr_fields C nb
      in if fa \<noteq> [] \<and> fb \<noteq> [] then dget fa = dget fb else fa = [] \<and> fb = [] \<and> na = nb)"
proof -
  have d: "distinct (dkeys (qr_fields C x))" for x
    using qr_fields_wf [of C x] by (simp add: wf_fields_def)
  show ?thesis
    using dumps_fields_inject [OF d d] by (auto simp: canonical_master_label_key_def Let_def)
qed

text \<open>
  A quantity read from a label without a default is the integer of its first non-empty
  quantity field, and it is positive; a missing, malformed, zero or negative quantity gives
  none.
\<close>

theorem parse_positive_quantity_iff:
  "parse_positive_quantity d None = Some n \<longleftrightarrow>
     0 < n \<and> int_of_text (raw_quantity d) = Some n"
  by (auto simp: parse_positive_quantity_def int_of_text_def Let_def split: option.splits if_splits)

end
