(* ===== verification/Tray_State.thy ===== *)
theory Tray_State
  imports Label_Qr
begin

text \<open>
  \<open>tray_state.py\<close> and the class \<open>TraySession\<close> of \<open>Container_Audit.py\<close>: the tray an
  operator is filling, the JSON document it is saved in, the checks a saved document passes
  before it is restored, and the two conversions.

  \<^item> \<open>datetime\<close> objects are \<open>dt\<close>: microseconds on the wall clock and the offset from UTC of
    an aware value. The parser and printer of ISO timestamps are the record \<open>iso_lib\<close>
    (\<^term>\<open>None\<close> is \<open>ValueError\<close>).
  \<^item> \<open>tray_clock\<close> holds \<open>validation_now\<close>, the system clock in UTC (what
    \<open>datetime.now(tz)\<close> reads) and the accepted clock skew in microseconds.
  \<^item> File names are judged by the rules of Windows paths, on which the program runs.
  \<^item> \<open>TrayInvalid\<close> is \<open>TrayStateValidationError\<close> with its message, \<open>TrayTypeError\<close> the
    \<open>TypeError\<close> of testing an unhashable value for membership in a set.
  \<^item> The Korean display name of the protected administrator lies outside the alphabet of the
    model and is an argument.
\<close>

datatype tray_error = TrayInvalid string | TrayTypeError

record dt =
  wall :: int
  utc_offset :: "int option"

record iso_lib =
  fromisoformat :: "string \<Rightarrow> dt option"
  isoformat :: "dt \<Rightarrow> string"

record tray_clock =
  validation_now :: dt
  clock_utc :: int
  skew :: int

record tray_session =
  master_label_code :: string
  item_code :: string
  item_name :: string
  item_spec :: string
  scanned_barcodes :: "string list"
  scan_times :: "dt list"
  preflight_scan_receipts :: "(string, string) dict"
  tray_size :: int
  mismatch_error_count :: int
  total_idle_seconds :: pyval
  stopwatch_seconds :: pyval
  start_time :: "dt option"
  has_error_or_reset :: bool
  is_test_tray :: bool
  is_partial_submission :: bool
  is_restored_session :: bool
  canonical_input_tag_qr :: string
  active_label_qr_payload :: string
  active_label_id :: string
  active_label_business_date :: string
  active_label_worker_code :: string
  operation_lease_id :: string

type_synonym json = "(string, pyval) dict"
type_synonym verdict = "tray_error + unit"

subsection \<open>Saving a tray\<close>

definition PROTECTED_ADMIN_OPERATOR_ID :: string where
  "PROTECTED_ADMIN_OPERATOR_ID = ''protected-admin-local''"

definition persistent_operator_name :: "string \<Rightarrow> string \<Rightarrow> string" where
  "persistent_operator_name admin_display candidate =
     (let v = strip candidate in
      if v = PROTECTED_ADMIN_OPERATOR_ID \<or> v = admin_display then admin_display else v)"

definition live_receipts :: "tray_session \<Rightarrow> (string, string) dict" where
  "live_receipts tray =
     filter (\<lambda>(barcode, scan_id). barcode \<in> set (scanned_barcodes tray) \<and> strip scan_id \<noteq> [])
       (preflight_scan_receipts tray)"

definition tray_session_to_state :: "iso_lib \<Rightarrow> string \<Rightarrow> string \<Rightarrow> tray_session \<Rightarrow> json" where
  "tray_session_to_state L admin_display worker_name tray =
     (let master_label = master_label_code tray;
          or_master = (\<lambda>t. if t = [] then master_label else t)
      in [(''worker_name'', VStr (persistent_operator_name admin_display worker_name)),
          (''master_label_code'', VStr master_label),
          (''canonical_input_tag_qr'', VStr (or_master (canonical_input_tag_qr tray))),
          (''active_label_qr_payload'', VStr (or_master (active_label_qr_payload tray))),
          (''active_label_id'', VStr (active_label_id tray)),
          (''active_label_business_date'', VStr (active_label_business_date tray)),
          (''active_label_worker_code'', VStr (active_label_worker_code tray)),
          (''operation_lease_id'', VStr (operation_lease_id tray)),
          (''item_code'', VStr (item_code tray)),
          (''item_name'', VStr (item_name tray)),
          (''item_spec'', VStr (item_spec tray)),
          (''scanned_barcodes'', VList (map VStr (scanned_barcodes tray))),
          (''scan_times'', VList (map (\<lambda>t. VStr (isoformat L t)) (scan_times tray))),
          (''tray_size'', VInt (tray_size tray)),
          (''mismatch_error_count'', VInt (mismatch_error_count tray)),
          (''total_idle_seconds'', total_idle_seconds tray),
          (''stopwatch_seconds'', stopwatch_seconds tray),
          (''start_time'', (case start_time tray of None \<Rightarrow> VNone | Some t \<Rightarrow> VStr (isoformat L t))),
          (''has_error_or_reset'', VBool (has_error_or_reset tray)),
          (''is_test_tray'', VBool (is_test_tray tray)),
          (''is_partial_submission'', VBool (is_partial_submission tray))] @
         (if live_receipts tray = [] then []
          else [(''preflight_scan_receipts'', fields_value (live_receipts tray))]))"

subsection \<open>Elementary requirements\<close>

abbreviation invalid :: "string \<Rightarrow> tray_error" where
  "invalid \<equiv> TrayInvalid"

definition text_at :: "json \<Rightarrow> string \<Rightarrow> string" where
  "text_at d k = (case as_text (vget d k) of None \<Rightarrow> [] | Some s \<Rightarrow> s)"

definition require_string :: "json \<Rightarrow> string \<Rightarrow> bool \<Rightarrow> verdict" where
  "require_string state key allow_empty =
     (case as_text (vget state key) of
        None \<Rightarrow> Inl (invalid (key @ '' must be a string''))
      | Some v \<Rightarrow> ensure (allow_empty \<or> strip v \<noteq> []) (invalid (key @ '' must not be empty'')))"

fun is_number :: "pyval \<Rightarrow> bool" where
  "is_number (VInt n) = True"
| "is_number (VFloat f) = True"
| "is_number v = False"

text \<open>\<open>value < 0\<close>; false for NaN\<close>

fun negative_number :: "pyval \<Rightarrow> bool" where
  "negative_number (VInt n) = (n < 0)"
| "negative_number (VFloat f) = (case f of FFin q r \<Rightarrow> q < 0 | FNegInf \<Rightarrow> True | _ \<Rightarrow> False)"
| "negative_number v = False"

definition require_non_negative_number :: "json \<Rightarrow> string \<Rightarrow> verdict" where
  "require_non_negative_number state key =
     checks [ensure (is_number (vget state key)) (invalid (key @ '' must be a number'')),
             ensure (\<not> negative_number (vget state key)) (invalid (key @ '' must be non-negative''))]"

definition is_count :: "pyval \<Rightarrow> bool" where
  "is_count v \<longleftrightarrow> is_plain_int v \<and> \<not> negative_number v"

definition require_non_negative_int :: "json \<Rightarrow> string \<Rightarrow> verdict" where
  "require_non_negative_int state key =
     ensure (is_count (vget state key)) (invalid (key @ '' must be a non-negative integer''))"

text \<open>\<open>value in {...}\<close> hashes the value first.\<close>

fun hashable :: "pyval \<Rightarrow> bool" where
  "hashable (VList vs) = False"
| "hashable (VDict d) = False"
| "hashable v = True"

definition require_member :: "pyval \<Rightarrow> string list \<Rightarrow> tray_error \<Rightarrow> verdict" where
  "require_member v texts err =
     checks [ensure (hashable v) TrayTypeError, ensure (v \<in> VStr ` set texts) err]"

subsection \<open>Timestamps\<close>

definition has_timezone :: "dt \<Rightarrow> bool" where
  "has_timezone d \<longleftrightarrow> utc_offset d \<noteq> None"

text \<open>Values with equal awareness compare by this number.\<close>

definition dt_key :: "dt \<Rightarrow> int" where
  "dt_key d = wall d - (case utc_offset d of None \<Rightarrow> 0 | Some z \<Rightarrow> z)"

definition parse_iso_datetime :: "iso_lib \<Rightarrow> string \<Rightarrow> string \<Rightarrow> tray_error + dt" where
  "parse_iso_datetime L v key =
     (case fromisoformat L v of
        None \<Rightarrow> Inl (invalid (key @ '' contains an invalid ISO timestamp: '' @ v))
      | Some d \<Rightarrow> Inr d)"

definition require_comparable_datetimes :: "dt \<Rightarrow> dt \<Rightarrow> verdict" where
  "require_comparable_datetimes left right =
     ensure (has_timezone left = has_timezone right)
       (invalid ''tray timestamps must use consistent timezone awareness'')"

text \<open>The limit, as a number comparable with the \<open>dt_key\<close> of the reference.\<close>

definition future_limit_for :: "tray_clock \<Rightarrow> dt \<Rightarrow> int" where
  "future_limit_for K reference =
     (let now = validation_now K in
      (if has_timezone reference \<and> \<not> has_timezone now then clock_utc K
       else if \<not> has_timezone reference \<and> has_timezone now then wall now
       else dt_key now) + skew K)"

definition reject_future_datetime :: "tray_clock \<Rightarrow> dt \<Rightarrow> string \<Rightarrow> verdict" where
  "reject_future_datetime K v key =
     ensure (dt_key v \<le> future_limit_for K v) (invalid (key @ '' must not be in the future''))"

definition check_timestamp :: "iso_lib \<Rightarrow> tray_clock \<Rightarrow> string \<Rightarrow> string \<Rightarrow> verdict" where
  "check_timestamp L K key v =
     rbind (parse_iso_datetime L v key) (\<lambda>d. reject_future_datetime K d key)"

subsection \<open>Names\<close>

definition is_path_sep :: "char \<Rightarrow> bool" where
  "is_path_sep c \<longleftrightarrow> c = CHR ''/'' \<or> c = CHR 0x5C"

text \<open>\<open>Path(name).name\<close> of a name without separators: the part behind a drive, and nothing for \<open>.\<close>\<close>

definition path_name :: "string \<Rightarrow> string" where
  "path_name s =
     (let body = (if length s \<ge> 2 \<and> s ! 1 = CHR '':'' then drop 2 s else s)
      in if body = ''.'' then [] else body)"

definition is_log_name :: "string \<Rightarrow> bool" where
  "is_log_name n \<longleftrightarrow> n = path_name n \<and> list_all (\<lambda>c. \<not> is_path_sep c) n \<and> suffix ''.csv'' (lower n)"

definition is_projection_worker :: "string \<Rightarrow> bool" where
  "is_projection_worker n \<longleftrightarrow> length n \<le> 128 \<and> list_all (\<lambda>c. 32 \<le> ord c) n"

definition lower_hex_of_length :: "nat \<Rightarrow> string \<Rightarrow> bool" where
  "lower_hex_of_length n s \<longleftrightarrow> length s = n \<and> list_all is_lower_hex s"

definition is_parked_source_name :: "string \<Rightarrow> bool" where
  "is_parked_source_name n \<longleftrightarrow> n \<noteq> [] \<and> n = path_name n \<and> prefix ''parked_'' n \<and>
     suffix ''.json'' (lower n) \<and> \<not> in_text ''..'' n \<and> length n \<le> 240 \<and>
     list_all (\<lambda>c. c \<notin> set (CHR 0x5C # ''/:*?<>|'' @ [CHR 0x22]) \<and> 32 \<le> ord c) n"

fun days_in_month :: "nat \<Rightarrow> nat \<Rightarrow> nat" where
  "days_in_month y m =
     (if m = 2 then (if (y mod 4 = 0 \<and> y mod 100 \<noteq> 0) \<or> y mod 400 = 0 then 29 else 28)
      else if m \<in> {4, 6, 9, 11} then 30 else 31)"

text \<open>\<open>strptime\<close> with \<open>%Y-%m-%d\<close>, and printing the result gives the text back.\<close>

definition is_business_date :: "string \<Rightarrow> bool" where
  "is_business_date s \<longleftrightarrow> length s = 10 \<and> s ! 4 = CHR ''-'' \<and> s ! 7 = CHR ''-'' \<and>
     list_all (\<lambda>i. is_digit (s ! i)) [0, 1, 2, 3, 5, 6, 8, 9] \<and>
     (let num = (\<lambda>is. foldl (\<lambda>n i. 10 * n + nat (digit_value (s ! i))) 0 is);
          y = num [0, 1, 2, 3]; m = num [5, 6]; d = num [8, 9]
      in 1 \<le> y \<and> 1 \<le> m \<and> m \<le> 12 \<and> 1 \<le> d \<and> d \<le> days_in_month y m)"

subsection \<open>The label of the tray\<close>

definition validate_master_label_consistency :: "qr_codecs \<Rightarrow> json \<Rightarrow> int \<Rightarrow> verdict" where
  "validate_master_label_consistency C state capacity =
     (let fs = qr_fields C (text_at state ''master_label_code'') in
      if fs = [] then Inr ()
      else
        let parsed_item_code = inspection_master_item_code fs;
            state_item_code = strip (str_or_empty (vget state ''item_code''))
        in checks
          [ensure (parsed_item_code = [] \<or> state_item_code = [] \<or> parsed_item_code = state_item_code)
             (invalid ''master_label_code CLC must match item_code''),
           ensure (case parse_positive_quantity fs None of None \<Rightarrow> True | Some n \<Rightarrow> n = capacity)
             (invalid ''master_label_code QT must match tray_size'')])"

definition phs_required :: "string list" where
  "phs_required = [''PHS'', ''SRC'', ''ITG'', ''CLC'', ''LBL'', ''HSH'']"

text \<open>\<open>str(fields.get(key) or "").strip()\<close>\<close>

definition stripped_field :: "fields \<Rightarrow> string \<Rightarrow> string" where
  "stripped_field fs key = strip (field fs key)"

definition phs_label_complete :: "fields \<Rightarrow> bool" where
  "phs_label_complete fs \<longleftrightarrow> set (dkeys fs) = set phs_required \<and>
     list_all (\<lambda>key. stripped_field fs key \<noteq> []) phs_required \<and>
     stripped_field fs ''PHS'' = ''2'' \<and>
     upper (stripped_field fs ''SRC'') = ''KMTECH_INPUT_TAG'' \<and>
     length (stripped_field fs ''HSH'') = 16 \<and>
     list_all is_lower_hex (lower (stripped_field fs ''HSH''))"

definition phs_label_keys :: "string list" where
  "phs_label_keys = [''canonical_input_tag_qr'', ''active_label_qr_payload'', ''active_label_id'',
     ''active_label_business_date'', ''active_label_worker_code'', ''operation_lease_id'']"

text \<open>The value of a label key with its default: the master label for the two codes.\<close>

definition phs_label_value :: "json \<Rightarrow> string \<Rightarrow> pyval" where
  "phs_label_value state key = vget_default state key
     (if key \<in> {''canonical_input_tag_qr'', ''active_label_qr_payload''}
      then VStr (str_or_empty (vget state ''master_label_code'')) else VStr [])"

definition phs_text :: "json \<Rightarrow> string \<Rightarrow> string" where
  "phs_text state key = (case as_text (phs_label_value state key) of None \<Rightarrow> [] | Some s \<Rightarrow> s)"

definition phs_anchor_ok :: "qr_codecs \<Rightarrow> string \<Rightarrow> string \<Rightarrow> string \<Rightarrow> bool" where
  "phs_anchor_ok C master canonical active \<longleftrightarrow>
     (let mf = qr_fields C master; cf = qr_fields C canonical; af = qr_fields C active in
      canonical = master \<and> phs_label_complete cf \<and> phs_label_complete af \<and>
      stripped_field cf ''ITG'' = stripped_field mf ''ITG'' \<and>
      stripped_field cf ''CLC'' = stripped_field mf ''CLC'' \<and>
      stripped_field af ''ITG'' = stripped_field cf ''ITG'' \<and>
      stripped_field af ''CLC'' = stripped_field cf ''CLC'')"

definition validate_phs_label_state :: "qr_codecs \<Rightarrow> json \<Rightarrow> verdict" where
  "validate_phs_label_state C state =
     (let master = str_or_empty (vget state ''master_label_code'');
          canonical = phs_text state ''canonical_input_tag_qr'';
          active = phs_text state ''active_label_qr_payload'';
          label_id = phs_text state ''active_label_id'';
          business_date = phs_text state ''active_label_business_date''
      in checks
        [checks (map (\<lambda>key. ensure (is_VStr (phs_label_value state key))
           (invalid (key @ '' must be a string''))) phs_label_keys),
         if stripped_field (qr_fields C master) ''PHS'' \<noteq> ''2''
         then ensure (phs_text state ''operation_lease_id'' = [])
           (invalid ''operation_lease_id is only valid for a PHS2 tray'')
         else checks
           [ensure (phs_anchor_ok C master canonical active)
              (invalid ''canonical and active PHS2 labels must retain the master ITG/item anchor''),
            ensure (label_id = [] \<or> label_id = stripped_field (qr_fields C active) ''LBL'')
              (invalid ''active_label_id must match active_label_qr_payload LBL''),
            ensure (business_date = [] \<or> is_business_date business_date)
              (invalid ''active_label_business_date must be YYYY-MM-DD'')]])"

subsection \<open>Pending work recorded with the tray\<close>

definition review_outcomes :: "string list" where
  "review_outcomes = [''OPERATOR_REVIEW'', ''RETRY_WAIT'', ''LOCAL_EVENT_RETRY'']"

text \<open>A check of an optional JSON object under \<open>key\<close>.\<close>

definition on_pending :: "json \<Rightarrow> string \<Rightarrow> (json \<Rightarrow> verdict) \<Rightarrow> verdict" where
  "on_pending state key check =
     (if vget state key = VNone then Inr ()
      else case as_dict (vget state key) of
        None \<Rightarrow> Inl (invalid (key @ '' must be a JSON object''))
      | Some payload \<Rightarrow>
          rbind (ensure (eq_int (vget payload ''schema_version'') 1)
            (invalid (key @ '' has an unsupported schema version''))) (\<lambda>_. check payload))"

definition validate_pending_operator_review :: "json \<Rightarrow> string list \<Rightarrow> int \<Rightarrow> verdict" where
  "validate_pending_operator_review state barcodes capacity =
     on_pending state ''pending_operator_review'' (\<lambda>payload.
       let err = (\<lambda>t. invalid (''pending_operator_review'' @ t));
           count = (\<lambda>key. case as_int (vget payload key) of None \<Rightarrow> 0 | Some n \<Rightarrow> n)
       in checks
         ([require_member (vget payload ''outcome'') review_outcomes (err '' outcome is unsupported'')] @
          map (\<lambda>key. ensure (is_VStr (vget payload key)) (err (CHR ''.'' # key @ '' must be a string'')))
            [''item_name'', ''master_label'', ''message'', ''receipt_id'', ''error_code''] @
          map (\<lambda>key. ensure (is_count (vget payload key))
            (err (CHR ''.'' # key @ '' must be a non-negative integer''))) [''scan_count'', ''target_count''] @
          [ensure (count ''scan_count'' \<le> count ''target_count'') (err '' scan_count exceeds target_count''),
           ensure (count ''scan_count'' = int (length barcodes)) (err '' scan_count does not match tray state''),
           ensure (count ''target_count'' = capacity) (err '' target_count does not match tray_size''),
           ensure (vget payload ''master_label'' = vget state ''master_label_code'')
             (err '' master_label does not match tray state''),
           ensure (vget payload ''item_name'' = vget state ''item_name'')
             (err '' item_name does not match tray state''),
           ensure (strip (text_at payload ''message'') \<noteq> []) (err ''.message must not be empty'')]))"

definition require_texts :: "string \<Rightarrow> json \<Rightarrow> string list \<Rightarrow> verdict" where
  "require_texts key_root payload keys =
     checks (map (\<lambda>key. ensure (is_VStr (vget payload key) \<and> strip (text_at payload key) \<noteq> [])
       (invalid (key_root @ CHR ''.'' # key @ '' must be non-empty text''))) keys)"

text \<open>The projection part every pending event has: log name, worker name, time of observation.\<close>

definition check_projection :: "iso_lib \<Rightarrow> tray_clock \<Rightarrow> string \<Rightarrow> json \<Rightarrow> verdict" where
  "check_projection L K key_root payload =
     checks
       [ensure (is_log_name (strip (text_at payload ''projection_log_name'')))
          (invalid (key_root @ ''.projection_log_name is invalid'')),
        ensure (is_projection_worker (strip (text_at payload ''projection_worker_name'')))
          (invalid (key_root @ ''.projection_worker_name is invalid'')),
        check_timestamp L K (key_root @ ''.observed_at'') (text_at payload ''observed_at'')]"

definition check_event_detail :: "string \<Rightarrow> json \<Rightarrow> verdict" where
  "check_event_detail key_root payload =
     (case as_dict (vget payload ''event_detail'') of
        None \<Rightarrow> Inl (invalid (key_root @ ''.event_detail must be a JSON object''))
      | Some detail \<Rightarrow> checks
          [ensure (length detail \<le> 128) (invalid (key_root @ ''.event_detail is too large'')),
           ensure (nan_free (VDict detail)) (invalid (key_root @ ''.event_detail is not canonical JSON''))])"

definition validate_pending_completion_event :: "iso_lib \<Rightarrow> tray_clock \<Rightarrow> json \<Rightarrow> verdict" where
  "validate_pending_completion_event L K state =
     on_pending state ''pending_completion_event'' (\<lambda>payload.
       let key_root = ''pending_completion_event'';
           err = (\<lambda>t. invalid (key_root @ t));
           intent_id = strip (text_at payload ''transfer_intent_id'');
           detail = (case as_dict (vget payload ''transfer_detail'') of None \<Rightarrow> [] | Some d \<Rightarrow> d)
       in checks
         ([require_texts key_root payload [''event_type'', ''idempotency_key'', ''observed_at'',
             ''projection_log_name'', ''projection_worker_name'', ''transfer_intent_id''],
           ensure (text_at payload ''event_type'' = ''TRAY_COMPLETE'') (err ''.event_type must be TRAY_COMPLETE''),
           ensure (strip (text_at payload ''idempotency_key'') = ''tray-complete:'' @ intent_id)
             (err ''.idempotency_key does not match transfer intent''),
           check_projection L K key_root payload] @
          map (\<lambda>key. ensure (is_VBool (vget payload key)) (err (CHR ''.'' # key @ '' must be a boolean'')))
            [''was_restored_session'', ''log_may_have_been_attempted''] @
          [ensure (is_VDict (vget payload ''transfer_detail'')) (err ''.transfer_detail must be a JSON object''),
           ensure (length detail \<le> 64) (err ''.transfer_detail is too large''),
           ensure (detail = [] \<or> strip (str_or_empty (vget detail ''transfer_seal_intent_id'')) = intent_id)
             (err ''.transfer_detail intent mismatch''),
           ensure (vget payload ''log_may_have_been_attempted'' = VBool True \<longrightarrow> detail \<noteq> [])
             (err ''.transfer_detail is required after log admission''),
           (case as_dict (vget state ''pending_operator_review'') of
              None \<Rightarrow> Inr ()
            | Some review \<Rightarrow> require_member (vget review ''outcome'') review_outcomes
                (err '' conflicts with non-retryable completion state''))]))"

definition activation_event_types :: "string list" where
  "activation_event_types = [''MASTER_LABEL_SCANNED_NEW'', ''MASTER_LABEL_SCANNED_OLD'']"

text \<open>\<open>text[len(p):] if text.startswith(p) else ""\<close>\<close>

definition behind_prefix :: "string \<Rightarrow> string \<Rightarrow> string" where
  "behind_prefix p s = (if prefix p s then drop (length p) s else [])"

definition validate_pending_activation_event :: "iso_lib \<Rightarrow> tray_clock \<Rightarrow> json \<Rightarrow> verdict" where
  "validate_pending_activation_event L K state =
     on_pending state ''pending_activation_event'' (\<lambda>payload.
       let key_root = ''pending_activation_event'';
           err = (\<lambda>t. invalid (key_root @ t))
       in checks
         [require_texts key_root payload [''event_type'', ''idempotency_key'', ''observed_at'',
            ''projection_log_name'', ''projection_worker_name'', ''master_label_code''],
          ensure (strip (text_at payload ''event_type'') \<in> set activation_event_types)
            (err ''.event_type is unsupported''),
          ensure (lower_hex_of_length 32
              (behind_prefix ''tray-activation:'' (strip (text_at payload ''idempotency_key''))))
            (err ''.idempotency_key is invalid''),
          ensure (vget payload ''master_label_code'' = vget state ''master_label_code'')
            (err ''.master_label_code does not match tray state''),
          check_projection L K key_root payload,
          check_event_detail key_root payload])"

definition parked_restore_event_types :: "string list" where
  "parked_restore_event_types = [''TRAY_DISCARDED_BY_OPERATOR'', ''TRAY_RESTORED_FROM_PARK'']"

definition validate_parked_restore_projection_event ::
  "iso_lib \<Rightarrow> tray_clock \<Rightarrow> string \<Rightarrow> string \<Rightarrow> pyval \<Rightarrow> tray_error + string" where
  "validate_parked_restore_projection_event L K operation_id restored_master v =
     (let key_root = ''pending_parked_restore.projection_events'';
          err = (\<lambda>t. invalid (key_root @ t))
      in case as_dict v of
        None \<Rightarrow> Inl (err '' entries must be JSON objects'')
      | Some payload \<Rightarrow>
          let event_type = strip (text_at payload ''event_type'');
              log_name = strip (text_at payload ''projection_log_name'');
              worker = strip (text_at payload ''projection_worker_name'')
          in rbind (checks
            (map (\<lambda>key. ensure (is_VStr (vget payload key)) (err (CHR ''.'' # key @ '' must be text'')))
               [''event_type'', ''canonical_event_name'', ''idempotency_key'', ''observed_at'',
                ''projection_log_name'', ''projection_worker_name''] @
             [ensure (event_type \<in> set parked_restore_event_types) (err ''.event_type is unsupported''),
              ensure (text_at payload ''idempotency_key'' = operation_id @ CHR '':'' #
                  (if event_type = ''TRAY_DISCARDED_BY_OPERATOR'' then ''discard'' else ''restore''))
                (err ''.idempotency_key is invalid''),
              if event_type = ''TRAY_RESTORED_FROM_PARK''
              then ensure (strip (text_at payload ''canonical_event_name'') = ''TRAY_RESTORED'')
                (err ''.canonical_event_name is invalid'')
              else ensure (strip (text_at payload ''canonical_event_name'') = [])
                (err ''.canonical_event_name must be empty''),
              ensure (log_name \<noteq> [] \<and> is_log_name log_name) (err ''.projection_log_name is invalid''),
              ensure (worker \<noteq> [] \<and> is_projection_worker worker) (err ''.projection_worker_name is invalid''),
              check_timestamp L K (key_root @ ''.observed_at'') (text_at payload ''observed_at''),
              check_event_detail key_root payload,
              ensure (event_type = ''TRAY_RESTORED_FROM_PARK'' \<longrightarrow>
                  (case as_dict (vget payload ''event_detail'') of
                     None \<Rightarrow> False
                   | Some detail \<Rightarrow> str_or_empty (vget detail ''master_label_code'') = restored_master))
                (err ''.event_detail does not match restored tray'')]))
            (\<lambda>_. Inr event_type))"

definition validate_pending_parked_restore :: "iso_lib \<Rightarrow> tray_clock \<Rightarrow> json \<Rightarrow> verdict" where
  "validate_pending_parked_restore L K state =
     on_pending state ''pending_parked_restore'' (\<lambda>payload.
       let err = (\<lambda>t. invalid (''pending_parked_restore'' @ t));
           operation_id = text_at payload ''operation_id'';
           restored_master = str_or_empty (vget payload ''restored_master_label_code'');
           events = (case as_list (vget payload ''projection_events'') of None \<Rightarrow> [] | Some vs \<Rightarrow> vs)
       in checks
         [ensure (is_VStr (vget payload ''operation_id'') \<and> prefix ''parked-restore:'' operation_id \<and>
             lower_hex_of_length 32 (behind_prefix ''parked-restore:'' operation_id))
            (err ''.operation_id is invalid''),
          ensure (is_VStr (vget payload ''parked_source_name'') \<and>
             is_parked_source_name (text_at payload ''parked_source_name''))
            (err ''.parked_source_name is invalid''),
          ensure (is_VStr (vget payload ''parked_source_sha256'') \<and>
             lower_hex_of_length 64 (text_at payload ''parked_source_sha256''))
            (err ''.parked_source_sha256 is invalid''),
          ensure (restored_master \<noteq> [] \<and> restored_master = str_or_empty (vget state ''master_label_code''))
            (err ''.restored_master_label_code does not match tray state''),
          ensure (length events = 1 \<or> length events = 2) (err ''.projection_events is invalid''),
          rbind (rmap (validate_parked_restore_projection_event L K operation_id restored_master) events)
            (\<lambda>types. ensure (types = (if length types = 1 then [''TRAY_RESTORED_FROM_PARK'']
                 else [''TRAY_DISCARDED_BY_OPERATOR'', ''TRAY_RESTORED_FROM_PARK'']))
               (err ''.projection_events order is invalid''))])"

subsection \<open>The whole document\<close>

text \<open>The loop over the parsed scan times with its \<open>previous_scan_time\<close>.\<close>

fun check_scan_times :: "tray_clock \<Rightarrow> dt option \<Rightarrow> dt list \<Rightarrow> verdict" where
  "check_scan_times K previous [] = Inr ()"
| "check_scan_times K previous (t # ts) =
     checks
       [reject_future_datetime K t ''scan_times'',
        (case previous of
           None \<Rightarrow> Inr ()
         | Some p \<Rightarrow> checks
             [require_comparable_datetimes p t,
              ensure (dt_key p \<le> dt_key t) (invalid ''scan_times must be in chronological order'')]),
        check_scan_times K (Some t) ts]"

fun check_not_before :: "dt \<Rightarrow> dt list \<Rightarrow> verdict" where
  "check_not_before start [] = Inr ()"
| "check_not_before start (t # ts) =
     checks
       [require_comparable_datetimes start t,
        ensure (dt_key start \<le> dt_key t) (invalid ''scan_times must not be before start_time''),
        check_not_before start ts]"

definition receipt_ok :: "string list \<Rightarrow> string \<times> pyval \<Rightarrow> bool" where
  "receipt_ok barcodes r \<longleftrightarrow> fst r \<in> set barcodes \<and>
     (case as_text (snd r) of None \<Rightarrow> False | Some scan_id \<Rightarrow> strip scan_id \<noteq> [])"

definition check_receipts :: "json \<Rightarrow> string list \<Rightarrow> verdict" where
  "check_receipts state barcodes =
     (case as_dict (vget_default state ''preflight_scan_receipts'' (VDict [])) of
        None \<Rightarrow> Inl (invalid ''preflight_scan_receipts must map scanned barcodes to non-empty scan ids'')
      | Some receipts \<Rightarrow> checks
          [ensure (list_all (receipt_ok barcodes) receipts)
             (invalid ''preflight_scan_receipts must map scanned barcodes to non-empty scan ids''),
           ensure (distinct (map snd receipts)) (invalid ''preflight_scan_receipts scan ids must be unique'')])"

definition check_start_time :: "iso_lib \<Rightarrow> tray_clock \<Rightarrow> json \<Rightarrow> dt list \<Rightarrow> verdict" where
  "check_start_time L K state stamps =
     (if vget state ''start_time'' = VNone then Inr ()
      else case as_text (vget state ''start_time'') of
        None \<Rightarrow> Inl (invalid ''start_time must be an ISO timestamp string or null'')
      | Some s \<Rightarrow> rbind (parse_iso_datetime L s ''start_time'') (\<lambda>start. checks
          [reject_future_datetime K start ''start_time'', check_not_before start stamps]))"

text \<open>\<open>value is a list of texts\<close>, as its elements\<close>

definition texts_at :: "json \<Rightarrow> string \<Rightarrow> tray_error \<Rightarrow> tray_error + string list" where
  "texts_at state key err =
     (case as_list (vget state key) of
        None \<Rightarrow> Inl err
      | Some vs \<Rightarrow> (case as_texts vs of None \<Rightarrow> Inl err | Some ss \<Rightarrow> Inr ss))"

definition tray_size_at :: "int \<Rightarrow> json \<Rightarrow> tray_error + int" where
  "tray_size_at default_tray_size state =
     (case vget_default state ''tray_size'' (VInt default_tray_size) of
        VInt n \<Rightarrow> (if 0 < n then Inr n else Inl (invalid ''tray_size must be a positive integer''))
      | _ \<Rightarrow> Inl (invalid ''tray_size must be a positive integer''))"

definition check_tray_scans :: "iso_lib \<Rightarrow> tray_clock \<Rightarrow> json \<Rightarrow> int \<Rightarrow> tray_error + string list" where
  "check_tray_scans L K state capacity =
     rbind (texts_at state ''scanned_barcodes'' (invalid ''scanned_barcodes must be a list of strings'')) (\<lambda>barcodes.
     rbind (ensure (distinct barcodes) (invalid ''scanned_barcodes must not contain duplicates'')) (\<lambda>_.
     rbind (check_receipts state barcodes) (\<lambda>_.
     rbind (texts_at state ''scan_times'' (invalid ''scan_times must be a list of ISO timestamp strings'')) (\<lambda>stamps.
     rbind (ensure (length stamps = length barcodes)
       (invalid ''scan_times length must match scanned_barcodes length'')) (\<lambda>_.
     rbind (ensure (int (length barcodes) \<le> capacity)
       (invalid ''scanned_barcodes length must not exceed tray_size'')) (\<lambda>_.
     rbind (rmap (\<lambda>t. parse_iso_datetime L t ''scan_times'') stamps) (\<lambda>parsed.
     rbind (check_scan_times K None parsed) (\<lambda>_.
     rbind (check_start_time L K state parsed) (\<lambda>_. Inr barcodes)))))))))"

definition validate_tray_state :: "qr_codecs \<Rightarrow> iso_lib \<Rightarrow> tray_clock \<Rightarrow> int \<Rightarrow> pyval \<Rightarrow> tray_error + json" where
  "validate_tray_state C L K default_tray_size v =
     (case as_dict v of
        None \<Rightarrow> Inl (invalid ''tray state must be a JSON object'')
      | Some state \<Rightarrow>
          rbind (checks
            [require_string state ''worker_name'' False,
             require_string state ''master_label_code'' False,
             require_string state ''item_code'' False,
             require_string state ''item_name'' True,
             require_string state ''item_spec'' True,
             require_non_negative_int state ''mismatch_error_count'',
             require_non_negative_number state ''total_idle_seconds'',
             require_non_negative_number state ''stopwatch_seconds'']) (\<lambda>_.
          rbind (tray_size_at default_tray_size state) (\<lambda>capacity.
          rbind (check_tray_scans L K state capacity) (\<lambda>barcodes.
          rbind (checks
            (map (\<lambda>key. ensure (is_VBool (vget_default state key (VBool False)))
               (invalid (key @ '' must be a boolean'')))
               [''has_error_or_reset'', ''is_test_tray'', ''is_partial_submission''] @
             [validate_master_label_consistency C state capacity,
              validate_phs_label_state C state,
              validate_pending_operator_review state barcodes capacity,
              validate_pending_completion_event L K state,
              validate_pending_activation_event L K state,
              validate_pending_parked_restore L K state])) (\<lambda>_. Inr state)))))"

subsection \<open>Restoring a tray\<close>

text \<open>
  \<open>None\<close> stands for a document in which a key is missing or has another type than the session
  expects; a validated document is never of this kind.
\<close>

fun as_bool :: "pyval \<Rightarrow> bool option" where
  "as_bool (VBool b) = Some b"
| "as_bool v = None"

fun as_plain_int :: "pyval \<Rightarrow> int option" where
  "as_plain_int (VInt n) = Some n"
| "as_plain_int v = None"

definition texts_of :: "pyval \<Rightarrow> string list option" where
  "texts_of v = (case as_list v of None \<Rightarrow> None | Some vs \<Rightarrow> as_texts vs)"

definition fields_of :: "pyval \<Rightarrow> fields option" where
  "fields_of v = (case as_dict v of None \<Rightarrow> None
     | Some d \<Rightarrow> map_option (zip (dkeys d)) (as_texts (map snd d)))"

definition parse_times :: "iso_lib \<Rightarrow> string list \<Rightarrow> dt list option" where
  "parse_times L ts = those (map (fromisoformat L) ts)"

definition restored_start :: "iso_lib \<Rightarrow> json \<Rightarrow> dt option option" where
  "restored_start L state =
     (if truthy (vget state ''start_time'')
      then (case as_text (vget state ''start_time'') of
          None \<Rightarrow> None
        | Some s \<Rightarrow> map_option Some (fromisoformat L s))
      else Some None)"

definition tray_session_from_state ::
  "qr_codecs \<Rightarrow> iso_lib \<Rightarrow> int \<Rightarrow> json \<Rightarrow> tray_session option" where
  "tray_session_from_state C L default_tray_size state =
     (case (as_text (vget state ''master_label_code''),
            as_text (vget_default state ''active_label_qr_payload'' (vget state ''master_label_code''))) of
        (Some master, Some active) \<Rightarrow>
          (case (map (\<lambda>(key, d). as_text (vget_default state key d))
                   [(''canonical_input_tag_qr'', VStr master), (''active_label_id'', VStr []),
                    (''active_label_business_date'', VStr []), (''active_label_worker_code'', VStr []),
                    (''operation_lease_id'', VStr []), (''item_code'', VNone), (''item_name'', VNone),
                    (''item_spec'', VNone)],
                 texts_of (vget state ''scanned_barcodes''),
                 Option.bind (texts_of (vget state ''scan_times'')) (parse_times L),
                 fields_of (vget_default state ''preflight_scan_receipts'' (VDict [])),
                 map (\<lambda>(key, d). as_plain_int (vget_default state key d))
                   [(''tray_size'', VInt default_tray_size), (''mismatch_error_count'', VNone)],
                 restored_start L state,
                 map (\<lambda>key. as_bool (vget_default state key (VBool False)))
                   [''has_error_or_reset'', ''is_test_tray'', ''is_partial_submission'']) of
             ([Some canonical, Some label_id, Some business_date, Some worker_code, Some lease, Some item,
               Some name, Some spec], Some barcodes, Some stamps, Some receipts, [Some capacity, Some mismatches],
              Some start, [Some err, Some test, Some partial]) \<Rightarrow>
               Some \<lparr>master_label_code = master, item_code = item, item_name = name, item_spec = spec,
                 scanned_barcodes = barcodes, scan_times = stamps, preflight_scan_receipts = receipts,
                 tray_size = capacity, mismatch_error_count = mismatches,
                 total_idle_seconds = vget state ''total_idle_seconds'',
                 stopwatch_seconds = vget state ''stopwatch_seconds'', start_time = start,
                 has_error_or_reset = err, is_test_tray = test, is_partial_submission = partial,
                 is_restored_session = True, canonical_input_tag_qr = canonical,
                 active_label_qr_payload = active,
                 active_label_id = (if label_id \<noteq> [] then label_id
                   else stripped_field (qr_fields C active) ''LBL''),
                 active_label_business_date = business_date, active_label_worker_code = worker_code,
                 operation_lease_id = lease\<rparr>
           | _ \<Rightarrow> None)
      | _ \<Rightarrow> None)"

text \<open>
  \<open>quarantine_tray_state_file\<close>: the first free name of the sequence \<open>.bad-T\<close>,
  \<open>.bad-T-1\<close>, \<open>.bad-T-2\<close>, \dots; one of them is free because a directory is finite.
\<close>

definition quarantine_candidate :: "string \<Rightarrow> string \<Rightarrow> nat \<Rightarrow> string" where
  "quarantine_candidate source timestamp n =
     source @ ''.bad-'' @ timestamp @ (if n = 0 then [] else CHR ''-'' # show_nat n)"

fun first_free :: "(nat \<Rightarrow> string) \<Rightarrow> string list \<Rightarrow> nat \<Rightarrow> nat \<Rightarrow> string option" where
  "first_free name existing n 0 = None"
| "first_free name existing n (Suc fuel) =
     (if name n \<in> set existing then first_free name existing (n + 1) fuel else Some (name n))"

definition quarantine_target :: "string list \<Rightarrow> string \<Rightarrow> string \<Rightarrow> string option" where
  "quarantine_target existing source timestamp =
     first_free (quarantine_candidate source timestamp) existing 0 (length existing + 1)"

text \<open>
  A directory maps names to contents. \<open>move\<close> is the PIN move journal of the caller; \<open>Inl\<close> is
  \<open>OSError\<close>.
\<close>

type_synonym 'c dir = "(string, 'c) dict"

definition quarantine_tray_state_file :: "bool \<Rightarrow> string option \<Rightarrow>
    (string \<Rightarrow> string \<Rightarrow> string \<Rightarrow> 'c dir \<Rightarrow> (unit + string) \<times> 'c dir) option \<Rightarrow>
    string \<Rightarrow> string \<Rightarrow> 'c dir \<Rightarrow> (unit + string) \<times> 'c dir" where
  "quarantine_tray_state_file io expected_sha256 move source timestamp files =
     (case quarantine_target (dkeys files) source timestamp of
        None \<Rightarrow> (Inl (), files)
      | Some target \<Rightarrow>
          (case expected_sha256 of
             Some expected \<Rightarrow>
               (case move of None \<Rightarrow> (Inl (), files) | Some mv \<Rightarrow> mv source target expected files)
           | None \<Rightarrow>
               (case dget files source of
                  Some content \<Rightarrow> if io then (Inr target, dset target content (dremove source files))
                    else (Inl (), files)
                | None \<Rightarrow> (Inl (), files))))"

subsection \<open>What the checks establish\<close>

definition same_zone :: "dt list \<Rightarrow> bool" where
  "same_zone ts \<longleftrightarrow> (\<forall>t \<in> set ts. \<forall>u \<in> set ts. has_timezone t = has_timezone u)"

definition not_future :: "tray_clock \<Rightarrow> dt list \<Rightarrow> bool" where
  "not_future K ts \<longleftrightarrow> (\<forall>t \<in> set ts. dt_key t \<le> future_limit_for K t)"

definition tray_timeline :: "tray_session \<Rightarrow> dt list" where
  "tray_timeline t = (case start_time t of None \<Rightarrow> [] | Some s \<Rightarrow> [s]) @ scan_times t"

text \<open>The invariant of a tray session.\<close>

definition tray_ok :: "tray_clock \<Rightarrow> tray_session \<Rightarrow> bool" where
  "tray_ok K t \<longleftrightarrow>
     strip (master_label_code t) \<noteq> [] \<and> strip (item_code t) \<noteq> [] \<and>
     distinct (scanned_barcodes t) \<and> length (scan_times t) = length (scanned_barcodes t) \<and>
     int (length (scanned_barcodes t)) \<le> tray_size t \<and> 0 < tray_size t \<and> 0 \<le> mismatch_error_count t \<and>
     sorted (map dt_key (tray_timeline t)) \<and> same_zone (tray_timeline t) \<and> not_future K (tray_timeline t) \<and>
     (\<forall>(b, i) \<in> set (preflight_scan_receipts t). b \<in> set (scanned_barcodes t) \<and> strip i \<noteq> []) \<and>
     distinct (map snd (preflight_scan_receipts t)) \<and>
     is_number (total_idle_seconds t) \<and> \<not> negative_number (total_idle_seconds t) \<and>
     is_number (stopwatch_seconds t) \<and> \<not> negative_number (stopwatch_seconds t)"

lemma is_VStr_iff: "is_VStr v \<longleftrightarrow> (\<exists>s. v = VStr s)"
  by (cases v) auto

lemma is_VBool_iff: "is_VBool v \<longleftrightarrow> (\<exists>b. v = VBool b)"
  by (cases v) auto

lemma is_VDict_iff: "is_VDict v \<longleftrightarrow> (\<exists>d. v = VDict d)"
  by (cases v) auto

lemma is_count_iff: "is_count v \<longleftrightarrow> (\<exists>n. v = VInt n \<and> 0 \<le> n)"
  by (cases v) (auto simp: is_count_def)

lemma as_bool_eq [simp]: "as_bool v = Some b \<longleftrightarrow> v = VBool b"
  by (cases v) auto

lemma as_plain_int_eq [simp]: "as_plain_int v = Some n \<longleftrightarrow> v = VInt n"
  by (cases v) auto

lemma text_at_VStr [simp]: "vget d k = VStr s \<Longrightarrow> text_at d k = s"
  by (simp add: text_at_def)

lemma require_string_ok:
  "require_string st k e = Inr u \<longleftrightarrow> (\<exists>s. vget st k = VStr s \<and> (e \<or> strip s \<noteq> []))"
  by (auto simp: require_string_def result_simps split: option.splits)

lemma check_scan_times_ok:
  "check_scan_times K previous ts = Inr u \<longleftrightarrow> not_future K ts \<and>
     sorted (map dt_key ((case previous of None \<Rightarrow> [] | Some p \<Rightarrow> [p]) @ ts)) \<and>
     same_zone ((case previous of None \<Rightarrow> [] | Some p \<Rightarrow> [p]) @ ts)"
proof (induction ts arbitrary: previous u)
  case Nil
  then show ?case by (auto simp: not_future_def same_zone_def split: option.split)
next
  case (Cons t ts)
  have s: "same_zone (p # t # ts) \<longleftrightarrow> has_timezone p = has_timezone t \<and> same_zone (t # ts)" for p
    by (auto simp: same_zone_def)
  show ?case
    using Cons.IH [of "Some t"]
    by (cases previous)
       (auto simp: result_simps reject_future_datetime_def require_comparable_datetimes_def not_future_def s
         intro: order_trans)
qed

lemma check_not_before_ok:
  "check_not_before start ts = Inr u \<longleftrightarrow>
     (\<forall>t \<in> set ts. has_timezone start = has_timezone t \<and> dt_key start \<le> dt_key t)"
  by (induction ts arbitrary: u) (auto simp: result_simps require_comparable_datetimes_def)

lemma rmap_parse_those:
  "rmap (\<lambda>t. parse_iso_datetime L t key) ts = Inr ps \<longleftrightarrow> parse_times L ts = Some ps"
  unfolding parse_times_def
  by (induction ts arbitrary: ps)
     (auto simp: result_simps parse_iso_datetime_def split: option.splits)

lemma texts_at_ok: "texts_at st key e = Inr ss \<longleftrightarrow> texts_of (vget st key) = Some ss"
  by (auto simp: texts_at_def texts_of_def split: option.splits)

lemma receipts_fields:
  assumes "list_all (receipt_ok bs) r"
  shows "\<exists>f. fields_of (VDict r) = Some f \<and> r = map (\<lambda>(k, v). (k, VStr v)) f \<and>
    (\<forall>(b, i) \<in> set f. b \<in> set bs \<and> strip i \<noteq> [])"
proof -
  have "\<exists>f. r = map (\<lambda>(k, v). (k, VStr v)) f \<and> (\<forall>(b, i) \<in> set f. b \<in> set bs \<and> strip i \<noteq> [])"
    using assms
  proof (induction r)
    case (Cons x r)
    then obtain f where f: "r = map (\<lambda>(k, v). (k, VStr v)) f" "\<forall>(b, i) \<in> set f. b \<in> set bs \<and> strip i \<noteq> []"
      by auto
    from Cons.prems obtain b i where "x = (b, VStr i)" "b \<in> set bs" "strip i \<noteq> []"
      by (cases x) (auto simp: receipt_ok_def split: option.splits)
    with f show ?case by (intro exI [of _ "(b, i) # f"]) auto
  qed simp
  then obtain f where f: "r = map (\<lambda>(k, v). (k, VStr v)) f" "\<forall>(b, i) \<in> set f. b \<in> set bs \<and> strip i \<noteq> []"
    by blast
  have "map snd r = map VStr (map snd f)" "dkeys r = dkeys f"
    unfolding f(1) by (auto simp: case_prod_unfold)
  moreover have "as_texts (map VStr (map snd f)) = Some (map snd f)" by (rule as_texts_map)
  ultimately have "fields_of (VDict r) = Some f"
    unfolding fields_of_def by (simp add: zip_map_fst_snd del: map_map)
  with f show ?thesis by blast
qed

lemma check_receipts_ok:
  assumes "check_receipts st bs = Inr u"
  shows "\<exists>f. fields_of (vget_default st ''preflight_scan_receipts'' (VDict [])) = Some f \<and>
    (\<forall>(b, i) \<in> set f. b \<in> set bs \<and> strip i \<noteq> []) \<and> distinct (map snd f)"
proof -
  from assms obtain r where r: "vget_default st ''preflight_scan_receipts'' (VDict []) = VDict r"
    "list_all (receipt_ok bs) r" "distinct (map snd r)"
    by (auto simp: check_receipts_def result_simps split: option.splits if_splits)
  from receipts_fields [OF r(2)] obtain f where
    f: "fields_of (VDict r) = Some f" "r = map (\<lambda>(k, v). (k, VStr v)) f"
      "\<forall>(b, i) \<in> set f. b \<in> set bs \<and> strip i \<noteq> []" by blast
  have "map snd r = map VStr (map snd f)" unfolding f(2) by (simp add: case_prod_unfold)
  with r(3) have "distinct (map VStr (map snd f))" by simp
  then have "distinct (map snd f)" by (rule distinct_map [THEN iffD1, THEN conjunct1])
  with r(1) f show ?thesis by auto
qed

lemma check_start_time_ok:
  assumes "check_start_time L K st ts = Inr u" "fromisoformat L [] = None"
  shows "\<exists>s. restored_start L st = Some s \<and>
    (\<forall>d. s = Some d \<longrightarrow> dt_key d \<le> future_limit_for K d \<and>
       (\<forall>t \<in> set ts. has_timezone d = has_timezone t \<and> dt_key d \<le> dt_key t))"
proof (cases "vget st ''start_time'' = VNone")
  case True
  then show ?thesis by (simp add: restored_start_def)
next
  case False
  with assms(1) obtain x d where "vget st ''start_time'' = VStr x" "fromisoformat L x = Some d"
    and d: "dt_key d \<le> future_limit_for K d" "check_not_before d ts = Inr ()"
    by (auto simp: check_start_time_def parse_iso_datetime_def reject_future_datetime_def result_simps
        split: option.splits if_splits)
  moreover from this assms(2) have "x \<noteq> []" by auto
  ultimately have "restored_start L st = Some (Some d)" by (simp add: restored_start_def)
  with d show ?thesis by (simp add: check_not_before_ok)
qed

lemma tray_size_at_ok:
  "tray_size_at n st = Inr c \<longleftrightarrow> vget_default st ''tray_size'' (VInt n) = VInt c \<and> 0 < c"
  by (auto simp: tray_size_at_def split: pyval.splits)

lemma phs_label_texts:
  assumes "validate_phs_label_state C st = Inr u" "vget st ''master_label_code'' = VStr m"
  shows "\<exists>c. vget_default st ''canonical_input_tag_qr'' (VStr m) = VStr c"
    "\<exists>a. vget_default st ''active_label_qr_payload'' (VStr m) = VStr a"
    "\<exists>i. vget_default st ''active_label_id'' (VStr []) = VStr i"
    "\<exists>d. vget_default st ''active_label_business_date'' (VStr []) = VStr d"
    "\<exists>w. vget_default st ''active_label_worker_code'' (VStr []) = VStr w"
    "\<exists>l. vget_default st ''operation_lease_id'' (VStr []) = VStr l"
proof -
  have "list_all (\<lambda>key. is_VStr (phs_label_value st key)) phs_label_keys"
    using assms(1) by (simp add: validate_phs_label_state_def Let_def result_simps list_all_iff)
  then show "\<exists>c. vget_default st ''canonical_input_tag_qr'' (VStr m) = VStr c"
    "\<exists>a. vget_default st ''active_label_qr_payload'' (VStr m) = VStr a"
    "\<exists>i. vget_default st ''active_label_id'' (VStr []) = VStr i"
    "\<exists>d. vget_default st ''active_label_business_date'' (VStr []) = VStr d"
    "\<exists>w. vget_default st ''active_label_worker_code'' (VStr []) = VStr w"
    "\<exists>l. vget_default st ''operation_lease_id'' (VStr []) = VStr l"
    using assms(2) by (simp_all add: phs_label_keys_def phs_label_value_def is_VStr_iff)
qed

lemma check_tray_scans_ok:
  assumes "check_tray_scans L K st c = Inr bs" "fromisoformat L [] = None"
  obtains ts f start where "texts_of (vget st ''scanned_barcodes'') = Some bs" "distinct bs"
    "Option.bind (texts_of (vget st ''scan_times'')) (parse_times L) = Some ts"
    "length ts = length bs" "int (length bs) \<le> c"
    "fields_of (vget_default st ''preflight_scan_receipts'' (VDict [])) = Some f"
    "\<forall>(b, i) \<in> set f. b \<in> set bs \<and> strip i \<noteq> []" "distinct (map snd f)"
    "restored_start L st = Some start"
    "sorted (map dt_key ((case start of None \<Rightarrow> [] | Some s \<Rightarrow> [s]) @ ts))"
    "same_zone ((case start of None \<Rightarrow> [] | Some s \<Rightarrow> [s]) @ ts)"
    "not_future K ((case start of None \<Rightarrow> [] | Some s \<Rightarrow> [s]) @ ts)"
proof -
  from assms(1) obtain raw ts where b: "texts_of (vget st ''scanned_barcodes'') = Some bs" "distinct bs"
    and r: "check_receipts st bs = Inr ()"
    and t: "texts_of (vget st ''scan_times'') = Some raw" "length raw = length bs" "int (length bs) \<le> c"
    and p: "parse_times L raw = Some ts" "check_scan_times K None ts = Inr ()"
    and s: "check_start_time L K st ts = Inr ()"
    by (auto simp: check_tray_scans_def result_simps texts_at_ok rmap_parse_those simp del: rbind_ensure)
  from check_receipts_ok [OF r] obtain f where
    f: "fields_of (vget_default st ''preflight_scan_receipts'' (VDict [])) = Some f"
      "\<forall>(b, i) \<in> set f. b \<in> set bs \<and> strip i \<noteq> []" "distinct (map snd f)" by blast
  from check_start_time_ok [OF s assms(2)] obtain start where st: "restored_start L st = Some start"
    "\<forall>d. start = Some d \<longrightarrow> dt_key d \<le> future_limit_for K d \<and>
       (\<forall>t \<in> set ts. has_timezone d = has_timezone t \<and> dt_key d \<le> dt_key t)" by blast
  have ord: "sorted (map dt_key ts)" "same_zone ts" "not_future K ts"
    using p(2) by (simp_all add: check_scan_times_ok)
  have "length ts = length raw"
    using p(1) rmap_eq_Inr [of "\<lambda>t. parse_iso_datetime L t []" raw ts] by (simp add: rmap_parse_those)
  show thesis
  proof (rule that [OF b _ _ t(3) f st(1)])
    show "Option.bind (texts_of (vget st ''scan_times'')) (parse_times L) = Some ts" using t p by simp
    show "length ts = length bs" using \<open>length ts = length raw\<close> t(2) by simp
    show "sorted (map dt_key ((case start of None \<Rightarrow> [] | Some s \<Rightarrow> [s]) @ ts))"
      using ord(1) st(2) by (cases start) simp_all
    show "same_zone ((case start of None \<Rightarrow> [] | Some s \<Rightarrow> [s]) @ ts)"
    proof (cases start)
      case (Some d)
      with st(2) have "\<forall>t \<in> set ts. has_timezone d = has_timezone t" by blast
      with ord(2) have "same_zone (d # ts)" unfolding same_zone_def list.set by blast
      with Some show ?thesis by simp
    qed (use ord(2) in simp)
    show "not_future K ((case start of None \<Rightarrow> [] | Some s \<Rightarrow> [s]) @ ts)"
      using ord(3) st(2) by (cases start) (simp_all add: not_future_def)
  qed
qed

text \<open>The parts of a successful validation.\<close>

lemma validate_tray_state_parts:
  assumes "validate_tray_state C L K n v = Inr st"
  obtains m i c bs where "v = VDict st"
    "vget st ''master_label_code'' = VStr m" "strip m \<noteq> []" "vget st ''item_code'' = VStr i" "strip i \<noteq> []"
    "\<exists>x. vget st ''item_name'' = VStr x" "\<exists>x. vget st ''item_spec'' = VStr x"
    "\<exists>k. vget st ''mismatch_error_count'' = VInt k \<and> 0 \<le> k"
    "is_number (vget st ''total_idle_seconds'')" "\<not> negative_number (vget st ''total_idle_seconds'')"
    "is_number (vget st ''stopwatch_seconds'')" "\<not> negative_number (vget st ''stopwatch_seconds'')"
    "vget_default st ''tray_size'' (VInt n) = VInt c" "0 < c" "check_tray_scans L K st c = Inr bs"
    "\<forall>key \<in> {''has_error_or_reset'', ''is_test_tray'', ''is_partial_submission''}.
       \<exists>b. vget_default st key (VBool False) = VBool b"
    "validate_master_label_consistency C st c = Inr ()" "validate_phs_label_state C st = Inr ()"
    "validate_pending_operator_review st bs c = Inr ()" "validate_pending_completion_event L K st = Inr ()"
    "validate_pending_activation_event L K st = Inr ()" "validate_pending_parked_restore L K st = Inr ()"
  using assms
  by (auto simp: validate_tray_state_def result_simps require_string_ok require_non_negative_int_def
      require_non_negative_number_def is_count_iff tray_size_at_ok is_VBool_iff
      simp del: rbind_ensure checks.simps split: option.splits)

lemma from_state_eq:
  assumes "vget st ''master_label_code'' = VStr m"
    "vget_default st ''active_label_qr_payload'' (VStr m) = VStr a"
    "vget_default st ''canonical_input_tag_qr'' (VStr m) = VStr c"
    "vget_default st ''active_label_id'' (VStr []) = VStr i"
    "vget_default st ''active_label_business_date'' (VStr []) = VStr d"
    "vget_default st ''active_label_worker_code'' (VStr []) = VStr w"
    "vget_default st ''operation_lease_id'' (VStr []) = VStr l"
    "vget st ''item_code'' = VStr it" "vget st ''item_name'' = VStr nm" "vget st ''item_spec'' = VStr sp"
    "texts_of (vget st ''scanned_barcodes'') = Some bs"
    "Option.bind (texts_of (vget st ''scan_times'')) (parse_times L) = Some ts"
    "fields_of (vget_default st ''preflight_scan_receipts'' (VDict [])) = Some f"
    "vget_default st ''tray_size'' (VInt n) = VInt cap" "vget st ''mismatch_error_count'' = VInt mm"
    "restored_start L st = Some start"
    "vget_default st ''has_error_or_reset'' (VBool False) = VBool e"
    "vget_default st ''is_test_tray'' (VBool False) = VBool tt"
    "vget_default st ''is_partial_submission'' (VBool False) = VBool pp"
  shows "tray_session_from_state C L n st =
    Some \<lparr>master_label_code = m, item_code = it, item_name = nm, item_spec = sp,
      scanned_barcodes = bs, scan_times = ts, preflight_scan_receipts = f,
      tray_size = cap, mismatch_error_count = mm,
      total_idle_seconds = vget st ''total_idle_seconds'',
      stopwatch_seconds = vget st ''stopwatch_seconds'', start_time = start,
      has_error_or_reset = e, is_test_tray = tt, is_partial_submission = pp,
      is_restored_session = True, canonical_input_tag_qr = c, active_label_qr_payload = a,
      active_label_id = (if i \<noteq> [] then i else stripped_field (qr_fields C a) ''LBL''),
      active_label_business_date = d, active_label_worker_code = w, operation_lease_id = l\<rparr>"
proof -
  have dflt: "vget_default st key VNone = vget st key" for key
    by (simp add: vget_def vget_default_def split: option.split)
  show ?thesis
    using assms by (simp add: tray_session_from_state_def dflt)
qed

subsection \<open>Saved trays\<close>

text \<open>What the code relies on of the ISO printer and parser.\<close>

definition iso_faithful :: "iso_lib \<Rightarrow> dt list \<Rightarrow> bool" where
  "iso_faithful L ts \<longleftrightarrow> fromisoformat L [] = None \<and>
     (\<forall>t \<in> set ts. fromisoformat L (isoformat L t) = Some t)"

text \<open>The session that comes back: empty label codes are filled from the master label.\<close>

definition restored_tray :: "qr_codecs \<Rightarrow> tray_session \<Rightarrow> tray_session" where
  "restored_tray C t =
     (let or_master = (\<lambda>x. if x = [] then master_label_code t else x);
          active = or_master (active_label_qr_payload t)
      in t\<lparr>is_restored_session := True, preflight_scan_receipts := live_receipts t,
           canonical_input_tag_qr := or_master (canonical_input_tag_qr t),
           active_label_qr_payload := active,
           active_label_id := (if active_label_id t \<noteq> [] then active_label_id t
             else stripped_field (qr_fields C active) ''LBL'')\<rparr>)"

lemma fields_of_fields_value [simp]: "fields_of (fields_value f) = Some f"
proof -
  have "as_texts (map VStr (map snd f)) = Some (map snd f)" by (rule as_texts_map)
  then show ?thesis by (simp add: fields_of_def fields_value_def case_prod_unfold comp_def zip_map_fst_snd)
qed

lemma fields_of_Nil [simp]: "fields_of (VDict []) = Some []"
  by (simp add: fields_of_def)

lemma texts_of_map [simp]: "texts_of (VList (map VStr ss)) = Some ss"
  by (simp add: texts_of_def)

lemma texts_of_map_comp [simp]: "texts_of (VList (map (\<lambda>t. VStr (f t)) ts)) = Some (map f ts)"
  using texts_of_map [of "map f ts"] by (simp add: comp_def)

lemma parse_times_isoformat:
  "\<forall>t \<in> set ts. fromisoformat L (isoformat L t) = Some t \<Longrightarrow> parse_times L (map (isoformat L) ts) = Some ts"
  unfolding parse_times_def by (induction ts) auto

abbreviation saved :: "iso_lib \<Rightarrow> string \<Rightarrow> string \<Rightarrow> tray_session \<Rightarrow> json" where
  "saved \<equiv> tray_session_to_state"

lemma saved_receipts:
  "vget_default (saved L adm w t) ''preflight_scan_receipts'' (VDict []) = fields_value (live_receipts t)"
  by (simp add: tray_session_to_state_def Let_def fields_value_def)

lemma saved_start:
  assumes "iso_faithful L (tray_timeline t)"
  shows "restored_start L (saved L adm w t) = Some (start_time t)"
proof (cases "start_time t")
  case (Some s)
  with assms have "fromisoformat L (isoformat L s) = Some s" "isoformat L s \<noteq> []"
    by (auto simp: iso_faithful_def tray_timeline_def)
  with Some show ?thesis by (simp add: restored_start_def tray_session_to_state_def Let_def)
qed (simp add: restored_start_def tray_session_to_state_def Let_def)

lemma saved_tray_restores:
  assumes "iso_faithful L (tray_timeline t)"
  shows "tray_session_from_state C L n (saved L adm w t) = Some (restored_tray C t)"
proof -
  let ?om = "\<lambda>x. if x = [] then master_label_code t else x"
  have times: "Option.bind (texts_of (vget (saved L adm w t) ''scan_times'')) (parse_times L) = Some (scan_times t)"
    using assms parse_times_isoformat [of "scan_times t" L]
    by (simp add: tray_session_to_state_def Let_def iso_faithful_def tray_timeline_def)
  have "tray_session_from_state C L n (saved L adm w t) = Some
    \<lparr>master_label_code = master_label_code t, item_code = item_code t, item_name = item_name t,
      item_spec = item_spec t, scanned_barcodes = scanned_barcodes t, scan_times = scan_times t,
      preflight_scan_receipts = live_receipts t, tray_size = tray_size t,
      mismatch_error_count = mismatch_error_count t,
      total_idle_seconds = vget (saved L adm w t) ''total_idle_seconds'',
      stopwatch_seconds = vget (saved L adm w t) ''stopwatch_seconds'', start_time = start_time t,
      has_error_or_reset = has_error_or_reset t, is_test_tray = is_test_tray t,
      is_partial_submission = is_partial_submission t, is_restored_session = True,
      canonical_input_tag_qr = ?om (canonical_input_tag_qr t),
      active_label_qr_payload = ?om (active_label_qr_payload t),
      active_label_id = (if active_label_id t \<noteq> [] then active_label_id t
        else stripped_field (qr_fields C (?om (active_label_qr_payload t))) ''LBL''),
      active_label_business_date = active_label_business_date t,
      active_label_worker_code = active_label_worker_code t, operation_lease_id = operation_lease_id t\<rparr>"
    by (rule from_state_eq [OF _ _ _ _ _ _ _ _ _ _ _ times _ _ _ saved_start [OF assms]])
       (simp_all add: tray_session_to_state_def Let_def fields_value_def [symmetric])
  then show ?thesis
    by (simp add: restored_tray_def Let_def tray_session_to_state_def)
qed

lemma live_receipts_ok:
  "tray_ok K t \<Longrightarrow> live_receipts t = preflight_scan_receipts t"
  by (auto simp: tray_ok_def live_receipts_def intro: filter_True)

lemma saved_receipts_ok:
  assumes "tray_ok K t"
  shows "check_receipts (saved L adm w t) (scanned_barcodes t) = Inr ()"
proof -
  have "list_all (receipt_ok (scanned_barcodes t)) (map (\<lambda>(k, v). (k, VStr v)) (preflight_scan_receipts t))"
    using assms by (auto simp: tray_ok_def list_all_iff receipt_ok_def)
  moreover have "distinct (map snd (map (\<lambda>(k, v). (k, VStr v)) (preflight_scan_receipts t)))"
  proof -
    have "map snd (map (\<lambda>(k, v). (k, VStr v)) (preflight_scan_receipts t)) =
        map VStr (map snd (preflight_scan_receipts t))" by (simp add: case_prod_unfold)
    moreover have "distinct (map VStr (map snd (preflight_scan_receipts t)))"
      using assms by (intro distinct_map [THEN iffD2]) (auto simp: tray_ok_def inj_on_def)
    ultimately show ?thesis by (simp only:)
  qed
  ultimately show ?thesis
    by (simp add: check_receipts_def saved_receipts live_receipts_ok [OF assms] fields_value_def del: map_map)
qed

lemma same_zone_Cons: "same_zone (s # ts) \<longleftrightarrow> (\<forall>t \<in> set ts. has_timezone t = has_timezone s) \<and> same_zone ts"
  unfolding same_zone_def list.set by blast

lemma saved_start_ok:
  assumes "tray_ok K t" "iso_faithful L (tray_timeline t)"
  shows "check_start_time L K (saved L adm w t) (scan_times t) = Inr ()"
proof (cases "start_time t")
  case (Some s)
  have tl: "tray_timeline t = s # scan_times t" using Some by (simp add: tray_timeline_def)
  have "fromisoformat L (isoformat L s) = Some s" "dt_key s \<le> future_limit_for K s"
    using assms tl by (simp_all add: iso_faithful_def tray_ok_def not_future_def)
  moreover have "check_not_before s (scan_times t) = Inr ()"
    unfolding check_not_before_ok
  proof
    fix x assume "x \<in> set (scan_times t)"
    moreover have "same_zone (s # scan_times t)" "sorted (map dt_key (s # scan_times t))"
      using assms(1) tl by (simp_all add: tray_ok_def)
    ultimately show "has_timezone s = has_timezone x \<and> dt_key s \<le> dt_key x"
      by (simp add: same_zone_Cons)
  qed
  ultimately show ?thesis using Some
    by (simp add: check_start_time_def tray_session_to_state_def Let_def parse_iso_datetime_def
        reject_future_datetime_def)
qed (simp add: check_start_time_def tray_session_to_state_def Let_def)

lemma saved_scans_ok:
  assumes "tray_ok K t" "iso_faithful L (tray_timeline t)"
  shows "check_tray_scans L K (saved L adm w t) (tray_size t) = Inr (scanned_barcodes t)"
proof -
  have b: "texts_at (saved L adm w t) ''scanned_barcodes'' e = Inr (scanned_barcodes t)" for e
    by (simp add: texts_at_ok tray_session_to_state_def Let_def)
  have ts: "texts_at (saved L adm w t) ''scan_times'' e = Inr (map (isoformat L) (scan_times t))" for e
    by (simp add: texts_at_ok tray_session_to_state_def Let_def)
  have "rmap (\<lambda>x. parse_iso_datetime L x ''scan_times'') (map (isoformat L) (scan_times t)) = Inr (scan_times t)"
    unfolding rmap_parse_those using assms(2)
    by (intro parse_times_isoformat) (simp add: iso_faithful_def tray_timeline_def)
  moreover have "check_scan_times K None (scan_times t) = Inr ()"
    unfolding check_scan_times_ok using assms(1)
    by (cases "start_time t") (simp_all add: tray_ok_def tray_timeline_def not_future_def same_zone_Cons)
  ultimately show ?thesis
    using assms(1) saved_receipts_ok [OF assms(1)] saved_start_ok [OF assms]
    by (simp add: check_tray_scans_def b ts tray_ok_def)
qed

lemma saved_no_pending:
  "validate_pending_operator_review (saved L adm w t) bs c = Inr ()"
  "validate_pending_completion_event L K (saved L adm w t) = Inr ()"
  "validate_pending_activation_event L K (saved L adm w t) = Inr ()"
  "validate_pending_parked_restore L K (saved L adm w t) = Inr ()"
  by (simp_all add: validate_pending_operator_review_def validate_pending_completion_event_def
      validate_pending_activation_event_def validate_pending_parked_restore_def on_pending_def
      tray_session_to_state_def Let_def)

lemma saved_tray_valid:
  assumes "tray_ok K t" "iso_faithful L (tray_timeline t)" "persistent_operator_name adm w \<noteq> []"
    "strip (persistent_operator_name adm w) = persistent_operator_name adm w"
    "validate_master_label_consistency C (saved L adm w t) (tray_size t) = Inr ()"
    "validate_phs_label_state C (saved L adm w t) = Inr ()"
  shows "validate_tray_state C L K n (VDict (saved L adm w t)) = Inr (saved L adm w t)"
proof -
  have "tray_size_at n (saved L adm w t) = Inr (tray_size t)"
    using assms(1) by (simp add: tray_size_at_ok tray_ok_def) (simp add: tray_session_to_state_def Let_def)
  moreover have "require_string (saved L adm w t) ''worker_name'' False = Inr ()"
    "require_string (saved L adm w t) ''master_label_code'' False = Inr ()"
    "require_string (saved L adm w t) ''item_code'' False = Inr ()"
    "require_string (saved L adm w t) ''item_name'' True = Inr ()"
    "require_string (saved L adm w t) ''item_spec'' True = Inr ()"
    using assms(1,3,4) by (simp_all add: require_string_ok tray_ok_def) (simp_all add: tray_session_to_state_def Let_def)
  moreover have "require_non_negative_int (saved L adm w t) ''mismatch_error_count'' = Inr ()"
    "require_non_negative_number (saved L adm w t) ''total_idle_seconds'' = Inr ()"
    "require_non_negative_number (saved L adm w t) ''stopwatch_seconds'' = Inr ()"
    using assms(1)
    by (simp_all add: require_non_negative_int_def require_non_negative_number_def is_count_iff tray_ok_def
        ensure_def tray_session_to_state_def Let_def)
  moreover have "is_VBool (vget_default (saved L adm w t) ''has_error_or_reset'' (VBool False))"
    "is_VBool (vget_default (saved L adm w t) ''is_test_tray'' (VBool False))"
    "is_VBool (vget_default (saved L adm w t) ''is_partial_submission'' (VBool False))"
    by (simp_all add: tray_session_to_state_def Let_def)
  ultimately show ?thesis
    using assms(5,6) saved_scans_ok [OF assms(1,2)]
    by (simp add: validate_tray_state_def saved_no_pending)
qed

definition demo_iso :: iso_lib where
  "demo_iso = \<lparr>fromisoformat = (\<lambda>s. if s = ''10'' then Some \<lparr>wall = 10, utc_offset = None\<rparr>
       else if s = ''20'' then Some \<lparr>wall = 20, utc_offset = None\<rparr> else None),
     isoformat = (\<lambda>d. show_int (wall d))\<rparr>"

definition demo_clock :: tray_clock where
  "demo_clock = \<lparr>validation_now = \<lparr>wall = 100, utc_offset = None\<rparr>, clock_utc = 100, skew = 0\<rparr>"

definition demo_tray :: tray_session where
  "demo_tray = \<lparr>master_label_code = ''LOT7'', item_code = ''AB'', item_name = ''part'', item_spec = [],
     scanned_barcodes = [''AB-1''], scan_times = [\<lparr>wall = 20, utc_offset = None\<rparr>],
     preflight_scan_receipts = [(''AB-1'', ''s1'')], tray_size = 60, mismatch_error_count = 0,
     total_idle_seconds = VInt 0, stopwatch_seconds = VInt 5,
     start_time = Some \<lparr>wall = 10, utc_offset = None\<rparr>, has_error_or_reset = False, is_test_tray = False,
     is_partial_submission = False, is_restored_session = False, canonical_input_tag_qr = [],
     active_label_qr_payload = [], active_label_id = [], active_label_business_date = [],
     active_label_worker_code = [], operation_lease_id = []\<rparr>"

lemma demo_tray_facts:
  "tray_ok demo_clock demo_tray" "iso_faithful demo_iso (tray_timeline demo_tray)"
  "persistent_operator_name ''admin'' ''kim'' = ''kim''" "qr_fields no_codecs ''LOT7'' = []"
  "strip ''kim'' = ''kim''"
  by code_simp+

lemma demo_label_facts:
  "validate_master_label_consistency no_codecs (saved demo_iso ''admin'' ''kim'' demo_tray) (tray_size demo_tray) = Inr ()"
  "validate_phs_label_state no_codecs (saved demo_iso ''admin'' ''kim'' demo_tray) = Inr ()"
  by code_simp+

lemma demo_tray_valid:
  "validate_tray_state no_codecs demo_iso demo_clock 60 (VDict (saved demo_iso ''admin'' ''kim'' demo_tray))
     = Inr (saved demo_iso ''admin'' ''kim'' demo_tray)"
  by (rule saved_tray_valid) (simp_all add: demo_tray_facts demo_label_facts)

definition demo_phs_tray :: tray_session where
  "demo_phs_tray = demo_tray\<lparr>master_label_code :=
     ''PHS=2|SRC=KMTECH_INPUT_TAG|ITG=7|CLC=AB|LBL=9|HSH=0123456789abcdef''\<rparr>"

lemma demo_phs_facts:
  "tray_ok demo_clock demo_phs_tray" "iso_faithful demo_iso (tray_timeline demo_phs_tray)"
  "validate_master_label_consistency no_codecs (saved demo_iso ''admin'' ''kim'' demo_phs_tray) (tray_size demo_phs_tray) = Inr ()"
  "validate_phs_label_state no_codecs (saved demo_iso ''admin'' ''kim'' demo_phs_tray) = Inr ()"
  "stripped_field (qr_fields no_codecs (text_at (saved demo_iso ''admin'' ''kim'' demo_phs_tray) ''master_label_code'')) ''PHS'' = ''2''"
  by code_simp+

subsection \<open>Properties\<close>

text \<open>
  C31. A saved document that passes validation can always be restored, and the restored tray
  satisfies the tray invariant: distinct barcodes with one scan time each, at most as many as
  the tray holds, times in order, of one kind (with or without zone), not before the start and
  not in the future, and receipts that name scanned barcodes with distinct scan ids.
\<close>

theorem validated_tray_restores:
  assumes "validate_tray_state C L K n v = Inr st" "fromisoformat L [] = None"
  shows "\<exists>t. tray_session_from_state C L n st = Some t \<and> tray_ok K t \<and> is_restored_session t"
  using assms(1)
proof (rule validate_tray_state_parts)
  fix m i c bs
  assume m: "vget st ''master_label_code'' = VStr m" "strip m \<noteq> []"
    and i: "vget st ''item_code'' = VStr i" "strip i \<noteq> []"
    and nm: "\<exists>x. vget st ''item_name'' = VStr x" and sp: "\<exists>x. vget st ''item_spec'' = VStr x"
    and mm: "\<exists>k. vget st ''mismatch_error_count'' = VInt k \<and> 0 \<le> k"
    and num: "is_number (vget st ''total_idle_seconds'')" "\<not> negative_number (vget st ''total_idle_seconds'')"
    "is_number (vget st ''stopwatch_seconds'')" "\<not> negative_number (vget st ''stopwatch_seconds'')"
    and c: "vget_default st ''tray_size'' (VInt n) = VInt c" "0 < c"
    and sc: "check_tray_scans L K st c = Inr bs"
    and fl: "\<forall>key \<in> {''has_error_or_reset'', ''is_test_tray'', ''is_partial_submission''}.
       \<exists>b. vget_default st key (VBool False) = VBool b"
    and phs: "validate_phs_label_state C st = Inr ()"
  obtain ts f start where
    scans: "texts_of (vget st ''scanned_barcodes'') = Some bs" "distinct bs"
    "Option.bind (texts_of (vget st ''scan_times'')) (parse_times L) = Some ts"
    "length ts = length bs" "int (length bs) \<le> c"
    "fields_of (vget_default st ''preflight_scan_receipts'' (VDict [])) = Some f"
    "\<forall>(b, i) \<in> set f. b \<in> set bs \<and> strip i \<noteq> []" "distinct (map snd f)"
    "restored_start L st = Some start"
    "sorted (map dt_key ((case start of None \<Rightarrow> [] | Some s \<Rightarrow> [s]) @ ts))"
    "same_zone ((case start of None \<Rightarrow> [] | Some s \<Rightarrow> [s]) @ ts)"
    "not_future K ((case start of None \<Rightarrow> [] | Some s \<Rightarrow> [s]) @ ts)"
    using check_tray_scans_ok [OF sc assms(2)] .
  obtain a ca li bd wc le where
    "vget_default st ''active_label_qr_payload'' (VStr m) = VStr a"
    "vget_default st ''canonical_input_tag_qr'' (VStr m) = VStr ca"
    "vget_default st ''active_label_id'' (VStr []) = VStr li"
    "vget_default st ''active_label_business_date'' (VStr []) = VStr bd"
    "vget_default st ''active_label_worker_code'' (VStr []) = VStr wc"
    "vget_default st ''operation_lease_id'' (VStr []) = VStr le"
    using phs_label_texts [OF phs m(1)] by blast
  note labels = this
  obtain x y k where xyk: "vget st ''item_name'' = VStr x" "vget st ''item_spec'' = VStr y"
    "vget st ''mismatch_error_count'' = VInt k" "0 \<le> k" using nm sp mm by blast
  obtain e tt pp where fls: "vget_default st ''has_error_or_reset'' (VBool False) = VBool e"
    "vget_default st ''is_test_tray'' (VBool False) = VBool tt"
    "vget_default st ''is_partial_submission'' (VBool False) = VBool pp" using fl by blast
  show ?thesis
    unfolding from_state_eq [OF m(1) labels i(1) xyk(1,2) scans(1,3,6) c(1) xyk(3) scans(9) fls]
    using m i c num xyk scans by (simp add: tray_ok_def tray_timeline_def)
qed


theorem validated_tray_restores_witness:
  "\<exists>t. tray_session_from_state no_codecs demo_iso 60 (saved demo_iso ''admin'' ''kim'' demo_tray) = Some t \<and>
     tray_ok demo_clock t"
  using validated_tray_restores [OF demo_tray_valid] by (auto simp: demo_iso_def)



text \<open>
  What the program saves it accepts again: the document of a tray that satisfies the tray
  invariant passes validation, if the operator name is not empty and the label agrees with the
  tray.
\<close>

theorem saved_tray_validates:
  assumes "tray_ok K t" "iso_faithful L (tray_timeline t)" "strip w \<noteq> []" "admin_display = strip admin_display"
    "admin_display \<noteq> []"
    "validate_master_label_consistency C (tray_session_to_state L admin_display w t) (tray_size t) = Inr ()"
    "validate_phs_label_state C (tray_session_to_state L admin_display w t) = Inr ()"
  shows "validate_tray_state C L K n (VDict (tray_session_to_state L admin_display w t)) =
    Inr (tray_session_to_state L admin_display w t)"
proof (rule saved_tray_valid [OF assms(1,2) _ _ assms(6,7)])
  show "persistent_operator_name admin_display w \<noteq> []"
    using assms(3,5) by (simp add: persistent_operator_name_def Let_def)
  show "strip (persistent_operator_name admin_display w) = persistent_operator_name admin_display w"
    using assms(4) by (simp add: persistent_operator_name_def Let_def)
qed

theorem saved_tray_validates_witness:
  "validate_tray_state no_codecs demo_iso demo_clock 60 (VDict (tray_session_to_state demo_iso ''admin'' ''kim'' demo_tray))
     = Inr (tray_session_to_state demo_iso ''admin'' ''kim'' demo_tray)"
proof (rule saved_tray_validates [OF demo_tray_facts(1,2) _ _ _ demo_label_facts])
  show "''admin'' = strip ''admin''" by code_simp
qed (simp_all add: demo_tray_facts)

text \<open>
  A PHS2 tray keeps its anchor: in every validated document of a tray whose master label is
  a PHS2 label, the canonical code is the master label, and the active label is a complete PHS2
  label of the same input tag and the same item.
\<close>

theorem phs_labels_anchored:
  assumes "validate_tray_state C L K n v = Inr st"
    "stripped_field (qr_fields C (text_at st ''master_label_code'')) ''PHS'' = ''2''"
  shows "phs_text st ''canonical_input_tag_qr'' = text_at st ''master_label_code'' \<and>
    phs_label_complete (qr_fields C (phs_text st ''active_label_qr_payload'')) \<and>
    (\<forall>key \<in> {''ITG'', ''CLC''}. stripped_field (qr_fields C (phs_text st ''active_label_qr_payload'')) key =
       stripped_field (qr_fields C (text_at st ''master_label_code'')) key)"
  using assms(1)
proof (rule validate_tray_state_parts)
  fix m
  assume m: "vget st ''master_label_code'' = VStr m" and p: "validate_phs_label_state C st = Inr ()"
  from p m assms(2) have "phs_anchor_ok C m (phs_text st ''canonical_input_tag_qr'') (phs_text st ''active_label_qr_payload'')"
    by (simp add: validate_phs_label_state_def Let_def result_simps split: if_splits)
  with m show ?thesis by (simp add: phs_anchor_ok_def Let_def)
qed

theorem phs_labels_anchored_witness:
  "phs_label_complete (qr_fields no_codecs
     (phs_text (saved demo_iso ''admin'' ''kim'' demo_phs_tray) ''active_label_qr_payload''))"
proof -
  have "validate_tray_state no_codecs demo_iso demo_clock 60 (VDict (saved demo_iso ''admin'' ''kim'' demo_phs_tray))
      = Inr (saved demo_iso ''admin'' ''kim'' demo_phs_tray)"
    by (rule saved_tray_valid) (simp_all add: demo_tray_facts demo_phs_facts)
  from phs_labels_anchored [OF this demo_phs_facts(5)] show ?thesis by blast
qed

text \<open>
  A restore that was interrupted can only be replayed in one way: when the pending restore
  of a document is valid, its projection events are exactly the restore event, or the discard
  event followed by the restore event, under idempotency keys derived from the operation id, and
  it belongs to the tray of the document.
\<close>

theorem parked_restore_replay_order:
  assumes "validate_pending_parked_restore L K st = Inr ()" "vget st ''pending_parked_restore'' = VDict p"
  shows "\<exists>op evs. vget p ''operation_id'' = VStr op \<and> vget p ''projection_events'' = VList (map VDict evs) \<and>
    map (\<lambda>e. (strip (text_at e ''event_type''), text_at e ''idempotency_key'')) evs \<in>
      {[(''TRAY_RESTORED_FROM_PARK'', op @ '':restore'')],
       [(''TRAY_DISCARDED_BY_OPERATOR'', op @ '':discard''), (''TRAY_RESTORED_FROM_PARK'', op @ '':restore'')]} \<and>
    str_or_empty (vget p ''restored_master_label_code'') = str_or_empty (vget st ''master_label_code'')"
proof -
  let ?op = "text_at p ''operation_id''" and ?m = "str_or_empty (vget p ''restored_master_label_code'')"
  let ?val = "validate_parked_restore_projection_event L K ?op ?m"
  define es where "es = (case as_list (vget p ''projection_events'') of None \<Rightarrow> [] | Some vs \<Rightarrow> vs)"
  from assms obtain types where
    op: "is_VStr (vget p ''operation_id'')" and m: "?m = str_or_empty (vget st ''master_label_code'')"
    and len: "length es = 1 \<or> length es = 2" and ty: "rmap ?val es = Inr types"
    and order: "types = (if length types = 1 then [''TRAY_RESTORED_FROM_PARK'']
                 else [''TRAY_DISCARDED_BY_OPERATOR'', ''TRAY_RESTORED_FROM_PARK''])"
    unfolding es_def
    by (auto simp: validate_pending_parked_restore_def on_pending_def Let_def result_simps
        simp del: rbind_ensure checks.simps split: if_splits)
  have ev: "\<exists>e. v = VDict e \<and> strip (text_at e ''event_type'') = t \<and>
      text_at e ''idempotency_key'' = ?op @ CHR '':'' # (if t = ''TRAY_DISCARDED_BY_OPERATOR'' then ''discard'' else ''restore'')"
    if "?val v = Inr t" for v t
    using that
    by (auto simp: validate_parked_restore_projection_event_def Let_def result_simps
        simp del: rbind_ensure checks.simps split: option.splits)
  have el: "vget p ''projection_events'' = VList es"
    using len by (auto simp: es_def split: option.splits)
  have ev_i: "?val (es ! i) = Inr (types ! i)" if "i < length es" for i
    using ty that by (simp add: rmap_eq_Inr)
  have lt: "length types = length es" using ty by (simp add: rmap_eq_Inr)
  show ?thesis
  proof (cases "length es = 1")
    case True
    with lt order have "types = [''TRAY_RESTORED_FROM_PARK'']" by simp
    with True ev_i [of 0] obtain e where "es = [VDict e]" "strip (text_at e ''event_type'') = ''TRAY_RESTORED_FROM_PARK''"
      "text_at e ''idempotency_key'' = ?op @ '':restore''"
      using ev [of "es ! 0" "types ! 0"] by (cases es) auto
    with el op m show ?thesis by (intro exI [of _ ?op] exI [of _ "[e]"]) (auto simp: is_VStr_iff)
  next
    case False
    with len have two: "length es = 2" by simp
    with lt order have "types = [''TRAY_DISCARDED_BY_OPERATOR'', ''TRAY_RESTORED_FROM_PARK'']" by simp
    with two obtain v w where es: "es = [v, w]" and "?val v = Inr ''TRAY_DISCARDED_BY_OPERATOR''"
      "?val w = Inr ''TRAY_RESTORED_FROM_PARK''"
      using ev_i [of 0] ev_i [of 1] by (cases es; cases "tl es") auto
    with ev [of v] ev [of w] obtain d e where
      "v = VDict d" "strip (text_at d ''event_type'') = ''TRAY_DISCARDED_BY_OPERATOR''"
      "text_at d ''idempotency_key'' = ?op @ '':discard''"
      "w = VDict e" "strip (text_at e ''event_type'') = ''TRAY_RESTORED_FROM_PARK''"
      "text_at e ''idempotency_key'' = ?op @ '':restore''" by fastforce
    with es el op m show ?thesis by (intro exI [of _ ?op] exI [of _ "[d, e]"]) (auto simp: is_VStr_iff)
  qed
qed

definition demo_restore :: json where
  "demo_restore =
     [(''schema_version'', VInt 1),
      (''operation_id'', VStr (''parked-restore:'' @ replicate 32 (CHR ''0''))),
      (''parked_source_name'', VStr ''parked_1.json''), (''parked_source_sha256'', VStr (replicate 64 (CHR ''0''))),
      (''restored_master_label_code'', VStr ''LOT7''),
      (''projection_events'', VList [VDict
         [(''event_type'', VStr ''TRAY_RESTORED_FROM_PARK''), (''canonical_event_name'', VStr ''TRAY_RESTORED''),
          (''idempotency_key'', VStr (''parked-restore:'' @ replicate 32 (CHR ''0'') @ '':restore'')),
          (''observed_at'', VStr ''10''), (''projection_log_name'', VStr ''a.csv''),
          (''projection_worker_name'', VStr ''kim''),
          (''event_detail'', VDict [(''master_label_code'', VStr ''LOT7'')])]])]"

lemma demo_restore_valid:
  "validate_pending_parked_restore demo_iso demo_clock
     [(''master_label_code'', VStr ''LOT7''), (''pending_parked_restore'', VDict demo_restore)] = Inr ()"
  by code_simp

theorem parked_restore_replay_order_witness:
  "\<exists>op evs. vget demo_restore ''operation_id'' = VStr op \<and>
     vget demo_restore ''projection_events'' = VList (map VDict evs) \<and>
     map (\<lambda>e. text_at e ''idempotency_key'') evs = [op @ '':restore'']"
proof -
  have v: "vget [(''master_label_code'', VStr ''LOT7''), (''pending_parked_restore'', VDict demo_restore)]
      ''pending_parked_restore'' = VDict demo_restore" by simp
  have one: "vget demo_restore ''projection_events'' = VList (map VDict evs) \<Longrightarrow> length evs = 1" for evs
    by (auto simp: demo_restore_def)
  from parked_restore_replay_order [OF demo_restore_valid v] obtain op evs where
    r: "vget demo_restore ''operation_id'' = VStr op" "vget demo_restore ''projection_events'' = VList (map VDict evs)"
    "map (\<lambda>e. (strip (text_at e ''event_type''), text_at e ''idempotency_key'')) evs \<in>
      {[(''TRAY_RESTORED_FROM_PARK'', op @ '':restore'')],
       [(''TRAY_DISCARDED_BY_OPERATOR'', op @ '':discard''), (''TRAY_RESTORED_FROM_PARK'', op @ '':restore'')]}"
    by (elim exE conjE) (rule that)
  from one [OF r(2)] obtain e where "evs = [e]" by (cases evs) auto
  with r show ?thesis by (intro exI [of _ op] exI [of _ evs]) auto
qed

text \<open>
  A pending completion names its transfer: in a valid pending completion event the
  idempotency key is \<open>tray-complete:\<close> followed by the transfer intent, and once the event may
  have reached the log, the transfer detail is present and carries the same intent.
\<close>

theorem completion_event_intent:
  assumes "validate_pending_completion_event L K st = Inr ()" "vget st ''pending_completion_event'' = VDict p"
  shows "strip (text_at p ''idempotency_key'') = ''tray-complete:'' @ strip (text_at p ''transfer_intent_id'') \<and>
    strip (text_at p ''transfer_intent_id'') \<noteq> [] \<and>
    (vget p ''log_may_have_been_attempted'' = VBool True \<longrightarrow>
      (\<exists>d. vget p ''transfer_detail'' = VDict d \<and> d \<noteq> [] \<and>
         strip (str_or_empty (vget d ''transfer_seal_intent_id'')) = strip (text_at p ''transfer_intent_id'')))"
  using assms
  by (auto simp: validate_pending_completion_event_def on_pending_def Let_def result_simps require_texts_def
      is_VDict_iff simp del: rbind_ensure checks.simps split: option.splits if_splits)

definition demo_completion :: json where
  "demo_completion =
     [(''schema_version'', VInt 1), (''event_type'', VStr ''TRAY_COMPLETE''),
      (''idempotency_key'', VStr ''tray-complete:i1''), (''observed_at'', VStr ''10''),
      (''projection_log_name'', VStr ''a.csv''), (''projection_worker_name'', VStr ''kim''),
      (''transfer_intent_id'', VStr ''i1''), (''was_restored_session'', VBool False),
      (''log_may_have_been_attempted'', VBool True),
      (''transfer_detail'', VDict [(''transfer_seal_intent_id'', VStr ''i1'')])]"

theorem completion_event_intent_witness:
  "strip (text_at demo_completion ''idempotency_key'') = ''tray-complete:'' @ strip (text_at demo_completion ''transfer_intent_id'')"
proof -
  have "validate_pending_completion_event demo_iso demo_clock [(''pending_completion_event'', VDict demo_completion)] = Inr ()"
    by code_simp
  from completion_event_intent [OF this] show ?thesis by simp
qed

text \<open>
  The non-negativity check lets NaN through: putting NaN into the idle or stopwatch seconds
  of a document leaves those two requirements satisfied, although NaN is no non-negative number.
\<close>

theorem nan_seconds_accepted:
  "require_non_negative_number (dset key (VFloat FNan) state) key = Inr () \<and>
   \<not> nan_free (VDict (dset key (VFloat FNan) state))"
proof -
  have "(key, VFloat FNan) \<in> set (dset key (VFloat FNan) state)"
    by (rule map_of_SomeD) simp
  then have "\<not> nan_free (VDict (dset key (VFloat FNan) state))" by force
  then show ?thesis by (simp add: require_non_negative_number_def)
qed

lemma show_nat_inj: "show_nat a = show_nat b \<longleftrightarrow> a = b"
  by (metis of_nat_eq_iff option.inject parse_show_nat)

lemma quarantine_candidate_inj: "inj (quarantine_candidate source ts)"
  by (auto simp: inj_def quarantine_candidate_def show_nat_inj split: if_splits)

lemma first_free_Some:
  assumes "inj name" "card (set existing \<inter> name ` {n..}) < fuel"
  shows "\<exists>m \<ge> n. first_free name existing n fuel = Some (name m) \<and> name m \<notin> set existing \<and>
    (\<forall>k. n \<le> k \<and> k < m \<longrightarrow> name k \<in> set existing)"
  using assms(2)
proof (induction fuel arbitrary: n)
  case (Suc fuel)
  show ?case
  proof (cases "name n \<in> set existing")
    case True
    have "{n..} = insert n {Suc n..}" by auto
    then have "set existing \<inter> name ` {n..} = insert (name n) (set existing \<inter> name ` {Suc n..})"
      using True by simp
    moreover have "name n \<notin> name ` {Suc n..}" using inj_image_mem_iff [OF assms(1)] by simp
    ultimately have "card (set existing \<inter> name ` {Suc n..}) < fuel" using Suc.prems by simp
    from Suc.IH [OF this] obtain m where m: "m \<ge> Suc n" "first_free name existing (Suc n) fuel = Some (name m)"
      "name m \<notin> set existing" "\<forall>k. Suc n \<le> k \<and> k < m \<longrightarrow> name k \<in> set existing" by blast
    have "\<forall>k. n \<le> k \<and> k < m \<longrightarrow> name k \<in> set existing"
      using m(4) True by (metis Suc_leI le_neq_implies_less)
    with m True show ?thesis by (intro exI [of _ m]) auto
  next
    case False
    then show ?thesis by (intro exI [of _ n]) auto
  qed
qed simp

lemma quarantine_target_first:
  "\<exists>m. quarantine_target existing source timestamp = Some (quarantine_candidate source timestamp m) \<and>
     quarantine_candidate source timestamp m \<notin> set existing \<and>
     (\<forall>k < m. quarantine_candidate source timestamp k \<in> set existing)"
proof -
  let ?name = "quarantine_candidate source timestamp"
  have "card (set existing \<inter> ?name ` {0..}) \<le> card (set existing)" by (intro card_mono) auto
  then have "card (set existing \<inter> ?name ` {0..}) < length existing + 1"
    using card_length [of existing] by simp
  from first_free_Some [OF quarantine_candidate_inj this] show ?thesis
    by (auto simp: quarantine_target_def)
qed

text \<open>
  Quarantining an unreadable state file always finds a free name, the first of its
  candidates that is not taken, moves the file there with its content and leaves every other file
  alone: a quarantined file never overwrites an earlier one.
\<close>

theorem quarantine_keeps_files:
  assumes "distinct (dkeys files)" "dget files source = Some content"
  shows "\<exists>m files'. quarantine_tray_state_file True None mv source timestamp files =
      (Inr (quarantine_candidate source timestamp m), files') \<and>
    quarantine_candidate source timestamp m \<notin> set (dkeys files) \<and>
    (\<forall>k < m. quarantine_candidate source timestamp k \<in> set (dkeys files)) \<and>
    (\<forall>x. dget files' x = (if x = quarantine_candidate source timestamp m then Some content
       else if x = source then None else dget files x))"
proof -
  obtain m where m: "quarantine_target (dkeys files) source timestamp = Some (quarantine_candidate source timestamp m)"
    "quarantine_candidate source timestamp m \<notin> set (dkeys files)"
    "\<forall>k < m. quarantine_candidate source timestamp k \<in> set (dkeys files)"
    using quarantine_target_first by blast
  show ?thesis
    by (intro exI [of _ m] exI [of _ "dset (quarantine_candidate source timestamp m) content (dremove source files)"])
       (use m assms in \<open>simp add: quarantine_tray_state_file_def dget_dremove\<close>)
qed

theorem quarantine_keeps_files_witness:
  "\<exists>m files'. quarantine_tray_state_file True None None ''s.json'' ''T''
       [(''s.json'', ''x''), (''s.json.bad-T'', ''old'')] = (Inr (quarantine_candidate ''s.json'' ''T'' m), files') \<and>
     dget files' ''s.json.bad-T'' = Some ''old''"
proof -
  let ?fs = "[(''s.json'', ''x''), (''s.json.bad-T'', ''old'')]"
  have d: "distinct (dkeys ?fs)" "dget ?fs ''s.json'' = Some ''x''" by simp_all
  obtain m files' where q: "quarantine_tray_state_file True None None ''s.json'' ''T'' ?fs =
      (Inr (quarantine_candidate ''s.json'' ''T'' m), files')"
    "quarantine_candidate ''s.json'' ''T'' m \<notin> set (dkeys ?fs)"
    "\<forall>x. dget files' x = (if x = quarantine_candidate ''s.json'' ''T'' m then Some ''x''
       else if x = ''s.json'' then None else dget ?fs x)"
    using quarantine_keeps_files [OF d, of None "''T''"] by (elim exE conjE) (rule that)
  from q(2) have "''s.json.bad-T'' \<noteq> quarantine_candidate ''s.json'' ''T'' m" by auto
  with q(3) have "dget files' ''s.json.bad-T'' = Some ''old''" by simp
  with q(1) show ?thesis by blast
qed

end
