(* ===== verification/Event_Contracts.thy ===== *)
theory Event_Contracts
  imports Py_Value
begin

text \<open>
  \<open>event_contracts.py\<close>: the envelope fields every event detail carries, and the stable hash of
  a detail. Unicode NFC is the identity on the alphabet of \<open>Py_Text\<close> (no code point below
  U+0100 has a different NFC form or composes with another one), so normalising a text returns
  it and two distinct keys never collide. \<open>sha256_hex\<close> is the SHA-256 of the UTF-8 bytes;
  \<^term>\<open>None\<close> is the \<open>ValueError\<close> of \<open>allow_nan=False\<close>.
\<close>

definition plan_b_event_detail ::
  "string \<Rightarrow> (string, pyval) dict \<Rightarrow> string \<Rightarrow> string \<Rightarrow> string option \<Rightarrow> (string, pyval) dict" where
  "plan_b_event_detail event_type detail source_system source_transport_or_dataset canonical_event_name =
     dupdate detail
       [(''source_system'', VStr source_system),
        (''source_transport_or_dataset'', VStr source_transport_or_dataset),
        (''raw_event_name'', VStr event_type),
        (''canonical_event_name'',
           VStr (case canonical_event_name of
                   None \<Rightarrow> event_type
                 | Some name \<Rightarrow> (if name = [] then event_type else name))),
        (''dispatch_key'',
           VStr (source_system @ ''|'' @ source_transport_or_dataset @ ''|'' @ event_type)),
        (''identity_class'', VStr ''LEGACY_FALLBACK''),
        (''integrity_requirement'', VStr ''UNSIGNED_LEGACY_ALLOWED''),
        (''integrity_status'', VStr ''UNSIGNED_LEGACY''),
        (''parser_mapping_version'', VStr ''container-audit-plan-b-v1'')]"

fun normalize_for_json :: "pyval \<Rightarrow> pyval" where
  "normalize_for_json (VList vs) = VList (map normalize_for_json vs)"
| "normalize_for_json (VDict d) =
     VDict (sort_key fst (map (\<lambda>(k, v). (k, normalize_for_json v)) d))"
| "normalize_for_json v = v"

definition stable_hash :: "(string \<Rightarrow> string) \<Rightarrow> (string, pyval) dict \<Rightarrow> string option" where
  "stable_hash sha256_hex data = map_option sha256_hex (dumps_strict (normalize_for_json (VDict data)))"

subsection \<open>The hash does not depend on the order of keys\<close>

lemma sort_members:
  "sort_key fst (map (\<lambda>(k, v). (k, f k v)) (sort_key fst d)) =
   sort_key fst (map (\<lambda>(k, v). (k, f k v)) (d :: (string \<times> 'a) list))"
proof -
  let ?g = "\<lambda>kv. (fst kv, f (fst kv) (snd kv))"
  have "sort_key fst (map ?g (sort_key fst d)) = map ?g (sort_key fst (sort_key fst d))"
    by (rule sort_key_map) simp
  also have "\<dots> = sort_key fst (map ?g d)"
    by (subst sort_key_idem) (rule sort_key_map [symmetric], simp)
  finally show ?thesis by (simp add: case_prod_unfold)
qed

lemma dumps_normalize: "dumps (normalize_for_json v) = dumps v"
proof (induction v)
  case (VList vs)
  then show ?case by (simp add: comp_def cong: map_cong)
next
  case (VDict d)
  have "map (\<lambda>(k, v). (k, json_text k @ '':'' @ dumps (normalize_for_json v))) d =
      map (\<lambda>(k, v). (k, json_text k @ '':'' @ dumps v)) d"
    using VDict by force
  moreover have "sort_key fst (map (\<lambda>(k, v). (k, json_text k @ '':'' @ dumps v))
        (sort_key fst (map (\<lambda>(k, v). (k, normalize_for_json v)) d))) =
      sort_key fst (map (\<lambda>(k, v). (k, json_text k @ '':'' @ dumps v))
        (map (\<lambda>(k, v). (k, normalize_for_json v)) d))"
    by (rule sort_members)
  ultimately show ?case
    by (simp add: comp_def case_prod_unfold cong: map_cong)
qed simp_all

lemma nan_free_normalize: "nan_free (normalize_for_json v) = nan_free v"
  by (induction v) auto

lemma stable_hash_eq:
  "stable_hash sha data = (if nan_free (VDict data) then Some (sha (dumps (VDict data))) else None)"
  unfolding stable_hash_def dumps_strict_def nan_free_normalize dumps_normalize by simp

lemma dumps_dict_reorder:
  assumes "distinct (dkeys d)" "distinct (dkeys e)" "dget d = dget e"
  shows "dumps (VDict d) = dumps (VDict e)"
proof -
  have "sort_key fst d = sort_key fst e" using assms by (rule sort_dict_eq)
  moreover have "sort_key fst (map (\<lambda>(k, v). (k, json_text k @ '':'' @ dumps v)) x) =
      map (\<lambda>(k, v). (k, json_text k @ '':'' @ dumps v)) (sort_key fst x)" for x
    by (rule sort_key_map) auto
  ultimately show ?thesis by simp
qed

lemma stable_hash_key_order:
  assumes "distinct (dkeys d)" "distinct (dkeys e)" "dget d = dget e"
  shows "stable_hash sha d = stable_hash sha e"
proof -
  have "set d = set e" using assms by (simp add: map_of_inject_set)
  then have "nan_free (VDict d) = nan_free (VDict e)" by simp
  with dumps_dict_reorder [OF assms] show ?thesis by (simp add: stable_hash_eq)
qed

lemma plan_b_detail_fields:
  "vget (plan_b_event_detail t d sys src c) ''raw_event_name'' = VStr t"
  "vget (plan_b_event_detail t d sys src c) ''dispatch_key'' = VStr (sys @ ''|'' @ src @ ''|'' @ t)"
  "vget (plan_b_event_detail t d sys src c) ''source_system'' = VStr sys"
  by (simp_all add: plan_b_event_detail_def dict_simps)



end
