(* ===== verification/Event_Payloads.thy ===== *)
theory Event_Payloads
  imports Tray_State Event_Contracts
begin

text \<open>
  \<open>event_payloads.py\<close>: the details of the completion, scan and label replacement events. A tray
  is the session of \<open>Tray_State\<close>; the details of an earlier completion come from the event log
  and are JSON objects. \<open>PayloadValueError\<close> is \<open>ValueError\<close> with its message,
  \<open>PayloadKeyError\<close> the \<open>KeyError\<close> of a subscript. \<open>hash_func\<close> is the argument
  \<open>stable_hash_func\<close> of the code (\<^term>\<open>None\<close>: it raises \<open>ValueError\<close>).
\<close>

datatype payload_error = PayloadValueError string | PayloadKeyError string

subsection \<open>Barcodes of a completion\<close>

definition barcode_aliases :: "string list" where
  "barcode_aliases = [''product_barcodes'', ''scanned_product_barcodes'', ''scanned_barcodes'']"

text \<open>The loop over the aliases: the non-empty lists with their keys.\<close>

fun non_empty_aliases :: "json \<Rightarrow> string list \<Rightarrow> payload_error + (string \<times> string list) list" where
  "non_empty_aliases details [] = Inr []"
| "non_empty_aliases details (key # keys) =
     (case as_list (vget details key) of
        None \<Rightarrow> non_empty_aliases details keys
      | Some vs \<Rightarrow>
          if vs = [] then non_empty_aliases details keys
          else (case as_texts vs of
              None \<Rightarrow> Inl (PayloadValueError ''completion product barcode aliases must contain only text values'')
            | Some ss \<Rightarrow> rbind (non_empty_aliases details keys) (\<lambda>rest. Inr ((key, ss) # rest))))"

definition product_barcodes_from_completion :: "json \<Rightarrow> payload_error + string list" where
  "product_barcodes_from_completion details =
     rbind (non_empty_aliases details barcode_aliases) (\<lambda>aliases.
       case aliases of
         [] \<Rightarrow> Inr []
       | (first_key, first_values) # rest \<Rightarrow>
           (case find (\<lambda>(key, values). values \<noteq> first_values) rest of
              Some (key, values) \<Rightarrow> Inl (PayloadValueError
                (''completion product barcode aliases conflict: '' @ first_key @ '', '' @ key))
            | None \<Rightarrow>
                if distinct first_values then Inr first_values
                else Inl (PayloadValueError ''completion product barcode aliases must be unique'')))"

subsection \<open>Requirements\<close>

definition require_text :: "string \<Rightarrow> string \<Rightarrow> payload_error + string" where
  "require_text v name =
     (if strip v = [] then Inl (PayloadValueError (name @ '' must be non-empty text'')) else Inr v)"

definition require_positive_int :: "int \<Rightarrow> string \<Rightarrow> payload_error + int" where
  "require_positive_int n name =
     (if n \<le> 0 then Inl (PayloadValueError (name @ '' must be a positive integer'')) else Inr n)"

text \<open>\<open>float(value)\<close> of an int is exact up to 2^53; intervals are far below.\<close>

definition require_non_negative_finite_number :: "pyval \<Rightarrow> string \<Rightarrow> payload_error + rat" where
  "require_non_negative_finite_number v name =
     (let err = Inl (PayloadValueError (name @ '' must be a non-negative finite number'')) in
      case v of
        VInt n \<Rightarrow> (if n < 0 then err else Inr (of_int n))
      | VFloat (FFin q r) \<Rightarrow> (if q < 0 then err else Inr q)
      | _ \<Rightarrow> err)"

definition validated_scanned_barcodes :: "string list \<Rightarrow> payload_error + string list" where
  "validated_scanned_barcodes bs =
     (if distinct bs then Inr bs else Inl (PayloadValueError ''scanned_barcodes must be unique''))"

text \<open>\<open>f"{q:.2f}"\<close>: the exact value, rounded half to even\<close>

definition round_half_even :: "rat \<Rightarrow> int" where
  "round_half_even q =
     (let n = \<lfloor>q\<rfloor>; f = q - of_int n
      in if f < 1 / 2 then n else if f > 1 / 2 then n + 1 else if even n then n else n + 1)"

definition format_2f :: "rat \<Rightarrow> string" where
  "format_2f q =
     (let n = nat (round_half_even (100 * q)) in
      show_nat (n div 100) @ ''.'' @ show_nat (n mod 100 div 10) @ show_nat (n mod 10))"

subsection \<open>The trace of an inspection label\<close>

definition trace_tag_keys :: "string list" where
  "trace_tag_keys = [''input_tag_id'', ''input_tag_label_id'', ''input_tag_core_hash'', ''input_tag_label_hash'']"

definition inspection_trace_from_master_label_fields :: "qr_codecs \<Rightarrow> string \<Rightarrow> fields \<Rightarrow> fields" where
  "inspection_trace_from_master_label_fields C master_label fs =
     (let tag = stripped_field fs ''ITG'' in
      filter (\<lambda>(key, v). v \<noteq> [])
        ([(''input_tag_id'', tag), (''input_tag_label_id'', stripped_field fs ''LBL''),
          (''input_tag_core_hash'', stripped_field fs ''HSH_CORE''),
          (''input_tag_label_hash'', stripped_field fs ''HSH_LABEL''),
          (''master_label_phase'', stripped_field fs ''PHS''),
          (''inspection_session_key'', tag),
          (''master_label_identity_key'', canonical_master_label_key C master_label)]))"

definition setdefault :: "string \<Rightarrow> pyval \<Rightarrow> json \<Rightarrow> json" where
  "setdefault k v d = (if k \<in> set (dkeys d) then d else dset k v d)"

text \<open>The block that copies the tag keys of a trace into a detail, if there is one.\<close>

definition add_inspection_trace :: "fields \<Rightarrow> json \<Rightarrow> payload_error + json" where
  "add_inspection_trace trace detail =
     (if list_ex (\<lambda>key. field trace key \<noteq> []) trace_tag_keys
      then let detail = dupdate detail
             (map (\<lambda>key. (key, VStr (field trace key)))
               (filter (\<lambda>key. key \<in> set (dkeys trace)) trace_tag_keys))
           in (case dget trace ''input_tag_id'' of
                 None \<Rightarrow> Inl (PayloadKeyError ''input_tag_id'')
               | Some tag \<Rightarrow> Inr (dset ''inspection_trace'' (fields_value trace)
                   (setdefault ''source_session_id'' (VStr tag) detail)))
      else Inr detail)"

subsection \<open>The completion of a tray\<close>

definition check_label_quantity :: "fields \<Rightarrow> int \<Rightarrow> payload_error + unit" where
  "check_label_quantity label_fields tray_capacity =
     (if list_ex (\<lambda>key. stripped_field label_fields key \<noteq> []) [''QT'', ''QTY'', ''QUANTITY'']
      then (case parse_positive_quantity label_fields None of
          None \<Rightarrow> Inl (PayloadValueError ''master_label_fields QT must be a positive integer'')
        | Some quantity \<Rightarrow> ensure (quantity = tray_capacity)
            (PayloadValueError ''master_label_fields QT must match tray_capacity''))
      else Inr ())"

text \<open>The detail before the trace is added.\<close>

definition tray_complete_fields :: "iso_lib \<Rightarrow> tray_session \<Rightarrow> fields \<Rightarrow> dt \<Rightarrow> json" where
  "tray_complete_fields L tray label_fields end_time =
     [(''master_label_code'', VStr (master_label_code tray)), (''item_code'', VStr (item_code tray)),
      (''item_name'', VStr (item_name tray)), (''item_spec'', VStr (item_spec tray)),
      (''spec'', VStr (item_spec tray)), (''scan_count'', VInt (int (length (scanned_barcodes tray)))),
      (''tray_capacity'', VInt (tray_size tray)),
      (''scanned_product_barcodes'', VList (map VStr (scanned_barcodes tray))),
      (''product_barcodes'', VList (map VStr (scanned_barcodes tray))),
      (''work_time_sec'', stopwatch_seconds tray), (''error_count'', VInt (mismatch_error_count tray)),
      (''total_idle_seconds'', total_idle_seconds tray),
      (''has_error_or_reset'', VBool (has_error_or_reset tray)),
      (''is_partial_submission'', VBool (is_partial_submission tray)),
      (''is_restored_session'', VBool (is_restored_session tray)),
      (''is_test_tray'', VBool (is_test_tray tray)),
      (''start_time'', (case start_time tray of None \<Rightarrow> VNone | Some t \<Rightarrow> VStr (isoformat L t))),
      (''end_time'', VStr (isoformat L end_time)),
      (''master_label_fields'', fields_value label_fields),
      (''quantity_basis'', VStr (if scanned_barcodes tray \<noteq> [] then ''PRODUCT_BARCODE'' else ''SESSION_QTY'')),
      (''confidence'', VStr (if scanned_barcodes tray \<noteq> [] then ''BARCODE'' else ''LOW_CONFIDENCE'')),
      (''qty_uom'', VStr ''piece''), (''measure_code'', VStr ''STATE_QTY''),
      (''barcode_count'', VInt (int (card (set (scanned_barcodes tray)))))]"

definition build_tray_complete_detail ::
  "qr_codecs \<Rightarrow> iso_lib \<Rightarrow> tray_session \<Rightarrow> fields \<Rightarrow> dt \<Rightarrow> payload_error + json" where
  "build_tray_complete_detail C L tray label_fields end_time =
     rbind (validated_scanned_barcodes (scanned_barcodes tray)) (\<lambda>barcodes.
     rbind (require_positive_int (tray_size tray) ''tray_capacity'') (\<lambda>tray_capacity.
     rbind (ensure (int (length barcodes) \<le> tray_capacity)
       (PayloadValueError ''scan_count must not exceed tray_capacity'')) (\<lambda>_.
     rbind (require_text (master_label_code tray) ''master_label_code'') (\<lambda>master.
     rbind (require_text (item_code tray) ''item_code'') (\<lambda>item.
     rbind (ensure (inspection_master_item_code label_fields \<in> {[], item})
       (PayloadValueError ''master_label_fields CLC must match item_code'')) (\<lambda>_.
     rbind (check_label_quantity label_fields tray_capacity) (\<lambda>_.
     add_inspection_trace (inspection_trace_from_master_label_fields C master label_fields)
       (tray_complete_fields L tray label_fields end_time))))))))"

definition build_scan_ok_detail :: "string \<Rightarrow> pyval \<Rightarrow> int \<Rightarrow> string \<Rightarrow> payload_error + json" where
  "build_scan_ok_detail barcode interval_sec scan_position version =
     rbind (require_text barcode ''product_barcode'') (\<lambda>product_barcode.
     rbind (require_non_negative_finite_number interval_sec ''interval_sec'') (\<lambda>interval.
     rbind (require_positive_int scan_position ''scan_position'') (\<lambda>position.
     rbind (require_text version ''scan_contract_version'') (\<lambda>contract_version.
     Inr [(''barcode'', VStr product_barcode), (''interval_sec'', VStr (format_2f interval)),
          (''scan_position'', VInt position), (''barcode_role'', VStr ''product''),
          (''raw_barcode'', VStr product_barcode), (''parsed_barcode'', VStr product_barcode),
          (''product_barcode'', VStr product_barcode), (''scan_contract_version'', VStr contract_version)]))))"

subsection \<open>Replacing a label\<close>

definition corrected_product_barcodes ::
  "json \<Rightarrow> string list \<Rightarrow> string list \<Rightarrow> payload_error + string list" where
  "corrected_product_barcodes details additional removed =
     rbind (product_barcodes_from_completion details) (\<lambda>original.
       let corrected = original @ additional
       in Inr (if removed \<noteq> [] then filter (\<lambda>b. b \<notin> set removed) corrected else corrected))"

definition replacement_item_code :: "json \<Rightarrow> fields \<Rightarrow> string" where
  "replacement_item_code details new_fields =
     (case find (\<lambda>key. strip (str_or_empty (vget details key)) \<noteq> []) [''item_code'', ''item'', ''product_code''] of
        Some key \<Rightarrow> strip (str_or_empty (vget details key))
      | None \<Rightarrow> inspection_master_item_code new_fields)"

definition barcodes_without_item_code :: "string list \<Rightarrow> string \<Rightarrow> string list" where
  "barcodes_without_item_code barcodes item =
     (if strip item = [] then [] else filter (\<lambda>b. \<not> in_text (strip item) b) barcodes)"

definition validate_replacement_delta ::
  "json \<Rightarrow> string list \<Rightarrow> string list \<Rightarrow> int option \<Rightarrow> string \<Rightarrow> payload_error + unit" where
  "validate_replacement_delta details added removed new_qty expected_item =
     rbind (product_barcodes_from_completion details) (\<lambda>original.
     rbind (ensure (distinct added)
       (PayloadValueError ''replacement additional product barcodes must be unique'')) (\<lambda>_.
     rbind (ensure (distinct removed)
       (PayloadValueError ''replacement removed product barcodes must be unique'')) (\<lambda>_.
     rbind (ensure (set removed \<subseteq> set original)
       (PayloadValueError ''replacement removed product barcode is not in original completion'')) (\<lambda>_.
     rbind (ensure (set added \<inter> set original = {})
       (PayloadValueError ''replacement additional product barcode already exists in original completion'')) (\<lambda>_.
     rbind (corrected_product_barcodes details added removed) (\<lambda>corrected.
     rbind (ensure (barcodes_without_item_code added expected_item = [])
       (PayloadValueError ''replacement additional product barcode item_code mismatch'')) (\<lambda>_.
     rbind (ensure (barcodes_without_item_code corrected expected_item = [])
       (PayloadValueError ''replacement corrected product barcode item_code mismatch'')) (\<lambda>_.
     ensure (case new_qty of None \<Rightarrow> True | Some n \<Rightarrow> n = int (length corrected))
       (PayloadValueError ''replacement corrected barcode count does not match new quantity'')))))))))"

text \<open>Where the completed event stands in its source file.\<close>

record event_source =
  source_system :: string
  source_transport_or_dataset :: string
  source_file_id :: string
  source_row_number :: int
  source_byte_offset :: pyval

definition source_members :: "event_source \<Rightarrow> json" where
  "source_members src =
     [(''source_system'', VStr (source_system src)),
      (''source_transport_or_dataset'', VStr (source_transport_or_dataset src)),
      (''source_file_id'', VStr (source_file_id src)),
      (''source_row_number'', VInt (source_row_number src)),
      (''source_byte_offset'', source_byte_offset src)]"

fun py_or :: "pyval list \<Rightarrow> pyval" where
  "py_or [] = VNone"
| "py_or [v] = v"
| "py_or (v # vs) = (if truthy v then v else py_or vs)"

definition replaced_trace_keys :: "string list" where
  "replaced_trace_keys = [''master_label_fields'', ''input_tag_id'', ''input_tag_label_id'',
     ''input_tag_core_hash'', ''input_tag_label_hash'', ''inspection_trace'']"

text \<open>The corrected completion: label, item, barcodes, counts and the trace of the new label.\<close>

definition base_corrected_details :: "json \<Rightarrow> string \<Rightarrow> string \<Rightarrow> json" where
  "base_corrected_details original new_label expected_item =
     (let d = fold dremove replaced_trace_keys (dset ''master_label_code'' (VStr new_label) original)
      in if expected_item \<noteq> [] \<and> strip (str_or_empty (vget d ''item_code'')) = []
         then dset ''item_code'' (VStr expected_item) d else d)"

definition with_corrected_barcodes :: "string list \<Rightarrow> json \<Rightarrow> json" where
  "with_corrected_barcodes corrected d =
     dupdate d
       [(''scanned_product_barcodes'', VList (map VStr corrected)),
        (''product_barcodes'', VList (map VStr corrected)),
        (''scan_count'', VInt (int (length corrected))),
        (''barcode_count'', VInt (int (card (set corrected))))]"

definition with_new_label :: "qr_codecs \<Rightarrow> string \<Rightarrow> fields \<Rightarrow> json \<Rightarrow> payload_error + json" where
  "with_new_label C new_label new_fields d =
     (if new_fields = [] then Inr d
      else rbind (add_inspection_trace (inspection_trace_from_master_label_fields C new_label new_fields)
             (dset ''master_label_fields'' (fields_value new_fields) d)) (\<lambda>d.
        Inr (case parse_positive_quantity new_fields None of
            None \<Rightarrow> d
          | Some capacity \<Rightarrow> dset ''tray_capacity'' (VInt capacity) d)))"

definition hash_or_error :: "(json \<Rightarrow> string option) \<Rightarrow> json \<Rightarrow> payload_error + string" where
  "hash_or_error hash_func d =
     (case hash_func d of None \<Rightarrow> Inl (PayloadValueError ''not canonical JSON'') | Some h \<Rightarrow> Inr h)"

definition opt_int :: "int option \<Rightarrow> pyval" where
  "opt_int n = (case n of None \<Rightarrow> VNone | Some k \<Rightarrow> VInt k)"

definition replacement_detail :: "json \<Rightarrow> string \<Rightarrow> string \<Rightarrow> event_source \<Rightarrow> string \<Rightarrow> int option \<Rightarrow> int option \<Rightarrow>
    string list \<Rightarrow> string list \<Rightarrow> string \<Rightarrow> string list \<Rightarrow> json \<Rightarrow> string \<Rightarrow> string \<Rightarrow> string \<Rightarrow> string \<Rightarrow> string \<Rightarrow> json" where
  "replacement_detail original old_label new_label src operator old_qty new_qty added removed
       expected_item corrected details old_hash new_hash old_row new_row evidence =
     [(''transfer_id'', py_or [vget original ''transfer_id'', vget original ''bundle_id'',
         vget original ''packaging_set_identity'']),
      (''item_code'', py_or [VStr expected_item, vget original ''item_code'', vget original ''item'',
         vget original ''product_code'']),
      (''product_barcodes'', VList (map VStr corrected)),
      (''old_master_label'', VStr old_label), (''new_master_label'', VStr new_label),
      (''original_event_identity'', VDict (source_members src @
         [(''row_hash'', VStr old_row), (''raw_event_name'', VStr ''TRAY_COMPLETE'')])),
      (''supersedes_identity'', VDict (source_members src @
         [(''row_hash'', VStr old_row), (''old_payload_hash'', VStr old_hash)])),
      (''old_qty'', opt_int old_qty), (''new_qty'', opt_int new_qty),
      (''added_product_barcodes'', VList (map VStr added)),
      (''removed_product_barcodes'', VList (map VStr removed)),
      (''projection_schema_version'', VStr ''container-audit-corrected-completion-v1''),
      (''corrected_completion_projection'', VDict details),
      (''old_payload_hash'', VStr old_hash), (''new_payload_hash'', VStr new_hash),
      (''old_row_hash'', VStr old_row), (''new_row_hash'', VStr new_row),
      (''reason'', VStr ''operator_master_label_replacement''), (''operator'', VStr operator),
      (''evidence_hash'', VStr evidence)]"

definition build_master_label_replacement_detail ::
  "qr_codecs \<Rightarrow> (json \<Rightarrow> string option) \<Rightarrow> json \<Rightarrow> string \<Rightarrow> string \<Rightarrow> event_source \<Rightarrow> string \<Rightarrow>
   string option \<Rightarrow> int option \<Rightarrow> int option \<Rightarrow> string list \<Rightarrow> string list \<Rightarrow> payload_error + json" where
  "build_master_label_replacement_detail C hash_func original old_label new_label src operator
       old_row_hash old_qty new_qty added removed =
     (let original_label = strip (str_or_empty (vget original ''master_label_code''));
          new_fields = qr_fields C new_label;
          expected_item = replacement_item_code original new_fields;
          new_item = inspection_master_item_code new_fields;
          base = base_corrected_details original new_label expected_item
      in
      rbind (ensure (original_label = [] \<or> old_label = [] \<or>
          canonical_master_label_key C original_label = canonical_master_label_key C old_label)
        (PayloadValueError ''replacement old master label does not match original completion'')) (\<lambda>_.
      rbind (ensure (expected_item = [] \<or> new_item = [] \<or> expected_item = new_item)
        (PayloadValueError ''replacement new master label item_code does not match corrected item_code'')) (\<lambda>_.
      rbind (validate_replacement_delta original added removed new_qty expected_item) (\<lambda>_.
      rbind (corrected_product_barcodes base added removed) (\<lambda>corrected.
      rbind (with_new_label C new_label new_fields (with_corrected_barcodes corrected base)) (\<lambda>details.
      rbind (hash_or_error hash_func original) (\<lambda>old_hash.
      rbind (hash_or_error hash_func details) (\<lambda>new_hash.
      let old_row = (case old_row_hash of None \<Rightarrow> old_hash | Some h \<Rightarrow> if h = [] then old_hash else h) in
      rbind (hash_or_error hash_func (source_members src @ [(''payload_hash'', VStr new_hash)])) (\<lambda>new_row.
      rbind (hash_or_error hash_func
        [(''old_payload_hash'', VStr old_hash), (''new_payload_hash'', VStr new_hash),
         (''operator'', VStr operator), (''source_file_id'', VStr (source_file_id src)),
         (''source_row_number'', VInt (source_row_number src))]) (\<lambda>evidence.
      Inr (replacement_detail original old_label new_label src operator old_qty new_qty added removed
        expected_item corrected details old_hash new_hash old_row new_row evidence)))))))))))"

subsection \<open>Facts\<close>

lemma require_text_ok: "require_text v n = Inr x \<longleftrightarrow> x = v \<and> strip v \<noteq> []"
  by (auto simp: require_text_def)

lemma require_positive_int_ok: "require_positive_int n k = Inr m \<longleftrightarrow> m = n \<and> 0 < n"
  by (auto simp: require_positive_int_def)

lemma validated_barcodes_ok: "validated_scanned_barcodes bs = Inr x \<longleftrightarrow> x = bs \<and> distinct bs"
  by (auto simp: validated_scanned_barcodes_def)

lemma dget_filter_nonempty:
  "distinct (dkeys d) \<Longrightarrow> dget (filter (\<lambda>(k, v). v \<noteq> []) d) j =
     (case dget d j of None \<Rightarrow> None | Some v \<Rightarrow> if v = [] then None else Some v)"
proof (induction d)
  case (Cons kv d)
  obtain k v where kv: "kv = (k, v)" by (cases kv)
  have "dget d k = None" using Cons.prems kv by (simp add: dget_None_iff)
  with Cons kv show ?case by auto
qed simp

lemma trace_field:
  "dget (inspection_trace_from_master_label_fields C l fs) ''input_tag_id'' =
     (if stripped_field fs ''ITG'' = [] then None else Some (stripped_field fs ''ITG''))"
  "field (inspection_trace_from_master_label_fields C l fs) ''input_tag_label_id'' = stripped_field fs ''LBL''"
  "field (inspection_trace_from_master_label_fields C l fs) ''input_tag_core_hash'' = stripped_field fs ''HSH_CORE''"
  "field (inspection_trace_from_master_label_fields C l fs) ''input_tag_label_hash'' = stripped_field fs ''HSH_LABEL''"
  unfolding inspection_trace_from_master_label_fields_def Let_def field_def
  by (subst dget_filter_nonempty; simp)+

lemma setdefault_other: "j \<noteq> k \<Longrightarrow> vget (setdefault k v d) j = vget d j"
  by (simp add: setdefault_def)

lemma add_trace_other:
  assumes "add_inspection_trace tr d = Inr d'" "j \<notin> set trace_tag_keys"
    "j \<noteq> ''source_session_id''" "j \<noteq> ''inspection_trace''"
  shows "vget d' j = vget d j"
proof -
  have "j \<notin> set (dkeys (map (\<lambda>key. (key, VStr (field tr key))) (filter (\<lambda>key. key \<in> set (dkeys tr)) trace_tag_keys)))"
    using assms(2) by (auto simp: comp_def)
  with assms(1,3,4) show ?thesis
    by (auto simp: add_inspection_trace_def Let_def setdefault_other vget_dupdate_other
        split: if_splits option.splits)
qed

lemma aliases_texts:
  "non_empty_aliases d keys = Inr al \<Longrightarrow> (k, ss) \<in> set al \<Longrightarrow> vget d k = VList (map VStr ss) \<and> ss \<noteq> []"
  by (induction keys arbitrary: al) (auto simp: result_simps as_texts_eq split: option.splits if_splits)

lemma product_barcodes_ok:
  "product_barcodes_from_completion d = Inr bs \<longleftrightarrow>
     (\<exists>al. non_empty_aliases d barcode_aliases = Inr al \<and>
        (al = [] \<and> bs = [] \<or> al \<noteq> [] \<and> (\<forall>(k, ss) \<in> set al. ss = bs) \<and> distinct bs))"
proof (cases "non_empty_aliases d barcode_aliases")
  case (Inr al)
  show ?thesis
  proof (cases al)
    case (Cons kv rest)
    obtain k ss where kv: "kv = (k, ss)" by (cases kv)
    show ?thesis
    proof (cases "find (\<lambda>(key, values). values \<noteq> ss) rest")
      case None
      then have "\<forall>(k, v) \<in> set rest. v = ss" by (auto simp: find_None_iff)
      then show ?thesis
        using Inr Cons kv None by (auto simp: product_barcodes_from_completion_def)
    next
      case (Some kv')
      then obtain k' v' where "(k', v') \<in> set rest" "v' \<noteq> ss" "kv' = (k', v')"
        by (cases kv') (force simp: find_Some_iff in_set_conv_nth)
      then show ?thesis
        using Inr Cons kv Some by (auto simp: product_barcodes_from_completion_def)
    qed
  qed (use Inr in \<open>auto simp: product_barcodes_from_completion_def\<close>)
qed (simp add: product_barcodes_from_completion_def)

lemma product_barcodes_distinct: "product_barcodes_from_completion d = Inr bs \<Longrightarrow> distinct bs"
  by (auto simp: product_barcodes_ok)

lemma dget_dremove_other: "j \<noteq> k \<Longrightarrow> dget (dremove k d) j = dget d j"
  by (induction k d rule: dremove.induct) auto

lemma vget_fold_dremove: "j \<notin> set ks \<Longrightarrow> vget (fold dremove ks d) j = vget d j"
  by (induction ks arbitrary: d) (simp_all add: vget_def dget_dremove_other)

lemma base_corrected_other:
  "j \<notin> set replaced_trace_keys \<Longrightarrow> j \<noteq> ''master_label_code'' \<Longrightarrow> j \<noteq> ''item_code'' \<Longrightarrow>
     vget (base_corrected_details original new_label item) j = vget original j"
  by (simp add: base_corrected_details_def Let_def vget_fold_dremove)

lemma base_corrected_barcodes:
  "product_barcodes_from_completion (base_corrected_details original new_label item) =
   product_barcodes_from_completion original"
proof -
  have "non_empty_aliases (base_corrected_details original new_label item) ks = non_empty_aliases original ks"
    if "set ks \<subseteq> set barcode_aliases" for ks
    using that by (induction ks) (auto simp: barcode_aliases_def base_corrected_other replaced_trace_keys_def split: option.split)
  then show ?thesis by (simp add: product_barcodes_from_completion_def)
qed

lemma with_new_label_other:
  assumes "with_new_label C l fs d = Inr d'" "j \<in> set barcode_aliases \<union> {''scan_count'', ''barcode_count''}"
  shows "vget d' j = vget d j"
  using assms add_trace_other [where j = j]
  by (auto simp: with_new_label_def result_simps barcode_aliases_def trace_tag_keys_def
      split: if_splits option.splits)

lemma corrected_eq:
  "corrected_product_barcodes d added removed = Inr c \<longleftrightarrow>
     (\<exists>bs. product_barcodes_from_completion d = Inr bs \<and> c = filter (\<lambda>b. b \<notin> set removed) (bs @ added))"
  by (auto simp: corrected_product_barcodes_def result_simps Let_def)

text \<open>What a successful replacement consists of.\<close>

lemma replacement_parts:
  assumes "build_master_label_replacement_detail C hf original old_label new_label src operator
      row old_qty new_qty added removed = Inr r"
  obtains bs corrected details where "product_barcodes_from_completion original = Inr bs"
    "corrected = filter (\<lambda>b. b \<notin> set removed) (bs @ added)"
    "distinct added" "set removed \<subseteq> set bs" "set added \<inter> set bs = {}"
    "barcodes_without_item_code corrected (replacement_item_code original (qr_fields C new_label)) = []"
    "\<forall>n. new_qty = Some n \<longrightarrow> n = int (length corrected)"
    "with_new_label C new_label (qr_fields C new_label) (with_corrected_barcodes corrected
       (base_corrected_details original new_label (replacement_item_code original (qr_fields C new_label)))) = Inr details"
    "vget r ''product_barcodes'' = VList (map VStr corrected)"
    "vget r ''corrected_completion_projection'' = VDict details"
proof -
  let ?base = "base_corrected_details original new_label (replacement_item_code original (qr_fields C new_label))"
  from assms obtain corrected details where
    v: "validate_replacement_delta original added removed new_qty (replacement_item_code original (qr_fields C new_label)) = Inr ()"
    and c: "corrected_product_barcodes ?base added removed = Inr corrected"
    and d: "with_new_label C new_label (qr_fields C new_label) (with_corrected_barcodes corrected ?base) = Inr details"
    and r: "vget r ''product_barcodes'' = VList (map VStr corrected)"
      "vget r ''corrected_completion_projection'' = VDict details"
    by (auto simp: build_master_label_replacement_detail_def Let_def result_simps replacement_detail_def
        simp del: rbind_ensure)
  from v obtain bs where
    b: "product_barcodes_from_completion original = Inr bs" "distinct added" "set removed \<subseteq> set bs"
      "set added \<inter> set bs = {}" and
    q: "\<exists>c. corrected_product_barcodes original added removed = Inr c \<and>
      barcodes_without_item_code c (replacement_item_code original (qr_fields C new_label)) = [] \<and>
      (case new_qty of None \<Rightarrow> True | Some n \<Rightarrow> n = int (length c))"
    by (auto simp: validate_replacement_delta_def result_simps simp del: rbind_ensure)
  have "corrected = filter (\<lambda>b. b \<notin> set removed) (bs @ added)"
    using c b(1) by (simp add: corrected_eq base_corrected_barcodes)
  with b(1) q that [OF b(1) _ b(2-4) _ _ d r] show thesis
    by (auto simp: corrected_eq split: option.splits)
qed

lemma barcodes_without_item_code_ok:
  "barcodes_without_item_code bs i = [] \<longleftrightarrow> strip i = [] \<or> (\<forall>b \<in> set bs. in_text (strip i) b)"
  by (auto simp: barcodes_without_item_code_def filter_empty_conv)

subsection \<open>Properties\<close>

text \<open>
  C34. A completion event states the tray: when the detail is built, it lists exactly the scanned
  barcodes, they are distinct and at most as many as the tray holds, a quantity on the label
  equals the capacity, and reading the barcodes of the event back gives the barcodes of the tray.
\<close>

theorem tray_complete_detail_states_tray:
  assumes "build_tray_complete_detail C L t label_fields e = Inr d"
  shows "product_barcodes_from_completion d = Inr (scanned_barcodes t) \<and>
    vget d ''scan_count'' = VInt (int (length (scanned_barcodes t))) \<and>
    vget d ''tray_capacity'' = VInt (tray_size t) \<and> int (length (scanned_barcodes t)) \<le> tray_size t \<and>
    vget d ''item_code'' = VStr (item_code t) \<and> vget d ''master_label_code'' = VStr (master_label_code t) \<and>
    (\<forall>n. raw_quantity label_fields \<noteq> [] \<and> parse_positive_quantity label_fields None = Some n \<longrightarrow> n = tray_size t)"
proof -
  obtain d0 where d: "add_inspection_trace (inspection_trace_from_master_label_fields C (master_label_code t) label_fields) d0 = Inr d"
    and al: "vget d0 ''product_barcodes'' = VList (map VStr (scanned_barcodes t))"
      "vget d0 ''scanned_product_barcodes'' = VList (map VStr (scanned_barcodes t))" "vget d0 ''scanned_barcodes'' = VNone"
    and v: "vget d0 ''scan_count'' = VInt (int (length (scanned_barcodes t)))" "vget d0 ''tray_capacity'' = VInt (tray_size t)"
      "vget d0 ''item_code'' = VStr (item_code t)" "vget d0 ''master_label_code'' = VStr (master_label_code t)"
    and b: "distinct (scanned_barcodes t)" "int (length (scanned_barcodes t)) \<le> tray_size t"
    and q: "check_label_quantity label_fields (tray_size t) = Inr ()"
    using assms
    by (auto simp: build_tray_complete_detail_def tray_complete_fields_def result_simps validated_barcodes_ok require_positive_int_ok
        require_text_ok simp del: rbind_ensure)
  note other = add_trace_other [OF d]
  have keys: "vget d k = vget d0 k" if "k \<in> set barcode_aliases \<union> {''scan_count'', ''tray_capacity'', ''item_code'', ''master_label_code''}" for k
    using that by (intro other) (auto simp: trace_tag_keys_def barcode_aliases_def)
  have "product_barcodes_from_completion d = Inr (scanned_barcodes t)"
    using al b(1) by (auto simp: product_barcodes_ok barcode_aliases_def keys)
  moreover have "n = tray_size t" if "raw_quantity label_fields \<noteq> []" "parse_positive_quantity label_fields None = Some n" for n
  proof -
    have "strip (raw_quantity label_fields) \<noteq> []"
      using that by (auto simp: parse_positive_quantity_def int_of_text_def Let_def split: option.splits if_splits)
    then have "list_ex (\<lambda>key. stripped_field label_fields key \<noteq> []) [''QT'', ''QTY'', ''QUANTITY'']"
      by (auto simp: raw_quantity_def stripped_field_def split: if_splits)
    with q that(2) show ?thesis by (simp add: check_label_quantity_def ensure_eq_Inr)
  qed
  ultimately show ?thesis using v b keys by auto
qed

lemma Inr_if_not_isl: "\<not> isl x \<Longrightarrow> \<exists>y. x = Inr y"
  by (cases x) auto

theorem tray_complete_detail_states_tray_witness:
  "\<exists>d. build_tray_complete_detail no_codecs demo_iso demo_tray [] \<lparr>wall = 20, utc_offset = None\<rparr> = Inr d \<and>
     product_barcodes_from_completion d = Inr [''AB-1'']"
proof -
  have "\<not> isl (build_tray_complete_detail no_codecs demo_iso demo_tray [] \<lparr>wall = 20, utc_offset = None\<rparr>)"
    by code_simp
  then obtain d where d: "build_tray_complete_detail no_codecs demo_iso demo_tray [] \<lparr>wall = 20, utc_offset = None\<rparr> = Inr d"
    using Inr_if_not_isl by blast
  from tray_complete_detail_states_tray [OF d] d show ?thesis by (simp add: demo_tray_def)
qed

text \<open>
  A label replacement corrects the product list as asked: the corrected barcodes are the
  original ones and the added ones without the removed ones, without repetitions, each contains
  the item code when one is known, and their number is the new quantity when one is given.
\<close>

theorem replacement_corrects_barcodes:
  assumes "build_master_label_replacement_detail C hash_func original old_label new_label src operator
      row old_qty new_qty added removed = Inr r"
  shows "\<exists>bs. product_barcodes_from_completion original = Inr bs \<and>
    vget r ''product_barcodes'' = VList (map VStr (filter (\<lambda>b. b \<notin> set removed) (bs @ added))) \<and>
    distinct (bs @ added) \<and> set removed \<subseteq> set bs \<and>
    (let item = replacement_item_code original (qr_fields C new_label) in
      strip item \<noteq> [] \<longrightarrow> (\<forall>b \<in> set (filter (\<lambda>b. b \<notin> set removed) (bs @ added)). in_text (strip item) b)) \<and>
    (\<forall>n. new_qty = Some n \<longrightarrow> n = int (length (filter (\<lambda>b. b \<notin> set removed) (bs @ added))))"
  using assms
proof (rule replacement_parts)
  fix bs corrected details
  assume "product_barcodes_from_completion original = Inr bs" "corrected = filter (\<lambda>b. b \<notin> set removed) (bs @ added)"
    "distinct added" "set removed \<subseteq> set bs" "set added \<inter> set bs = {}"
    "barcodes_without_item_code corrected (replacement_item_code original (qr_fields C new_label)) = []"
    "\<forall>n. new_qty = Some n \<longrightarrow> n = int (length corrected)"
    "vget r ''product_barcodes'' = VList (map VStr corrected)"
  then show ?thesis
    using product_barcodes_distinct [of original bs]
    by (intro exI [of _ bs]) (auto simp: barcodes_without_item_code_ok Let_def)
qed

definition demo_source :: event_source where
  "demo_source = \<lparr>source_system = ''s'', source_transport_or_dataset = ''t'', source_file_id = ''f'',
     source_row_number = 1, source_byte_offset = VNone\<rparr>"

theorem replacement_corrects_barcodes_witness:
  "\<exists>r. build_master_label_replacement_detail no_codecs (\<lambda>_. Some ''h'')
       [(''product_barcodes'', VList [VStr ''AB-1'', VStr ''AB-2''])] [] ''NEW'' demo_source ''kim'' None None (Some 2)
       [''AB-3''] [''AB-1''] = Inr r \<and> vget r ''product_barcodes'' = VList [VStr ''AB-2'', VStr ''AB-3'']"
proof -
  let ?b = "build_master_label_replacement_detail no_codecs (\<lambda>_. Some ''h'')
       [(''product_barcodes'', VList [VStr ''AB-1'', VStr ''AB-2''])] [] ''NEW'' demo_source ''kim'' None None (Some 2)
       [''AB-3''] [''AB-1'']"
  have "\<not> isl ?b" by code_simp
  then obtain r where r: "?b = Inr r" using Inr_if_not_isl by blast
  have "product_barcodes_from_completion [(''product_barcodes'', VList [VStr ''AB-1'', VStr ''AB-2''])] = Inr [''AB-1'', ''AB-2'']"
    by code_simp
  with replacement_corrects_barcodes [OF r] r show ?thesis by auto
qed

text \<open>
  A label with a label id or a hash but no input tag makes the completion fail: building the
  detail of an otherwise valid tray then raises a \<open>KeyError\<close> for \<open>input_tag_id\<close>, not a
  \<open>ValueError\<close> about the label.
\<close>

theorem label_without_tag_key_error:
  assumes "distinct (scanned_barcodes t)" "0 < tray_size t" "int (length (scanned_barcodes t)) \<le> tray_size t"
    "strip (master_label_code t) \<noteq> []" "strip (item_code t) \<noteq> []"
    "inspection_master_item_code label_fields \<in> {[], item_code t}"
    "check_label_quantity label_fields (tray_size t) = Inr ()"
    "stripped_field label_fields ''ITG'' = []"
    "\<exists>key \<in> {''LBL'', ''HSH_CORE'', ''HSH_LABEL''}. stripped_field label_fields key \<noteq> []"
  shows "build_tray_complete_detail C L t label_fields e = Inl (PayloadKeyError ''input_tag_id'')"
proof -
  let ?tr = "inspection_trace_from_master_label_fields C (master_label_code t) label_fields"
  have "dget ?tr ''input_tag_id'' = None"
    using assms(8) by (simp add: trace_field)
  moreover have "list_ex (\<lambda>key. field ?tr key \<noteq> []) trace_tag_keys"
    using assms(9) by (auto simp: trace_tag_keys_def trace_field)
  ultimately have "add_inspection_trace ?tr d = Inl (PayloadKeyError ''input_tag_id'')" for d
    by (simp add: add_inspection_trace_def)
  with assms(1-7) show ?thesis
    by (simp add: build_tray_complete_detail_def validated_scanned_barcodes_def require_positive_int_def
        require_text_def)
qed

theorem label_without_tag_key_error_witness:
  "build_tray_complete_detail no_codecs demo_iso demo_tray [(''CLC'', ''AB''), (''LBL'', ''9'')]
     \<lparr>wall = 20, utc_offset = None\<rparr> = Inl (PayloadKeyError ''input_tag_id'')"
proof (rule label_without_tag_key_error)
  show "\<exists>key\<in>{''LBL'', ''HSH_CORE'', ''HSH_LABEL''}. stripped_field [(''CLC'', ''AB''), (''LBL'', ''9'')] key \<noteq> []"
    by (rule bexI [of _ "''LBL''"]) (code_simp, simp)
qed code_simp+

text \<open>
  C35. A second correction can be blocked by the first: if the original completion also listed its
  barcodes under \<open>scanned_barcodes\<close> and the replacement changes the list to another non-empty
  one, the corrected completion contradicts itself, and reading its barcodes raises the alias
  conflict.
\<close>

theorem replacement_leaves_stale_alias:
  assumes "build_master_label_replacement_detail C hash_func original old_label new_label src operator
      row old_qty new_qty added removed = Inr r"
    "vget original ''scanned_barcodes'' = VList (map VStr old)" "old \<noteq> []"
    "vget r ''product_barcodes'' = VList (map VStr corrected)" "corrected \<noteq> []" "corrected \<noteq> old"
  shows "\<exists>details e. vget r ''corrected_completion_projection'' = VDict details \<and>
    product_barcodes_from_completion details = Inl e"
  using assms(1)
proof (rule replacement_parts)
  fix bs corrected' details
  let ?base = "base_corrected_details original new_label (replacement_item_code original (qr_fields C new_label))"
  assume d: "with_new_label C new_label (qr_fields C new_label) (with_corrected_barcodes corrected' ?base) = Inr details"
    and r: "vget r ''product_barcodes'' = VList (map VStr corrected')"
      "vget r ''corrected_completion_projection'' = VDict details"
  have c: "corrected' = corrected" using r(1) assms(4) as_texts_map by (metis pyval.inject(5) option.inject)
  have "vget details ''product_barcodes'' = VList (map VStr corrected)"
    "vget details ''scanned_barcodes'' = VList (map VStr old)"
    using with_new_label_other [OF d] assms(2)
    by (simp_all add: barcode_aliases_def with_corrected_barcodes_def base_corrected_other replaced_trace_keys_def c)
  then have "product_barcodes_from_completion details \<noteq> Inr x" for x
    using assms(3,5,6)
    by (auto simp: product_barcodes_ok barcode_aliases_def result_simps split: option.splits if_splits)
  then show ?thesis using r(2) by (cases "product_barcodes_from_completion details") auto
qed

theorem replacement_leaves_stale_alias_witness:
  "\<exists>r details e. build_master_label_replacement_detail no_codecs (\<lambda>_. Some ''h'')
       [(''scanned_barcodes'', VList [VStr ''AB-1''])] [] ''NEW'' demo_source ''kim'' None None None
       [''AB-3''] [] = Inr r \<and> vget r ''corrected_completion_projection'' = VDict details \<and>
     product_barcodes_from_completion details = Inl e"
proof -
  let ?o = "[(''scanned_barcodes'', VList [VStr ''AB-1''])]"
  let ?b = "build_master_label_replacement_detail no_codecs (\<lambda>_. Some ''h'') ?o [] ''NEW'' demo_source ''kim'' None None None [''AB-3''] []"
  have "\<not> isl ?b" by code_simp
  then obtain r where r: "?b = Inr r" using Inr_if_not_isl by blast
  have "vget (projr ?b) ''product_barcodes'' = VList [VStr ''AB-1'', VStr ''AB-3'']" by code_simp
  then have "vget r ''product_barcodes'' = VList (map VStr [''AB-1'', ''AB-3''])" using r by simp
  from replacement_leaves_stale_alias [OF r _ _ this, of "[''AB-1'']"] r show ?thesis by auto
qed

end
