(* ===== verification/Machines.thy ===== *)
theory Machines
  imports Main
begin

text \<open>
  The contracts of the components whose state survives in files and is changed by calls in any
  order. A component proves the laws for one call and gets the conclusions for every sequence of
  calls.
\<close>

subsection \<open>Machines that refine an abstract machine\<close>

text \<open>An invariant every call keeps, and an abstract machine every call refines.\<close>

locale refining_machine =
  fixes call :: "'c \<Rightarrow> 's \<Rightarrow> 's"
    and invar :: "'s \<Rightarrow> bool"
    and abstract :: "'s \<Rightarrow> 'a"
    and spec :: "'a \<Rightarrow> 'a \<Rightarrow> bool"
  assumes call_invar: "invar s \<Longrightarrow> invar (call c s)"
    and call_refines: "invar s \<Longrightarrow> spec\<^sup>*\<^sup>* (abstract s) (abstract (call c s))"
begin

lemma run_invar: "invar s \<Longrightarrow> invar (fold call cs s)"
  by (induction cs arbitrary: s) (simp_all add: call_invar)

lemma run_refines: "invar s \<Longrightarrow> spec\<^sup>*\<^sup>* (abstract s) (abstract (fold call cs s))"
proof (induction cs arbitrary: s)
  case (Cons c cs)
  then have "spec\<^sup>*\<^sup>* (abstract (call c s)) (abstract (fold call cs (call c s)))"
    by (simp add: call_invar)
  with call_refines [OF Cons.prems, of c] show ?case by (simp add: rtranclp_trans)
qed simp

lemma run_keeps:
  assumes "invar s" "P (abstract s)" "\<And>a b. P a \<Longrightarrow> spec a b \<Longrightarrow> P b"
  shows "P (abstract (fold call cs s))"
  using run_refines [OF assms(1), of cs]
  by (induction rule: rtranclp_induct) (use assms(2,3) in auto)

end

subsection \<open>Stores that conserve their entries\<close>

text \<open>A sequence of commands, with everything admitted and released on the way.\<close>

fun run_steps :: "('c \<Rightarrow> 's \<Rightarrow> 's \<times> 'a list \<times> 'a list) \<Rightarrow> 'c list \<Rightarrow> 's \<Rightarrow> 's \<times> 'a list \<times> 'a list" where
  "run_steps step [] s = (s, [], [])"
| "run_steps step (c # cs) s =
     (case step c s of (s', adm, rel) \<Rightarrow>
        (case run_steps step cs s' of (s'', adm', rel') \<Rightarrow> (s'', adm @ adm', rel @ rel')))"

text \<open>
  A store that neither loses, repeats nor reorders entries: what it held and what it admits is
  what it releases and still holds.
\<close>

locale conserving_store =
  fixes step :: "'c \<Rightarrow> 's \<Rightarrow> 's \<times> 'a list \<times> 'a list"
    and contents :: "'s \<Rightarrow> 'a list"
    and invar :: "'s \<Rightarrow> bool"
    and admissible :: "'c \<Rightarrow> bool"
  assumes step_invar: "invar s \<Longrightarrow> admissible c \<Longrightarrow> step c s = (s', adm, rel) \<Longrightarrow> invar s'"
    and step_conserves: "invar s \<Longrightarrow> admissible c \<Longrightarrow> step c s = (s', adm, rel) \<Longrightarrow>
      contents s @ adm = rel @ contents s'"
begin

lemma run_conserves:
  "invar s \<Longrightarrow> list_all admissible cs \<Longrightarrow> run_steps step cs s = (s', adm, rel) \<Longrightarrow>
     invar s' \<and> contents s @ adm = rel @ contents s'"
proof (induction cs arbitrary: s s' adm rel)
  case (Cons c cs)
  obtain t a r where st: "step c s = (t, a, r)" by (metis prod_cases3)
  obtain u a' r' where rn: "run_steps step cs t = (u, a', r')" by (metis prod_cases3)
  from Cons.prems have c: "admissible c" and cs: "list_all admissible cs" by simp_all
  have t: "invar t" using step_invar [OF Cons.prems(1) c st] .
  have e: "contents s @ a = r @ contents t" using step_conserves [OF Cons.prems(1) c st] .
  have IH: "invar u \<and> contents t @ a' = r' @ contents u" using Cons.IH [OF t cs rn] .
  from Cons.prems(3) st rn have eqs: "s' = u" "adm = a @ a'" "rel = r @ r'" by simp_all
  from IH e show ?case unfolding eqs by (metis append.assoc)
qed simp

end

end
