(* ===== verification/Event_Log.thy ===== *)
theory Event_Log
  imports Py_Value Machines
begin

text \<open>
  \<open>event_log_store.py\<close>: the append-only CSV event logs and the outbox that keeps events until
  they are in the log.

  A CSV file is its header and its rows; an absent or empty file is \<^term>\<open>None\<close>. The details cell
  of a row is the JSON value of its text, or \<^term>\<open>None\<close> for a text that is no JSON. A missing
  cell reads as the empty text. The process and interprocess locks make an append one step.
  \<open>append_outcome\<close> is what the file system does: the row is durable, nothing is written (lock
  timeout, writer fence, I/O error), or the row is written and \<open>flush\<close> or \<open>fsync\<close> raises
  afterwards. Torn rows of a power failure are not modelled.

  The outbox directory is the list of its files in the order they were written; a file name starts
  with the sequence number padded to 20 digits, so sorting the names sorts by the number.
\<close>

datatype log_error = LogValueError string | LogIoError

record log_row =
  row_timestamp :: string
  row_worker :: string
  row_event :: string
  row_details :: "pyval option"

record csv_file =
  csv_header :: "string list"
  csv_rows :: "log_row list"

definition EVENT_LOG_HEADERS :: "string list" where
  "EVENT_LOG_HEADERS = [''timestamp'', ''worker_name'', ''event'', ''details'']"

type_synonym log_files = "string \<Rightarrow> csv_file option"

datatype append_outcome = AppendDone | AppendRefused | AppendUnsynced

subsection \<open>Appending\<close>

definition with_row :: "log_row \<Rightarrow> csv_file option \<Rightarrow> csv_file" where
  "with_row row f = (case f of
       None \<Rightarrow> \<lparr>csv_header = EVENT_LOG_HEADERS, csv_rows = [row]\<rparr>
     | Some c \<Rightarrow> c\<lparr>csv_rows := csv_rows c @ [row]\<rparr>)"

definition append_unlocked ::
  "append_outcome \<Rightarrow> string \<Rightarrow> log_row \<Rightarrow> log_files \<Rightarrow> (log_error + unit) \<times> log_files" where
  "append_unlocked out path row files = (case out of
       AppendDone \<Rightarrow> (Inr (), files(path \<mapsto> with_row row (files path)))
     | AppendRefused \<Rightarrow> (Inl LogIoError, files)
     | AppendUnsynced \<Rightarrow> (Inl LogIoError, files(path \<mapsto> with_row row (files path))))"

definition append_event_log_entry ::
  "append_outcome \<Rightarrow> string \<Rightarrow> log_row \<Rightarrow> log_files \<Rightarrow> (log_error + unit) \<times> log_files" where
  "append_event_log_entry out path row files = append_unlocked out path row files"

definition details_key :: "(string, pyval) dict \<Rightarrow> string" where
  "details_key d = strip (str_or_empty (vget d ''idempotency_key''))"

text \<open>Whether a row is the event \<open>ev\<close> with key \<open>key\<close>; the details it then has.\<close>

definition row_match :: "string \<Rightarrow> string \<Rightarrow> log_row \<Rightarrow> (string, pyval) dict option" where
  "row_match ev key row =
     (if strip (row_event row) \<noteq> ev then None
      else case Option.bind (row_details row) as_dict of
          None \<Rightarrow> None
        | Some d \<Rightarrow> (if details_key d \<noteq> key then None else Some d))"

fun find_projection :: "string \<Rightarrow> string \<Rightarrow> (string, pyval) dict \<Rightarrow> log_row list \<Rightarrow> log_error + bool" where
  "find_projection ev key expected [] = Inr False"
| "find_projection ev key expected (row # rows) = (case row_match ev key row of
       None \<Rightarrow> find_projection ev key expected rows
     | Some d \<Rightarrow>
         if \<not> py_eq (VDict d) (VDict expected)
         then Inl (LogValueError ''event log idempotency key has different details'')
         else Inr True)"

definition check_idempotent_entry ::
  "string \<Rightarrow> string \<Rightarrow> log_row \<Rightarrow> log_error + (string, pyval) dict" where
  "check_idempotent_entry ev key row =
     rbind (ensure (ev \<noteq> [] \<and> key \<noteq> []) (LogValueError ''event_type and idempotency_key are required'')) (\<lambda>_.
     rbind (ensure (strip (row_event row) = ev) (LogValueError ''log entry event differs from idempotent event type'')) (\<lambda>_.
     case row_details row of
       None \<Rightarrow> Inl (LogValueError ''idempotent event details must be JSON'')
     | Some v \<Rightarrow> (case as_dict v of
           None \<Rightarrow> Inl (LogValueError ''idempotent event details key is missing or mismatched'')
         | Some d \<Rightarrow> rbind (ensure (details_key d = key)
             (LogValueError ''idempotent event details key is missing or mismatched'')) (\<lambda>_. Inr d))))"

definition append_event_log_entry_idempotent ::
  "append_outcome \<Rightarrow> string \<Rightarrow> log_row \<Rightarrow> string \<Rightarrow> string \<Rightarrow> log_files \<Rightarrow> (log_error + bool) \<times> log_files" where
  "append_event_log_entry_idempotent out path row event_type idempotency_key files =
     (let ev = strip event_type; key = strip idempotency_key in
      case check_idempotent_entry ev key row of
        Inl e \<Rightarrow> (Inl e, files)
      | Inr expected \<Rightarrow>
          (let found = (case files path of
               None \<Rightarrow> Inr False
             | Some c \<Rightarrow>
                 if csv_header c \<noteq> EVENT_LOG_HEADERS then Inl (LogValueError ''event log header is invalid'')
                 else find_projection ev key expected (csv_rows c))
           in case found of
                Inl e \<Rightarrow> (Inl e, files)
              | Inr True \<Rightarrow> (Inr False, files)
              | Inr False \<Rightarrow> (case append_unlocked out path row files of
                    (Inl e, files') \<Rightarrow> (Inl e, files')
                  | (Inr _, files') \<Rightarrow> (Inr True, files'))))"

subsection \<open>The outbox\<close>

record outbox_item =
  item_sequence :: nat
  item_path :: string
  item_row :: log_row

record event_store =
  logs :: log_files
  outbox_dir :: "outbox_item list"
  unstaged :: "(string \<times> log_row) list"
  outbox_sequence :: nat

text \<open>Opening an outbox: the files are there, the memory is empty.\<close>

definition open_outbox :: "event_store \<Rightarrow> event_store" where
  "open_outbox s = s\<lparr>unstaged := [], outbox_sequence := foldr max (map item_sequence (outbox_dir s)) 0\<rparr>"

definition has_unstaged :: "event_store \<Rightarrow> bool" where
  "has_unstaged s \<longleftrightarrow> unstaged s \<noteq> []"

text \<open>
  The loop over the unstaged entries: entry \<open>i\<close> meets the clock and the outcome of its write in
  \<open>env i\<close>; the first failed write ends the loop with the exception.
\<close>

fun persist_loop :: "(nat \<Rightarrow> nat \<times> bool) \<Rightarrow> nat \<Rightarrow> (string \<times> log_row) list \<Rightarrow> event_store \<Rightarrow> bool \<times> event_store" where
  "persist_loop env i [] s = (True, s)"
| "persist_loop env i (p # ps) s =
     (let n = max (outbox_sequence s + 1) (fst (env i)); s' = s\<lparr>outbox_sequence := n\<rparr> in
      if snd (env i) then
        persist_loop env (Suc i) ps
          (s'\<lparr>outbox_dir := outbox_dir s' @ [\<lparr>item_sequence = n, item_path = fst p, item_row = snd p\<rparr>],
              unstaged := ps\<rparr>)
      else (False, s'))"

definition persist_unstaged :: "(nat \<Rightarrow> nat \<times> bool) \<Rightarrow> event_store \<Rightarrow> bool \<times> event_store" where
  "persist_unstaged env s = persist_loop env 0 (unstaged s) s"

definition stage_event :: "(nat \<Rightarrow> nat \<times> bool) \<Rightarrow> string \<Rightarrow> log_row \<Rightarrow> event_store \<Rightarrow> bool \<times> event_store" where
  "stage_event env path row s = persist_unstaged env (s\<lparr>unstaged := unstaged s @ [(path, row)]\<rparr>)"

text \<open>
  Projecting one file: the outcome of the append, of the \<open>fsync\<close> of a row found, and of the
  removal of the file.
\<close>

record projection_outcome =
  appending :: append_outcome
  sync_ok :: bool
  unlink_ok :: bool

definition project_item :: "projection_outcome \<Rightarrow> outbox_item \<Rightarrow> event_store \<Rightarrow> bool \<times> event_store" where
  "project_item out item s =
     (case Option.bind (row_details (item_row item)) as_dict of
        None \<Rightarrow> (False, s)
      | Some detail \<Rightarrow> (case dget detail ''idempotency_key'' of
            None \<Rightarrow> (False, s)
          | Some key \<Rightarrow>
              (case append_event_log_entry_idempotent (appending out) (item_path item) (item_row item)
                      (row_event (item_row item)) (str_or_empty key) (logs s) of
                 (Inl e, files) \<Rightarrow> (False, s\<lparr>logs := files\<rparr>)
               | (Inr appended, files) \<Rightarrow>
                   let s' = s\<lparr>logs := files\<rparr> in
                   if \<not> appended \<and> \<not> sync_ok out then (False, s')
                   else if \<not> unlink_ok out then (False, s')
                   else (True, s'\<lparr>outbox_dir := filter (\<lambda>x. x \<noteq> item) (outbox_dir s')\<rparr>))))"

fun project_loop :: "(nat \<Rightarrow> projection_outcome) \<Rightarrow> nat \<Rightarrow> outbox_item list \<Rightarrow> event_store \<Rightarrow> bool \<times> event_store" where
  "project_loop env i [] s = (True, s)"
| "project_loop env i (x # xs) s = (case project_item (env i) x s of
       (False, s') \<Rightarrow> (False, s')
     | (True, s') \<Rightarrow> project_loop env (Suc i) xs s')"

definition drain :: "(nat \<Rightarrow> nat \<times> bool) \<Rightarrow> (nat \<Rightarrow> projection_outcome) \<Rightarrow> event_store \<Rightarrow> bool \<times> event_store" where
  "drain env penv s = (case persist_unstaged env s of
       (False, s') \<Rightarrow> (False, s')
     | (True, s') \<Rightarrow> project_loop penv 0 (sort_key item_sequence (outbox_dir s')) s')"

subsection \<open>Rows of a log\<close>

definition rows_at :: "log_files \<Rightarrow> string \<Rightarrow> log_row list" where
  "rows_at files path = (case files path of None \<Rightarrow> [] | Some c \<Rightarrow> csv_rows c)"

definition headers_ok :: "log_files \<Rightarrow> bool" where
  "headers_ok files \<longleftrightarrow> (\<forall>path c. files path = Some c \<longrightarrow> csv_header c = EVENT_LOG_HEADERS)"

definition put_row :: "string \<Rightarrow> log_row \<Rightarrow> log_files \<Rightarrow> log_files" where
  "put_row path row files = files(path \<mapsto> with_row row (files path))"

definition matching :: "string \<Rightarrow> string \<Rightarrow> log_row list \<Rightarrow> log_row list" where
  "matching ev key rows = filter (\<lambda>row. row_match ev key row \<noteq> None) rows"

lemma rows_at_put [simp]: "rows_at (put_row p row files) path = (if path = p then rows_at files p @ [row] else rows_at files path)"
  by (auto simp: rows_at_def put_row_def with_row_def split: option.splits)

lemma headers_put [simp]: "headers_ok files \<Longrightarrow> headers_ok (put_row p row files)"
  by (auto simp: headers_ok_def put_row_def with_row_def split: option.splits)

lemma find_projection_none: "matching ev key rows = [] \<Longrightarrow> find_projection ev key d rows = Inr False"
  by (induction rows) (auto simp: matching_def split: if_splits)

lemma find_projection_found:
  "matching ev key rows = [row] \<Longrightarrow> row_match ev key row = Some d \<Longrightarrow> py_eq (VDict d) (VDict e) \<Longrightarrow>
     find_projection ev key e rows = Inr True"
  by (induction rows) (auto simp: matching_def split: if_splits option.splits)

lemma find_projection_True:
  "find_projection ev key e rows = Inr True \<Longrightarrow> \<exists>row d. row \<in> set rows \<and> row_match ev key row = Some d \<and> py_eq (VDict d) (VDict e)"
  by (induction rows) (auto split: option.splits if_splits)

lemma find_projection_False: "find_projection ev key e rows = Inr False \<Longrightarrow> matching ev key rows = []"
  by (induction rows) (auto simp: matching_def split: option.splits if_splits)

lemma append_unlocked_eq:
  "append_unlocked out path row files =
     (if out = AppendDone then Inr () else Inl LogIoError, if out = AppendRefused then files else put_row path row files)"
  by (cases out) (simp_all add: append_unlocked_def put_row_def)

lemma append_idempotent_eq:
  assumes "check_idempotent_entry (strip ev) (strip key) row = Inr d" "headers_ok files"
  shows "append_event_log_entry_idempotent out path row ev key files =
    (case find_projection (strip ev) (strip key) d (rows_at files path) of
       Inl e \<Rightarrow> (Inl e, files)
     | Inr True \<Rightarrow> (Inr False, files)
     | Inr False \<Rightarrow> (if out = AppendDone then Inr True else Inl LogIoError,
                     if out = AppendRefused then files else put_row path row files))"
proof (cases "files path")
  case (Some c)
  then have "csv_header c = EVENT_LOG_HEADERS" using assms(2) by (simp add: headers_ok_def)
  with assms(1) Some show ?thesis
    by (simp add: append_event_log_entry_idempotent_def Let_def rows_at_def append_unlocked_eq split: sum.split bool.split)
qed (simp add: assms append_event_log_entry_idempotent_def Let_def rows_at_def append_unlocked_eq)

text \<open>What a checked entry looks like to a later reader.\<close>

lemma checked_entry_matches:
  "check_idempotent_entry ev key row = Inr d \<Longrightarrow> row_match ev key row = Some d"
  by (auto simp: check_idempotent_entry_def row_match_def split: option.splits if_splits)

subsection \<open>Events the outbox can project\<close>

definition projectable :: "outbox_item \<Rightarrow> bool" where
  "projectable x \<longleftrightarrow> (\<exists>d. row_details (item_row x) = Some (VDict d) \<and> nan_free (VDict d) \<and> distinct_keys (VDict d) \<and>
     strip (row_event (item_row x)) \<noteq> [] \<and> details_key d \<noteq> [])"

definition item_key :: "outbox_item \<Rightarrow> string" where
  "item_key x = (case Option.bind (row_details (item_row x)) as_dict of None \<Rightarrow> [] | Some d \<Rightarrow> details_key d)"

definition item_id :: "outbox_item \<Rightarrow> string \<times> string \<times> string" where
  "item_id x = (item_path x, strip (row_event (item_row x)), item_key x)"

definition log_of :: "log_files \<Rightarrow> outbox_item list \<Rightarrow> log_files" where
  "log_of base xs = fold (\<lambda>x. put_row (item_path x) (item_row x)) xs base"

text \<open>Events that are told apart by path, event and key, and are not in the log yet.\<close>

definition new_events :: "log_files \<Rightarrow> outbox_item list \<Rightarrow> bool" where
  "new_events base xs \<longleftrightarrow> headers_ok base \<and> distinct (map item_id xs) \<and>
     (\<forall>x \<in> set xs. projectable x \<and> matching (strip (row_event (item_row x))) (item_key x) (rows_at base (item_path x)) = [])"

lemma log_of_snoc: "log_of base (xs @ [x]) = put_row (item_path x) (item_row x) (log_of base xs)"
  by (simp add: log_of_def)

lemma rows_log_of: "rows_at (log_of base xs) path = rows_at base path @ map item_row (filter (\<lambda>x. item_path x = path) xs)"
  by (induction xs rule: rev_induct) (auto simp: log_of_snoc, simp add: log_of_def)

lemma headers_log_of: "headers_ok base \<Longrightarrow> headers_ok (log_of base xs)"
  by (induction xs rule: rev_induct) (simp_all add: log_of_snoc, simp add: log_of_def)

lemma projectable_match:
  assumes "projectable x"
  shows "row_match ev key (item_row x) \<noteq> None \<longleftrightarrow> (ev, key) = (strip (row_event (item_row x)), item_key x)"
  using assms by (auto simp: projectable_def row_match_def item_key_def split: if_splits)

lemma matching_append [simp]: "matching ev key (rows @ rows') = matching ev key rows @ matching ev key rows'"
  by (simp add: matching_def)

lemma matching_items:
  assumes "\<forall>y \<in> set xs. projectable y \<and> item_id y \<noteq> item_id x"
  shows "matching (strip (row_event (item_row x))) (item_key x) (map item_row (filter (\<lambda>y. item_path y = item_path x) xs)) = []"
proof -
  have "row_match (strip (row_event (item_row x))) (item_key x) (item_row y) = None"
    if "y \<in> set xs" "item_path y = item_path x" for y
    using assms that projectable_match [of y "strip (row_event (item_row x))" "item_key x"]
    by (auto simp: item_id_def)
  then show ?thesis by (auto simp: matching_def filter_empty_conv)
qed

lemma projectable_entry:
  assumes "projectable x"
  obtains d key where "row_details (item_row x) = Some (VDict d)" "dget d ''idempotency_key'' = Some key"
    "strip (str_or_empty key) = item_key x"
    "check_idempotent_entry (strip (row_event (item_row x))) (item_key x) (item_row x) = Inr d"
    "py_eq (VDict d) (VDict d)" "row_match (strip (row_event (item_row x))) (item_key x) (item_row x) = Some d"
proof -
  from assms obtain d where d: "row_details (item_row x) = Some (VDict d)" "nan_free (VDict d)" "distinct_keys (VDict d)"
    "strip (row_event (item_row x)) \<noteq> []" "details_key d \<noteq> []" by (auto simp: projectable_def)
  have k: "item_key x = details_key d" using d(1) by (simp add: item_key_def)
  have "dget d ''idempotency_key'' \<noteq> None"
    using d(5) by (cases "dget d ''idempotency_key''") (simp_all add: details_key_def vget_def)
  then obtain key where key: "dget d ''idempotency_key'' = Some key" by blast
  then have "strip (str_or_empty key) = item_key x" by (simp add: k details_key_def vget_def)
  moreover have c: "check_idempotent_entry (strip (row_event (item_row x))) (item_key x) (item_row x) = Inr d"
    using d by (simp add: check_idempotent_entry_def k)
  ultimately show ?thesis
    using that d key py_eq_refl [OF d(2,3)] checked_entry_matches [OF c] by blast
qed

subsection \<open>Projecting an outbox\<close>

definition ascending :: "outbox_item list \<Rightarrow> bool" where
  "ascending xs \<longleftrightarrow> sorted_wrt (<) (map item_sequence xs)"

text \<open>
  The log is what was there before, then the events already removed from the outbox, then possibly
  the oldest event of the outbox, whose removal did not happen yet.
\<close>

definition projecting :: "log_files \<Rightarrow> outbox_item list \<Rightarrow> event_store \<Rightarrow> bool" where
  "projecting base released s \<longleftrightarrow> ascending (outbox_dir s) \<and>
     (logs s = log_of base released \<or>
      outbox_dir s \<noteq> [] \<and> logs s = log_of base (released @ [hd (outbox_dir s)]))"

lemma ascending_Cons: "ascending (x # xs) \<longleftrightarrow> (\<forall>y \<in> set xs. item_sequence x < item_sequence y) \<and> ascending xs"
  by (simp add: ascending_def)

definition outcome_ok :: "projection_outcome \<Rightarrow> bool" where
  "outcome_ok out \<longleftrightarrow> appending out = AppendDone \<and> sync_ok out \<and> unlink_ok out"

lemma project_item_effect:
  assumes "projecting base released s" "outbox_dir s = x # xs" "new_events base (released @ x # xs)"
    "project_item out x s = (ok, s')"
  shows "(if ok then outbox_dir s' = xs \<and> projecting base (released @ [x]) s'
          else outbox_dir s' = x # xs \<and> projecting base released s') \<and>
    (outcome_ok out \<longrightarrow> ok)"
proof -
  let ?ev = "strip (row_event (item_row x))"
  from assms(3) have p: "projectable x" and hb: "headers_ok base" by (simp_all add: new_events_def)
  obtain d key where d: "row_details (item_row x) = Some (VDict d)" "dget d ''idempotency_key'' = Some key"
    "strip (str_or_empty key) = item_key x" "check_idempotent_entry ?ev (item_key x) (item_row x) = Inr d"
    "py_eq (VDict d) (VDict d)" "row_match ?ev (item_key x) (item_row x) = Some d"
    using p by (rule projectable_entry)
  have "item_id x \<notin> item_id ` set released" "\<forall>y \<in> set released. projectable y"
    using assms(3) by (simp_all add: new_events_def)
  then have "\<forall>y \<in> set released. projectable y \<and> item_id y \<noteq> item_id x" by (metis imageI)
  then have none: "matching ?ev (item_key x) (rows_at (log_of base released) (item_path x)) = []"
    using assms(3) matching_items [of released x] by (simp add: rows_log_of new_events_def)
  then have one: "matching ?ev (item_key x) (rows_at (log_of base (released @ [x])) (item_path x)) = [item_row x]"
    using d(6) by (simp add: log_of_snoc) (simp add: matching_def)
  have "headers_ok (logs s)" using assms(1) headers_log_of [OF hb] by (auto simp: projecting_def)
  then have ap: "append_event_log_entry_idempotent out' (item_path x) (item_row x) (row_event (item_row x)) (str_or_empty key) (logs s) =
      (if logs s = log_of base released
       then (if out' = AppendDone then Inr True else Inl LogIoError,
             if out' = AppendRefused then logs s else log_of base (released @ [x]))
       else (Inr False, logs s))" for out'
    using assms(1,2) find_projection_none [OF none] find_projection_found [OF one d(6,5)] d(4)
    by (auto simp: append_idempotent_eq d(3) projecting_def log_of_snoc)
  have rm: "filter (\<lambda>y. y \<noteq> x) (x # xs) = xs"
    using assms(1,2) by (auto simp: projecting_def ascending_Cons filter_id_conv)
  show ?thesis
  proof (cases "logs s = log_of base released")
    case True
    note ap' = ap [unfolded if_P [OF True]]
    have "project_item out x s = (if appending out = AppendDone \<and> unlink_ok out
        then (True, s\<lparr>logs := log_of base (released @ [x]), outbox_dir := xs\<rparr>)
        else (False, s\<lparr>logs := if appending out = AppendRefused then logs s else log_of base (released @ [x])\<rparr>))"
      using d(1,2) rm assms(2) by (simp add: project_item_def ap' Let_def)
    with assms(1,2,4) True show ?thesis
      by (auto simp: projecting_def ascending_Cons outcome_ok_def split: if_splits)
  next
    case False
    then have l: "logs s = log_of base (released @ [x])" using assms(1,2) by (simp add: projecting_def)
    note ap' = ap [unfolded if_not_P [OF False]]
    have "project_item out x s = (if sync_ok out \<and> unlink_ok out
        then (True, s\<lparr>logs := logs s, outbox_dir := xs\<rparr>) else (False, s\<lparr>logs := logs s\<rparr>))"
      using d(1,2) rm assms(2) by (simp add: project_item_def ap' Let_def)
    with assms(1,2,4) l show ?thesis
      by (auto simp: projecting_def ascending_Cons outcome_ok_def split: if_splits)
  qed
qed

lemma project_loop_effect:
  assumes "projecting base released s" "outbox_dir s = xs" "new_events base (released @ xs)"
    "project_loop env i xs s = (ok, s')"
  shows "\<exists>k \<le> length xs. outbox_dir s' = drop k xs \<and> projecting base (released @ take k xs) s' \<and>
    (ok \<longrightarrow> outbox_dir s' = []) \<and> ((\<forall>i. outcome_ok (env i)) \<longrightarrow> ok)"
  using assms
proof (induction xs arbitrary: released s i)
  case (Cons x xs)
  obtain ok1 s1 where st: "project_item (env i) x s = (ok1, s1)" by fastforce
  note eff = project_item_effect [OF Cons.prems(1,2,3) st]
  show ?case
  proof (cases ok1)
    case True
    with eff have s1: "outbox_dir s1 = xs" "projecting base (released @ [x]) s1" by simp_all
    have "new_events base ((released @ [x]) @ xs)" "project_loop env (Suc i) xs s1 = (ok, s')"
      using Cons.prems(3,4) st True by simp_all
    from Cons.IH [OF s1(2,1) this] obtain k where "k \<le> length xs" "outbox_dir s' = drop k xs" "projecting base ((released @ [x]) @ take k xs) s'"
      "ok \<longrightarrow> outbox_dir s' = []" "(\<forall>i. outcome_ok (env i)) \<longrightarrow> ok"
      by blast
    then show ?thesis by (intro exI [of _ "Suc k"]) simp
  next
    case False
    with eff Cons.prems(4) st show ?thesis by (intro exI [of _ 0]) auto
  qed
qed auto

subsection \<open>Calls on an event store\<close>

datatype outbox_call =
    StageEvent "nat \<Rightarrow> nat \<times> bool" string log_row
  | DrainOutbox "nat \<Rightarrow> nat \<times> bool" "nat \<Rightarrow> projection_outcome"
  | Reopen

text \<open>The new store, the events made durable and the events taken out of the outbox by a call.\<close>

fun outbox_step :: "outbox_call \<Rightarrow> event_store \<Rightarrow> event_store \<times> outbox_item list \<times> outbox_item list" where
  "outbox_step (StageEvent env path row) s =
     (let s' = snd (stage_event env path row s) in (s', drop (length (outbox_dir s)) (outbox_dir s'), []))"
| "outbox_step (DrainOutbox env penv) s =
     (let dir = outbox_dir (snd (persist_unstaged env s)); s' = snd (drain env penv s)
      in (s', drop (length (outbox_dir s)) dir, take (length dir - length (outbox_dir s')) dir))"
| "outbox_step Reopen s = (open_outbox s, [], [])"

definition store_ok :: "event_store \<Rightarrow> bool" where
  "store_ok s \<longleftrightarrow> ascending (outbox_dir s) \<and> (\<forall>x \<in> set (outbox_dir s). item_sequence x \<le> outbox_sequence s)"

lemma ascending_snoc: "ascending xs \<Longrightarrow> \<forall>x \<in> set xs. item_sequence x < item_sequence y \<Longrightarrow> ascending (xs @ [y])"
  by (simp add: ascending_def sorted_wrt_append)

lemma ascending_drop: "ascending xs \<Longrightarrow> ascending (drop k xs)"
  by (simp add: ascending_def drop_map [symmetric] sorted_wrt_drop)

lemma ascending_sort: "ascending xs \<Longrightarrow> sort_key item_sequence xs = xs"
  by (rule sort_key_id_if_sorted) (auto simp: ascending_def intro: strict_sorted_imp_sorted)

lemma persist_loop_effect:
  assumes "store_ok s" "unstaged s = ps" "persist_loop env i ps s = (ok, s')"
  shows "\<exists>added. outbox_dir s' = outbox_dir s @ added \<and> store_ok s' \<and> logs s' = logs s \<and>
    map (\<lambda>x. (item_path x, item_row x)) added @ unstaged s' = ps \<and> ((\<forall>i. snd (env i)) \<longrightarrow> ok) \<and> (ok \<longrightarrow> unstaged s' = [])"
  using assms
proof (induction ps arbitrary: s i)
  case (Cons p ps)
  let ?n = "max (outbox_sequence s + 1) (fst (env i))"
  let ?x = "\<lparr>item_sequence = ?n, item_path = fst p, item_row = snd p\<rparr>"
  show ?case
  proof (cases "snd (env i)")
    case True
    let ?s = "s\<lparr>outbox_sequence := ?n, outbox_dir := outbox_dir s @ [?x], unstaged := ps\<rparr>"
    have "store_ok ?s" using Cons.prems(1) by (force simp: store_ok_def intro!: ascending_snoc)
    with Cons.IH [of ?s "Suc i"] Cons.prems(3) True
    obtain added where "outbox_dir s' = (outbox_dir s @ [?x]) @ added" "store_ok s'" "logs s' = logs s"
      "map (\<lambda>x. (item_path x, item_row x)) added @ unstaged s' = ps" "(\<forall>i. snd (env i)) \<longrightarrow> ok" "ok \<longrightarrow> unstaged s' = []"
      by (auto simp: Let_def)
    then show ?thesis by (intro exI [of _ "?x # added"]) simp
  next
    case False
    with Cons.prems show ?thesis by (intro exI [of _ "[]"]) (force simp: Let_def store_ok_def)
  qed
qed auto

lemma persist_effect:
  assumes "store_ok s" "persist_unstaged env s = (ok, s')"
  shows "\<exists>added. outbox_dir s' = outbox_dir s @ added \<and> store_ok s' \<and> logs s' = logs s \<and>
    map (\<lambda>x. (item_path x, item_row x)) added @ unstaged s' = unstaged s \<and> ((\<forall>i. snd (env i)) \<longrightarrow> ok) \<and> (ok \<longrightarrow> unstaged s' = [])"
  using persist_loop_effect [OF assms(1) refl] assms(2) by (simp add: persist_unstaged_def)

lemma stage_effect:
  assumes "store_ok s"
  shows "\<exists>added. outbox_dir (snd (stage_event env path row s)) = outbox_dir s @ added \<and>
    store_ok (snd (stage_event env path row s)) \<and> logs (snd (stage_event env path row s)) = logs s"
proof -
  have "store_ok (s\<lparr>unstaged := unstaged s @ [(path, row)]\<rparr>)" using assms by (simp add: store_ok_def)
  from persist_effect [OF this, of env] show ?thesis
    by (cases "persist_unstaged env (s\<lparr>unstaged := unstaged s @ [(path, row)]\<rparr>)") (auto simp: stage_event_def)
qed

lemma project_item_dir:
  "project_item out x s = (ok, s') \<Longrightarrow>
     outbox_dir s' = (if ok then filter (\<lambda>y. y \<noteq> x) (outbox_dir s) else outbox_dir s) \<and>
     outbox_sequence s' = outbox_sequence s"
  by (auto simp: project_item_def Let_def split: option.splits prod.splits sum.splits if_splits)

lemma project_loop_dir:
  assumes "ascending (outbox_dir s)" "outbox_dir s = xs" "project_loop env i xs s = (ok, s')"
  shows "\<exists>k \<le> length xs. outbox_dir s' = drop k xs \<and> outbox_sequence s' = outbox_sequence s"
  using assms
proof (induction xs arbitrary: s i)
  case (Cons x xs)
  obtain ok1 s1 where st: "project_item (env i) x s = (ok1, s1)" by fastforce
  note dir = project_item_dir [OF st]
  show ?case
  proof (cases ok1)
    case True
    have "filter (\<lambda>y. y \<noteq> x) (x # xs) = xs"
      using Cons.prems(1,2) by (auto simp: ascending_Cons filter_id_conv)
    with True dir Cons.prems have "outbox_dir s1 = xs" "ascending (outbox_dir s1)" by (simp_all add: ascending_Cons)
    moreover have "project_loop env (Suc i) xs s1 = (ok, s')" using Cons.prems(3) st True by simp
    ultimately obtain k where "k \<le> length xs" "outbox_dir s' = drop k xs" "outbox_sequence s' = outbox_sequence s"
      using Cons.IH [of s1 "Suc i"] dir by (metis (no_types, lifting))
    then show ?thesis by (intro exI [of _ "Suc k"]) simp
  next
    case False
    with dir Cons.prems st show ?thesis by (intro exI [of _ 0]) auto
  qed
qed auto

text \<open>A drain first makes the memory durable, then takes some events off the front.\<close>

lemma drain_effect:
  assumes "store_ok s" "persist_unstaged env s = (ok1, s1)" "drain env penv s = (ok, s')"
  shows "\<exists>k. outbox_dir s' = drop k (outbox_dir s1) \<and> k \<le> length (outbox_dir s1) \<and> store_ok s'"
proof -
  from persist_effect [OF assms(1,2)] have s1: "store_ok s1" by blast
  show ?thesis
  proof (cases ok1)
    case True
    have "project_loop penv 0 (outbox_dir s1) s1 = (ok, s')"
      using assms(2,3) True s1 by (simp add: drain_def ascending_sort store_ok_def)
    from project_loop_dir [OF _ refl this] s1 obtain k where
      "k \<le> length (outbox_dir s1)" "outbox_dir s' = drop k (outbox_dir s1)" "outbox_sequence s' = outbox_sequence s1"
      by (auto simp: store_ok_def)
    with s1 show ?thesis by (auto simp: store_ok_def ascending_drop dest: in_set_dropD)
  next
    case False
    with assms(2,3) s1 show ?thesis by (intro exI [of _ 0]) (simp add: drain_def)
  qed
qed

lemma open_ok: "store_ok s \<Longrightarrow> store_ok (open_outbox s)"
proof -
  have "x \<in> set xs \<Longrightarrow> x \<le> foldr max xs (0 :: nat)" for x xs by (induction xs) auto
  then show "store_ok s \<Longrightarrow> store_ok (open_outbox s)" by (simp add: store_ok_def open_outbox_def)
qed

lemma outbox_step_effect:
  assumes "store_ok s" "outbox_step c s = (s', adm, rel)"
  shows "store_ok s' \<and> outbox_dir s @ adm = rel @ outbox_dir s'"
proof (cases c)
  case (StageEvent env path row)
  with assms stage_effect [OF assms(1), of env path row] show ?thesis by (auto simp: Let_def)
next
  case (DrainOutbox env penv)
  obtain ok1 s1 where p: "persist_unstaged env s = (ok1, s1)" by fastforce
  obtain ok s2 where d: "drain env penv s = (ok, s2)" by fastforce
  from persist_effect [OF assms(1) p] obtain added where a: "outbox_dir s1 = outbox_dir s @ added" by blast
  from drain_effect [OF assms(1) p d] obtain k where
    k: "outbox_dir s2 = drop k (outbox_dir s1)" "k \<le> length (outbox_dir s1)" "store_ok s2" by blast
  have "take (length (outbox_dir s1) - length (outbox_dir s2)) (outbox_dir s1) @ outbox_dir s2 = outbox_dir s1"
    using k by simp
  then show ?thesis using DrainOutbox assms(2) p d a k(3) by (auto simp: Let_def)
next
  case Reopen
  with assms show ?thesis by (auto simp: open_ok) (simp add: open_outbox_def)
qed

interpretation outbox: conserving_store outbox_step outbox_dir store_ok "\<lambda>c. True"
  by unfold_locales (auto dest: outbox_step_effect)

subsection \<open>Exactly once\<close>

lemma new_events_prefix: "new_events base (xs @ ys) \<Longrightarrow> new_events base xs"
  by (simp add: new_events_def)

lemma projecting_extend:
  assumes "projecting base released s" "outbox_dir s' = outbox_dir s @ added" "store_ok s'" "logs s' = logs s"
  shows "projecting base released s'"
  using assms by (auto simp: projecting_def store_ok_def)

lemma outbox_step_projects:
  assumes "store_ok s" "projecting base released s" "outbox_step c s = (s', adm, rel)"
    "new_events base (released @ outbox_dir s @ adm)"
  shows "projecting base (released @ rel) s'"
proof (cases c)
  case (StageEvent env path row)
  with stage_effect [OF assms(1), of env path row] assms(2,3) show ?thesis
    by (auto simp: Let_def intro: projecting_extend)
next
  case (DrainOutbox env penv)
  obtain ok1 s1 where p: "persist_unstaged env s = (ok1, s1)" by fastforce
  obtain ok s2 where d: "drain env penv s = (ok, s2)" by fastforce
  from persist_effect [OF assms(1) p] obtain added where
    a: "outbox_dir s1 = outbox_dir s @ added" "store_ok s1" "logs s1 = logs s" by blast
  have s1: "projecting base released s1" using projecting_extend [OF assms(2) a] .
  have step: "s' = s2" "adm = added" "rel = take (length (outbox_dir s1) - length (outbox_dir s2)) (outbox_dir s1)"
    using assms(3) DrainOutbox p d a(1) by (auto simp: Let_def)
  show ?thesis
  proof (cases ok1)
    case True
    have "new_events base (released @ outbox_dir s1)" using assms(4) a(1) step(2) by simp
    moreover have "project_loop penv 0 (outbox_dir s1) s1 = (ok, s2)"
      using d p True a(2) by (simp add: drain_def ascending_sort store_ok_def)
    ultimately obtain k where "k \<le> length (outbox_dir s1)" "outbox_dir s2 = drop k (outbox_dir s1)"
      "projecting base (released @ take k (outbox_dir s1)) s2"
      using project_loop_effect [OF s1 refl] by blast
    then show ?thesis by (simp add: step)
  next
    case False
    with d p s1 step show ?thesis by (simp add: drain_def)
  qed
next
  case Reopen
  with assms show ?thesis by (auto simp: projecting_def open_outbox_def)
qed

lemma outbox_run_projects:
  assumes "store_ok s" "projecting base released s" "run_steps outbox_step cs s = (s', adm, rel)"
    "new_events base (released @ outbox_dir s @ adm)"
  shows "projecting base (released @ rel) s'"
  using assms
proof (induction cs arbitrary: s released adm rel)
  case (Cons c cs)
  obtain t a r where st: "outbox_step c s = (t, a, r)" by (metis prod_cases3)
  obtain u a' r' where rn: "run_steps outbox_step cs t = (u, a', r')" by (metis prod_cases3)
  from Cons.prems(3) st rn have eqs: "s' = u" "adm = a @ a'" "rel = r @ r'" by simp_all
  have ne: "new_events base (released @ outbox_dir s @ a)"
    using Cons.prems(4) new_events_prefix [of base "released @ outbox_dir s @ a" a'] by (simp add: eqs)
  have t: "store_ok t" "outbox_dir s @ a = r @ outbox_dir t" using outbox_step_effect [OF Cons.prems(1) st] by blast+
  have "new_events base ((released @ r) @ outbox_dir t @ a')"
    using Cons.prems(4) t(2) by (simp add: eqs) (metis append.assoc)
  from Cons.IH [OF t(1) outbox_step_projects [OF Cons.prems(1,2) st ne] rn [folded eqs(1)] this]
  show ?case by (simp add: eqs)
qed simp

subsection \<open>Properties\<close>


text \<open>
  When nothing fails, a drain empties the outbox: everything staged, durable or still in
  memory, is then in the logs.
\<close>

theorem outbox_drain_completes:
  assumes "store_ok s" "projecting base released s"
    "\<forall>i. snd (env i)" "\<forall>i. outcome_ok (penv i)"
    "new_events base (released @ outbox_dir (snd (persist_unstaged env s)))"
  shows "\<exists>s'. drain env penv s = (True, s') \<and> outbox_dir s' = [] \<and> unstaged (snd (persist_unstaged env s)) = [] \<and>
    logs s' = log_of base (released @ outbox_dir (snd (persist_unstaged env s)))"
proof -
  obtain ok1 s1 where p: "persist_unstaged env s = (ok1, s1)" by fastforce
  from persist_effect [OF assms(1) p] assms(3) obtain added where
    a: "outbox_dir s1 = outbox_dir s @ added" "store_ok s1" "logs s1 = logs s" "ok1" "unstaged s1 = []" by auto
  obtain ok s2 where l: "project_loop penv 0 (outbox_dir s1) s1 = (ok, s2)" by fastforce
  have "new_events base (released @ outbox_dir s1)" using assms(5) p by simp
  from project_loop_effect [OF projecting_extend [OF assms(2) a(1-3)] refl this l] assms(4)
  have k: "outbox_dir s2 = []" "projecting base (released @ outbox_dir s1) s2" ok
    by (auto simp: take_all)
  moreover have "drain env penv s = (ok, s2)" using p l a by (simp add: drain_def ascending_sort store_ok_def)
  ultimately show ?thesis using p a(5) by (auto simp: projecting_def)
qed

text \<open>
  Appending by key adds an event at most once: if the call reports an append, no row had the
  event and key before and the row is now the last one; if it reports a replay, the log is
  unchanged and has a row with this event, this key and equal details; on an error the log has
  the old rows, or the new row at its end because only the confirmation failed. So the rows with one event
  and key never become more than one.
\<close>

theorem idempotent_append_once:
  assumes "headers_ok files"
    "append_event_log_entry_idempotent out path row ev key files = (r, files')"
  shows "length (matching (strip ev) (strip key) (rows_at files' path)) \<le>
      max 1 (length (matching (strip ev) (strip key) (rows_at files path))) \<and>
    (r = Inr True \<longrightarrow> matching (strip ev) (strip key) (rows_at files path) = [] \<and>
       rows_at files' path = rows_at files path @ [row]) \<and>
    (r = Inr False \<longrightarrow> files' = files \<and> matching (strip ev) (strip key) (rows_at files path) \<noteq> []) \<and>
    (files' = files \<or> rows_at files' path = rows_at files path @ [row])"
proof (cases "check_idempotent_entry (strip ev) (strip key) row")
  case (Inl e)
  then have "r = Inl e" "files' = files" using assms(2) by (simp_all add: append_event_log_entry_idempotent_def Let_def)
  then show ?thesis by simp
next
  case (Inr d)
  have one: "length (matching (strip ev) (strip key) [row]) \<le> 1" by (simp add: matching_def)
  show ?thesis
  proof (cases "find_projection (strip ev) (strip key) d (rows_at files path)")
    case l: (Inl e)
    then have "r = Inl e" "files' = files" using assms(2) append_idempotent_eq [OF Inr assms(1)] by simp_all
    then show ?thesis by simp
  next
    case f: (Inr found)
    show ?thesis
    proof (cases found)
      case True
      then have "r = Inr False" "files' = files" using f assms(2) append_idempotent_eq [OF Inr assms(1)] by simp_all
      moreover obtain w where "w \<in> set (rows_at files path)" "row_match (strip ev) (strip key) w \<noteq> None"
        using find_projection_True [of "strip ev" "strip key" d "rows_at files path"] f True by auto
      ultimately show ?thesis by (auto simp: matching_def filter_empty_conv)
    next
      case False
      then have "matching (strip ev) (strip key) (rows_at files path) = []" using f by (simp add: find_projection_False)
      moreover have "r = (if out = AppendDone then Inr True else Inl LogIoError)"
        "files' = (if out = AppendRefused then files else put_row path row files)"
        using f False assms(2) append_idempotent_eq [OF Inr assms(1)] by simp_all
      ultimately show ?thesis using one by auto
    qed
  qed
qed

subsection \<open>Witnesses\<close>

definition demo_event :: log_row where
  "demo_event = \<lparr>row_timestamp = ''t'', row_worker = ''kim'', row_event = ''SCAN_OK'',
     row_details = Some (VDict [(''idempotency_key'', VStr ''k1'')])\<rparr>"

definition demo_store :: event_store where
  "demo_store = \<lparr>logs = (\<lambda>_. None), outbox_dir = [], unstaged = [], outbox_sequence = 0\<rparr>"

definition demo_unsynced :: "nat \<Rightarrow> projection_outcome" where
  "demo_unsynced i = \<lparr>appending = AppendUnsynced, sync_ok = True, unlink_ok = True\<rparr>"

definition demo_good :: "nat \<Rightarrow> projection_outcome" where
  "demo_good i = \<lparr>appending = AppendDone, sync_ok = True, unlink_ok = True\<rparr>"

definition demo_item :: outbox_item where
  "demo_item = \<lparr>item_sequence = 5, item_path = ''log'', item_row = demo_event\<rparr>"

lemma demo_strips: "strip ''SCAN_OK'' = ''SCAN_OK''" "strip ''k1'' = ''k1''"
  by code_simp+

lemma demo_new_events: "new_events (\<lambda>_. None) [demo_item]"
  by (simp add: new_events_def headers_ok_def projectable_def demo_item_def demo_event_def rows_at_def matching_def
      details_key_def demo_strips)

text \<open>Staged, appended without confirmation, then drained again after a restart: one row.\<close>

lemma demo_run:
  "outbox_step (StageEvent (\<lambda>i. (5, True)) ''log'' demo_event) demo_store = (demo_store\<lparr>outbox_dir := [demo_item], outbox_sequence := 5\<rparr>, [demo_item], [])"
  by (simp add: stage_event_def persist_unstaged_def demo_store_def demo_item_def Let_def)


theorem outbox_drain_completes_witness:
  "\<exists>s'. drain (\<lambda>i. (9, True)) demo_good (demo_store\<lparr>outbox_dir := [demo_item], outbox_sequence := 5\<rparr>) = (True, s') \<and> outbox_dir s' = []"
proof -
  let ?s = "demo_store\<lparr>outbox_dir := [demo_item], outbox_sequence := 5\<rparr>"
  have "store_ok ?s" "projecting (\<lambda>_. None) [] ?s"
    by (simp_all add: store_ok_def projecting_def ascending_def demo_store_def demo_item_def log_of_def)
  moreover have "snd (persist_unstaged (\<lambda>i. (9, True)) ?s) = ?s" by (simp add: persist_unstaged_def demo_store_def)
  ultimately show ?thesis
    using outbox_drain_completes [of ?s "\<lambda>_. None" "[]" "\<lambda>i. (9, True)" demo_good] demo_new_events
    by (auto simp: outcome_ok_def demo_good_def demo_store_def)
qed

theorem idempotent_append_once_witness:
  "rows_at (snd (append_event_log_entry_idempotent AppendDone ''log'' demo_event ''SCAN_OK'' ''k1'' (\<lambda>_. None))) ''log'' = [demo_event]"
proof -
  have h: "headers_ok (\<lambda>_. None)" by (simp add: headers_ok_def)
  have "fst (append_event_log_entry_idempotent AppendDone ''log'' demo_event ''SCAN_OK'' ''k1'' (\<lambda>_. None)) = Inr True"
    by (simp add: append_event_log_entry_idempotent_def Let_def check_idempotent_entry_def demo_event_def details_key_def
        demo_strips append_unlocked_def)
  with idempotent_append_once [where out = AppendDone and path = "''log''" and row = demo_event and
      ev = "''SCAN_OK''" and key = "''k1''", OF h prod.collapse [symmetric]]
  show ?thesis by (simp add: rows_at_def)
qed

end
