(* ===== verification/Event_Writer.thy ===== *)
theory Event_Writer
  imports Event_Log Event_Contracts Tray_State
begin

text \<open>
  Writing one event (\<open>_log_event\<close> of \<open>Container_Audit.py\<close>) with what it uses: the stream
  policy (\<open>event_stream_policy.py\<close>) and the removal of the protected administrator's id from
  everything persistent (\<open>protected_admin.py\<close>).

  A log path is a directory and a file name. The Korean display name of the administrator and the
  Korean prefixes of the log file names lie outside the alphabet of the model and are fields of
  \<open>writer_env\<close>, together with the constants of the application class.
\<close>

subsection \<open>Removing the administrator's id\<close>

text \<open>\<open>s.replace(old, new)\<close>: occurrences of a non-empty \<open>old\<close> from left to right.\<close>

function replace_all :: "string \<Rightarrow> string \<Rightarrow> string \<Rightarrow> string" where
  "replace_all old new s =
     (if s = [] then []
      else if old \<noteq> [] \<and> prefix old s then new @ replace_all old new (drop (length old) s)
      else hd s # replace_all old new (tl s))"
  by auto
termination by (relation "measure (\<lambda>(old, new, s). length s)") auto

declare replace_all.simps [simp del]

lemma replace_all_Nil [simp]: "replace_all old new [] = []"
  by (simp add: replace_all.simps)

lemma replace_all_Cons:
  "replace_all old new (c # s) =
     (if old \<noteq> [] \<and> prefix old (c # s) then new @ replace_all old new (drop (length old) (c # s))
      else c # replace_all old new s)"
  by (subst replace_all.simps) simp

fun sanitize_persistent_value :: "string \<Rightarrow> pyval \<Rightarrow> pyval" where
  "sanitize_persistent_value display (VDict d) = VDict (map (\<lambda>(k, v). (k, sanitize_persistent_value display v)) d)"
| "sanitize_persistent_value display (VList vs) = VList (map (sanitize_persistent_value display) vs)"
| "sanitize_persistent_value display (VStr s) = VStr (replace_all PROTECTED_ADMIN_OPERATOR_ID display s)"
| "sanitize_persistent_value display v = v"

definition redact_protected_admin_identity :: "string \<Rightarrow> string" where
  "redact_protected_admin_identity s = replace_all PROTECTED_ADMIN_OPERATOR_ID ''[protected-admin]'' s"

text \<open>
  The redaction of a JSON text, as the value the text then stands for: the id has no character
  that JSON escapes, so it occurs in the text where it occurs in a key or a text value.
\<close>

fun redact_json :: "pyval \<Rightarrow> pyval" where
  "redact_json (VDict d) = VDict (map (\<lambda>(k, v). (redact_protected_admin_identity k, redact_json v)) d)"
| "redact_json (VList vs) = VList (map redact_json vs)"
| "redact_json (VStr s) = VStr (redact_protected_admin_identity s)"
| "redact_json v = v"

subsection \<open>Streams\<close>

definition CONTRACT_CANDIDATE_EVENT_TYPES :: "string list" where
  "CONTRACT_CANDIDATE_EVENT_TYPES =
     [''HISTORICAL_REPLACE_CANCEL'', ''PHS_LABEL_ACTIVE_REFRESHED'', ''PHS_LABEL_DATE_EXCHANGED'',
      ''PRODUCT_EXCHANGE_CANCELLED'', ''PRODUCT_EXCHANGE_COMPLETED'', ''SCAN_FAIL_AMBIGUOUS_ITEM_CODE'',
      ''SCAN_FAIL_FORMAT'', ''SCAN_FAIL_MISMATCH'', ''SCAN_FAIL_TRAY_FULL'', ''SCAN_UNDO'', ''TRAY_PARKED'',
      ''TRAY_RESTORED_FROM_PARK'', ''TRAY_TAKEOVER'', ''WORK_PAUSE'']"

definition LOCAL_ONLY_EVENT_TYPES :: "string list" where
  "LOCAL_ONLY_EVENT_TYPES =
     [''ADMIN_PIN_APPLIED'', ''ADMIN_PIN_CONSUMED'', ''ADMIN_PIN_HANDOFF_UNKNOWN'', ''ADMIN_PIN_REJECTED'',
      ''ADMIN_PIN_RESUMED'', ''ADMIN_PIN_SUPERSEDED'', ''ADMIN_PIN_UNVERIFIED'', ''ADMIN_PIN_UNVERIFIED_HOLD'',
      ''ACTIVE_TRAY_PHS2_SCAN_INTERCEPTED'', ''ACTIVE_TRAY_PHS2_SCAN_REJECTED'', ''HISTORICAL_REPLACE_START'',
      ''IDLE_END'', ''IDLE_START'', ''MASTER_LABEL_PREFLIGHT_FAILED'',
      ''MASTER_LABEL_REPLACEMENT_BLOCKED_EXACT_MEMBERSHIP'', ''PRODUCT_EXCHANGE_BLOCKED_EXACT_MEMBERSHIP'',
      ''PHS2_DAMAGED_PARKED_DEFERRED'', ''PHS2_ATOMIC_TEMP_QUARANTINED'', ''PHS2_AUDIT_EVIDENCE_BOUND'',
      ''PHS2_AUDIT_EVIDENCE_UNVERIFIED_HOLD'', ''PHS2_PAIRED_MANUAL_HOLD'', ''PHS2_PAIRED_PREFLIGHT_DEFERRED'',
      ''PHS2_PAIRED_RECEIPT_RECHECK_REQUESTED'', ''PHS2_PAIRED_RECOVERY_DEFERRED'',
      ''PHS2_PAIRED_STALE_CURRENT_DEFERRED'', ''PHS2_PAIRED_STALE_CURRENT_PRESERVATION_REQUESTED'',
      ''PHS2_STALE_HOLD_RECHECKED'', ''PHS2_PREFLIGHT_HOLD_CLOSE_HANDOFF'', ''PHS2_PREFLIGHT_HOLD_QUARANTINED'',
      ''PHS2_PREFLIGHT_HOLD_RESTORED'', ''RANDOM_TEST_SESSION_START'', ''TRANSFER_SEAL_PREFLIGHT_RETRY_REQUESTED'',
      ''TRANSFER_SEAL_REVIEW_RETRY_REQUESTED'', ''TRAY_RESET_STATE_DELETE_FAILED'',
      ''TRAY_STATE_DELETE_FAILED_AFTER_COMPLETION'', ''TRAY_STATE_DELETE_FAILED_AFTER_COMPLETION_RESTORE'',
      ''TRAY_STATE_DISCARDED_AFTER_COMPLETION'']"

definition AUDITED_OUT_OF_CATALOG_EVENT_TYPES :: "string list" where
  "AUDITED_OUT_OF_CATALOG_EVENT_TYPES = CONTRACT_CANDIDATE_EVENT_TYPES @ LOCAL_ONLY_EVENT_TYPES"

type_synonym log_path = "string \<times> string"

definition path_text :: "log_path \<Rightarrow> string" where
  "path_text p = (if snd p = [] then [] else fst p @ ''/'' @ snd p)"

record writer_env =
  admin_display :: string
  contract_log_prefix :: string
  local_log_prefix :: string
  local_events_folder :: string
  own_source_system :: string
  own_source_dataset :: string

definition local_only_event_log_path :: "writer_env \<Rightarrow> log_path \<Rightarrow> log_path" where
  "local_only_event_log_path E p =
     (if strip (local_events_folder E) \<noteq> [] then local_events_folder E else fst p @ ''/local_only'',
      if prefix (contract_log_prefix E) (snd p)
      then local_log_prefix E @ drop (length (contract_log_prefix E)) (snd p)
      else ''local-only-'' @ snd p)"

subsection \<open>The event writer\<close>

text \<open>What a caller asks to be logged, and what the owner is at that moment.\<close>

record log_request =
  req_event :: string
  req_detail :: json
  req_canonical :: "string option"
  req_key :: string
  req_time :: string
  req_log :: log_path
  req_dedup :: bool
  req_worker :: string
  req_test_tray :: bool

definition is_local_only :: "log_request \<Rightarrow> bool" where
  "is_local_only r \<longleftrightarrow> strip (req_event r) \<in> set LOCAL_ONLY_EVENT_TYPES \<or> req_test_tray r"

definition stream_detail :: "log_request \<Rightarrow> json" where
  "stream_detail r =
     (if is_local_only r
      then dupdate (req_detail r)
        [(''stream_disposition'', VStr ''LOCAL_ONLY_NOT_FOR_DIRECT_SYNC''), (''direct_sync_eligible'', VBool False),
         (''stream_disposition_reason'',
            VStr (if strip (req_event r) \<in> set LOCAL_ONLY_EVENT_TYPES then ''EXPLICIT_LOCAL_EVENT_TYPE'' else ''TEST_TRAY''))]
      else req_detail r)"

definition target_log :: "writer_env \<Rightarrow> log_request \<Rightarrow> log_path" where
  "target_log E r = (if is_local_only r then local_only_event_log_path E (req_log r) else req_log r)"

text \<open>The row of a request; \<^term>\<open>None\<close> where the code returns \<open>False\<close> before any write.\<close>

definition event_row :: "writer_env \<Rightarrow> log_request \<Rightarrow> log_row option" where
  "event_row E r =
     (let worker = persistent_operator_name (admin_display E) (req_worker r);
          key = strip (req_key r);
          raw = stream_detail r;
          existing = strip (str_or_empty (vget raw ''idempotency_key''))
      in
      if worker = [] \<or> path_text (req_log r) = [] then None
      else if key \<noteq> [] \<and> existing \<noteq> [] \<and> existing \<noteq> key then None
      else
        let raw' = (if key \<noteq> [] then dset ''idempotency_key'' (VStr key) raw else raw);
            enriched = plan_b_event_detail (req_event r) raw' (own_source_system E) (own_source_dataset E) (req_canonical r);
            clean = sanitize_persistent_value (admin_display E) (VDict enriched)
        in if \<not> nan_free clean then None
           else Some \<lparr>row_timestamp = req_time r, row_worker = worker,
                      row_event = redact_protected_admin_identity (req_event r),
                      row_details = Some (redact_json clean)\<rparr>)"

text \<open>
  The synchronous call: \<open>flushed\<close> is whether the pending events could be written first. The result
  is the returned flag and whether the event was found in the log already.
\<close>

definition log_event_sync ::
  "writer_env \<Rightarrow> bool \<Rightarrow> append_outcome \<Rightarrow> log_request \<Rightarrow> log_files \<Rightarrow> (bool \<times> bool) \<times> log_files" where
  "log_event_sync E flushed out r files =
     (case event_row E r of
        None \<Rightarrow> ((False, False), files)
      | Some row \<Rightarrow>
          if \<not> flushed then ((False, False), files)
          else if strip (req_key r) \<noteq> [] \<and> req_dedup r then
            (case append_event_log_entry_idempotent out (path_text (target_log E r)) row
                    (redact_protected_admin_identity (req_event r)) (req_key r) files of
               (Inl e, files') \<Rightarrow> ((False, False), files')
             | (Inr appended, files') \<Rightarrow> ((True, \<not> appended), files'))
          else
            (case append_event_log_entry out (path_text (target_log E r)) row files of
               (Inl e, files') \<Rightarrow> ((False, False), files')
             | (Inr _, files') \<Rightarrow> ((True, False), files')))"

subsection \<open>The id is gone\<close>

text \<open>A replacement text that cannot take part in an occurrence of \<open>old\<close>.\<close>

definition barrier :: "string \<Rightarrow> string \<Rightarrow> bool" where
  "barrier old new \<longleftrightarrow> old \<noteq> [] \<and> new \<noteq> [] \<and> hd new \<notin> set old \<and> last new \<notin> set old \<and> \<not> in_text old new"

lemma prefix_replace:
  assumes "barrier old new" "prefix w (replace_all old new t)" "set w \<subseteq> set old"
  shows "prefix w t"
  using assms
proof (induction old new t arbitrary: w rule: replace_all.induct)
  case (1 old new s)
  show ?case
  proof (cases w)
    case (Cons c w')
    consider (empty) "s = []" | (hit) "s \<noteq> []" "prefix old s" | (miss) "s \<noteq> []" "\<not> prefix old s" by blast
    then show ?thesis
    proof cases
      case empty
      with 1 Cons show ?thesis by (simp add: replace_all.simps)
    next
      case hit
      then have "prefix w (new @ replace_all old new (drop (length old) s))"
        using 1(3,4) by (subst (asm) replace_all.simps) (simp add: barrier_def)
      then have "c = hd new" using Cons 1(3) by (cases new) (simp_all add: barrier_def)
      with 1(3,5) Cons show ?thesis by (simp add: barrier_def)
    next
      case miss
      then have "prefix w (hd s # replace_all old new (tl s))"
        using 1(4) by (subst (asm) replace_all.simps) simp
      with Cons 1(2) [of w'] 1(3,5) miss show ?thesis by (cases s) simp_all
    qed
  qed simp
qed

lemma replace_all_removes:
  assumes "barrier old new"
  shows "\<not> in_text old (replace_all old new s)"
  using assms
proof (induction old new s rule: replace_all.induct)
  case (1 old new s)
  consider (empty) "s = []" | (hit) "s \<noteq> []" "prefix old s" | (miss) "s \<noteq> []" "\<not> prefix old s" by blast
  then show ?case
  proof cases
    case empty
    with 1(3) show ?thesis by (simp add: replace_all.simps barrier_def)
  next
    case hit
    let ?r = "replace_all old new (drop (length old) s)"
    have r: "\<not> in_text old ?r" using 1 hit by (simp add: barrier_def)
    have "\<not> in_text old (new @ ?r)"
    proof
      assume "in_text old (new @ ?r)"
      then obtain a b where ab: "old = a @ b" "suffix a new" "prefix b ?r"
        using r 1(3) unfolding barrier_def sublist_append by blast
      show False
      proof (cases "a = []")
        case True
        with ab r show False by (metis append_Nil prefix_imp_sublist)
      next
        case False
        with ab(2) have "last a = last new" by (auto simp: suffix_def)
        with False ab(1) 1(3) show False by (simp add: barrier_def) (metis last_in_set)
      qed
    qed
    moreover have "replace_all old new s = new @ ?r" using hit 1(3) by (subst replace_all.simps) (simp add: barrier_def)
    ultimately show ?thesis by simp
  next
    case miss
    have "replace_all old new s = hd s # replace_all old new (tl s)" using miss by (subst replace_all.simps) simp
    moreover have "\<not> prefix old (hd s # replace_all old new (tl s))"
    proof
      assume p: "prefix old (hd s # replace_all old new (tl s))"
      with 1(3) obtain w where w: "old = hd s # w" "prefix w (replace_all old new (tl s))"
        by (cases old) (auto simp: barrier_def)
      have "prefix w (tl s)" by (rule prefix_replace [OF 1(3) w(2)]) (use w(1) in auto)
      with w(1) miss show False by (cases s) simp_all
    qed
    moreover have "\<not> in_text old (replace_all old new (tl s))" using 1 miss by blast
    ultimately show ?thesis by (simp add: sublist_Cons_right)
  qed
qed

lemma redaction_barrier: "barrier PROTECTED_ADMIN_OPERATOR_ID ''[protected-admin]''"
proof -
  have "\<not> in_text PROTECTED_ADMIN_OPERATOR_ID ''[protected-admin]''"
    by (auto dest!: sublist_length_le simp: PROTECTED_ADMIN_OPERATOR_ID_def)
  then show ?thesis by (simp add: barrier_def PROTECTED_ADMIN_OPERATOR_ID_def)
qed

text \<open>No key and no text of the value contains the id.\<close>

fun id_free :: "pyval \<Rightarrow> bool" where
  "id_free (VDict d) = (\<forall>(k, v) \<in> set d. \<not> in_text PROTECTED_ADMIN_OPERATOR_ID k \<and> id_free v)"
| "id_free (VList vs) = (\<forall>v \<in> set vs. id_free v)"
| "id_free (VStr s) = (\<not> in_text PROTECTED_ADMIN_OPERATOR_ID s)"
| "id_free v = True"

lemma redact_json_id_free: "id_free (redact_json v)"
  by (induction v) (auto simp: redact_protected_admin_identity_def replace_all_removes [OF redaction_barrier])

subsection \<open>The key of a row\<close>

lemma replace_all_id: "\<not> in_text old s \<Longrightarrow> replace_all old new s = s"
proof (induction old new s rule: replace_all.induct)
  case (1 old new s)
  then show ?case
    by (cases s) (auto simp: replace_all_Cons sublist_Cons_right)
qed

lemma replace_all_hit: "in_text old s \<Longrightarrow> old \<noteq> [] \<Longrightarrow> c \<in> set new \<Longrightarrow> c \<in> set (replace_all old new s)"
proof (induction old new s rule: replace_all.induct)
  case (1 old new s)
  then show ?case
    by (cases s) (auto simp: replace_all_Cons sublist_Cons_right)
qed

text \<open>A text without the opening bracket of the redaction comes only from itself.\<close>

lemma redact_eq_iff:
  assumes "CHR ''['' \<notin> set k" "\<not> in_text PROTECTED_ADMIN_OPERATOR_ID k"
  shows "redact_protected_admin_identity x = k \<longleftrightarrow> x = k"
proof
  assume x: "redact_protected_admin_identity x = k"
  have "\<not> in_text PROTECTED_ADMIN_OPERATOR_ID x"
    using x assms(1) replace_all_hit [of PROTECTED_ADMIN_OPERATOR_ID x "CHR ''[''" "''[protected-admin]''"]
    by (auto simp: redact_protected_admin_identity_def PROTECTED_ADMIN_OPERATOR_ID_def)
  with x show "x = k" by (simp add: redact_protected_admin_identity_def replace_all_id)
qed (simp add: redact_protected_admin_identity_def replace_all_id assms)

lemma short_text_no_id: "length s < 21 \<Longrightarrow> \<not> in_text PROTECTED_ADMIN_OPERATOR_ID s"
  by (auto dest!: sublist_length_le simp: PROTECTED_ADMIN_OPERATOR_ID_def)

lemma redact_short: "length s < 21 \<Longrightarrow> redact_protected_admin_identity s = s"
  by (simp add: redact_protected_admin_identity_def replace_all_id short_text_no_id)

lemma dget_map_keys:
  assumes "\<And>k. g k = k0 \<longleftrightarrow> k = k0"
  shows "dget (map (\<lambda>(k, v). (g k, h v)) d) k0 = map_option h (dget d k0)"
proof (induction d)
  case (Cons p d)
  then show ?case using assms [of "fst p"] by (cases p) auto
qed simp

definition hide_id :: "writer_env \<Rightarrow> string \<Rightarrow> string" where
  "hide_id E s = redact_protected_admin_identity (replace_all PROTECTED_ADMIN_OPERATOR_ID (admin_display E) s)"

text \<open>What a synchronous log call can do to the logs.\<close>

lemma log_event_effect:
  assumes "log_event_sync W flushed out r files = (res, files')"
  shows "files' = files \<or> (\<exists>row. event_row W r = Some row \<and> files' = put_row (path_text (target_log W r)) row files \<and>
    (strip (req_key r) \<noteq> [] \<and> req_dedup r \<longrightarrow>
       matching (strip (redact_protected_admin_identity (req_event r))) (strip (req_key r)) (rows_at files (path_text (target_log W r))) = [] \<and>
       (\<exists>d. row_details row = Some (VDict d) \<and> details_key d = strip (req_key r))))"
proof (cases "event_row W r")
  case None
  with assms show ?thesis by (simp add: log_event_sync_def)
next
  case (Some row)
  let ?path = "path_text (target_log W r)" and ?ev = "redact_protected_admin_identity (req_event r)"
  show ?thesis
  proof (cases "flushed \<and> strip (req_key r) \<noteq> [] \<and> req_dedup r")
    case True
    let ?r = "append_event_log_entry_idempotent out ?path row ?ev (req_key r) files"
    have files': "files' = snd ?r"
      using assms Some True by (auto simp: log_event_sync_def split: prod.splits sum.splits)
    show ?thesis
    proof (cases "check_idempotent_entry (strip ?ev) (strip (req_key r)) row")
      case (Inl e)
      with files' show ?thesis by (simp add: append_event_log_entry_idempotent_def Let_def)
    next
      case (Inr d)
      then have d: "row_details row = Some (VDict d)" "details_key d = strip (req_key r)"
        by (auto simp: check_idempotent_entry_def split: if_splits option.splits)
      show ?thesis
      proof (cases "files' = files")
        case False
        with files' Inr have f: "files' = put_row ?path row files"
          "files ?path = None \<or> (\<exists>c. files ?path = Some c \<and> find_projection (strip ?ev) (strip (req_key r)) d (csv_rows c) = Inr False)"
          by (auto simp: append_event_log_entry_idempotent_def Let_def append_unlocked_eq
              split: option.splits sum.splits bool.splits if_splits)
        then have "matching (strip ?ev) (strip (req_key r)) (rows_at files ?path) = []"
          by (cases "files ?path") (auto simp: rows_at_def matching_def [of _ _ "[]"] dest: find_projection_False)
        with f(1) d Some show ?thesis by blast
      qed simp
    qed
  next
    case False
    then have "files' = files \<or> files' = put_row ?path row files" "\<not> (strip (req_key r) \<noteq> [] \<and> req_dedup r) \<or> files' = files"
      using assms Some by (auto simp: log_event_sync_def append_event_log_entry_def append_unlocked_eq split: if_splits)
    with Some show ?thesis by blast
  qed
qed

lemma event_row_key:
  assumes "event_row E r = Some row" "strip (req_key r) \<noteq> []"
  shows "row_event row = redact_protected_admin_identity (req_event r) \<and>
    (\<exists>d. row_details row = Some (VDict d) \<and> details_key d = strip (hide_id E (strip (req_key r))))"
proof -
  let ?k = "''idempotency_key''"
  let ?e = "plan_b_event_detail (req_event r) (dset ?k (VStr (strip (req_key r))) (stream_detail r))
     (own_source_system E) (own_source_dataset E) (req_canonical r)"
  let ?d = "map (\<lambda>(k, v). (redact_protected_admin_identity k, redact_json v))
     (map (\<lambda>(k, v). (k, sanitize_persistent_value (admin_display E) v)) ?e)"
  have row: "row_event row = redact_protected_admin_identity (req_event r)" "row_details row = Some (VDict ?d)"
    using assms by (auto simp: event_row_def Let_def simp del: nan_free.simps map_map split: if_splits)
  have "dget ?e ?k = Some (VStr (strip (req_key r)))"
    by (simp add: plan_b_event_detail_def dict_simps)
  then have "dget (map (\<lambda>(k, v). (k, sanitize_persistent_value (admin_display E) v)) ?e) ?k =
      Some (VStr (replace_all PROTECTED_ADMIN_OPERATOR_ID (admin_display E) (strip (req_key r))))"
    using dget_map_keys [of "\<lambda>k. k" ?k "sanitize_persistent_value (admin_display E)" ?e] by simp
  then have "dget ?d ?k = Some (VStr (hide_id E (strip (req_key r))))"
    using dget_map_keys [of redact_protected_admin_identity ?k redact_json] redact_eq_iff [of ?k]
    by (simp add: short_text_no_id hide_id_def del: map_map)
  then have "details_key ?d = strip (hide_id E (strip (req_key r)))"
    by (simp add: details_key_def vget_def)
  with row show ?thesis by blast
qed


definition demo_writer :: writer_env where
  "demo_writer = \<lparr>admin_display = ''admin'', contract_log_prefix = ''log_'', local_log_prefix = ''local_'',
     local_events_folder = [], own_source_system = ''s'', own_source_dataset = ''d''\<rparr>"

definition demo_request :: log_request where
  "demo_request = \<lparr>req_event = ''WORK_PAUSE'', req_detail = [(''operator'', VStr ''protected-admin-local'')],
     req_canonical = None, req_key = ''k'', req_time = ''t'', req_log = (''dir'', ''log_1.csv''), req_dedup = False,
     req_worker = ''protected-admin-local'', req_test_tray = False\<rparr>"


end
