(* ===== verification/Warning_Presenter.thy ===== *)
theory Warning_Presenter
  imports Py_Text Machines
begin

text \<open>
  \<open>warning_presenter.py\<close>: the in-memory state machine of the single notice area. The Korean
  title and message of a completion notice are the argument \<open>texts\<close>. Every method returns the
  flag the code returns and the new state.
\<close>

datatype notice_severity = INFO | SUCCESS | WARNING | ERROR

datatype completion_outcome = ACKED | LINKED | RETRY_WAIT | LOCAL_EVENT_RETRY | OPERATOR_REVIEW

record notice =
  notice_code :: string
  notice_title :: string
  notice_message :: string
  severity :: notice_severity
  blocking :: bool

record completion_snapshot =
  outcome :: completion_outcome
  snap_item_name :: string
  snap_master_label :: string
  scan_count :: int
  target_count :: int
  snap_message :: string
  snap_receipt_id :: string
  snap_error_code :: string

definition valid_notice :: "notice \<Rightarrow> bool" where
  "valid_notice n \<longleftrightarrow> strip (notice_code n) \<noteq> [] \<and> strip (notice_title n) \<noteq> [] \<and> strip (notice_message n) \<noteq> []"

definition valid_snapshot :: "completion_snapshot \<Rightarrow> bool" where
  "valid_snapshot s \<longleftrightarrow> 0 \<le> scan_count s \<and> 0 \<le> target_count s \<and> scan_count s \<le> target_count s"

definition blocks_completion :: "completion_snapshot \<Rightarrow> bool" where
  "blocks_completion s \<longleftrightarrow> outcome s \<in> {RETRY_WAIT, LOCAL_EVENT_RETRY, OPERATOR_REVIEW}"

definition operator_retryable :: "completion_snapshot \<Rightarrow> bool" where
  "operator_retryable s \<longleftrightarrow> outcome s \<in> {RETRY_WAIT, LOCAL_EVENT_RETRY}"

definition server_confirmed :: "completion_snapshot \<Rightarrow> bool" where
  "server_confirmed s \<longleftrightarrow> outcome s = ACKED"

record view_state =
  active_notice :: "notice option"
  last_normal_scan :: "string option"
  completion :: "completion_snapshot option"

definition is_blocking :: "view_state \<Rightarrow> bool" where
  "is_blocking v \<longleftrightarrow>
     (case active_notice v of None \<Rightarrow> False | Some n \<Rightarrow> blocking n) \<or>
     (case completion v of None \<Rightarrow> False | Some s \<Rightarrow> blocks_completion s)"

fun completion_code :: "completion_outcome \<Rightarrow> string \<times> notice_severity \<times> bool" where
  "completion_code ACKED = (''completion.acked'', SUCCESS, False)"
| "completion_code LINKED = (''completion.linked'', SUCCESS, False)"
| "completion_code RETRY_WAIT = (''completion.retry_wait'', WARNING, True)"
| "completion_code LOCAL_EVENT_RETRY = (''completion.local_event_retry'', ERROR, True)"
| "completion_code OPERATOR_REVIEW = (''completion.operator_review'', ERROR, True)"

type_synonym notice_texts = "completion_outcome \<Rightarrow> string \<times> string"

definition notice_for_completion :: "notice_texts \<Rightarrow> completion_snapshot \<Rightarrow> notice" where
  "notice_for_completion texts s = (case completion_code (outcome s) of (code, sev, block) \<Rightarrow>
     \<lparr>notice_code = code, notice_title = fst (texts (outcome s)), notice_message = snd (texts (outcome s)),
      severity = sev, blocking = block\<rparr>)"

definition present :: "notice \<Rightarrow> view_state \<Rightarrow> bool \<times> view_state" where
  "present n v =
     (if active_notice v = Some n then (False, v)
      else if is_blocking v then (False, v)
      else (True, v\<lparr>active_notice := Some n\<rparr>))"

definition clear_notice :: "view_state \<Rightarrow> bool \<times> view_state" where
  "clear_notice v = (case active_notice v of
       None \<Rightarrow> (False, v)
     | Some n \<Rightarrow> if blocking n then (False, v) else (True, v\<lparr>active_notice := None\<rparr>))"

definition acknowledge :: "view_state \<Rightarrow> bool \<times> view_state" where
  "acknowledge v = (if active_notice v = None then (False, v) else (True, v\<lparr>active_notice := None\<rparr>))"

definition record_normal_scan :: "string \<Rightarrow> view_state \<Rightarrow> bool \<times> view_state" where
  "record_normal_scan barcode v =
     (if strip barcode = [] \<or> last_normal_scan v = Some (strip barcode) then (False, v)
      else (True, v\<lparr>last_normal_scan := Some (strip barcode)\<rparr>))"

definition clear_last_normal_scan :: "view_state \<Rightarrow> bool \<times> view_state" where
  "clear_last_normal_scan v =
     (if last_normal_scan v = None then (False, v) else (True, v\<lparr>last_normal_scan := None\<rparr>))"

definition present_completion :: "notice_texts \<Rightarrow> completion_snapshot \<Rightarrow> view_state \<Rightarrow> bool \<times> view_state" where
  "present_completion texts s v =
     (let n = notice_for_completion texts s in
      if completion v = Some s \<and> active_notice v = Some n then (False, v)
      else (True, v\<lparr>completion := Some s, active_notice := Some n\<rparr>))"

definition without_completion :: "notice_texts \<Rightarrow> completion_snapshot \<Rightarrow> view_state \<Rightarrow> view_state" where
  "without_completion texts s v =
     v\<lparr>completion := None,
       active_notice := (if active_notice v = Some (notice_for_completion texts s) then None else active_notice v)\<rparr>"

definition clear_completion :: "notice_texts \<Rightarrow> view_state \<Rightarrow> bool \<times> view_state" where
  "clear_completion texts v = (case completion v of
       None \<Rightarrow> (False, v)
     | Some s \<Rightarrow> if blocks_completion s then (False, v) else (True, without_completion texts s v))"

definition resolve_blocking_completion ::
  "notice_texts \<Rightarrow> completion_snapshot \<Rightarrow> view_state \<Rightarrow> bool \<times> view_state" where
  "resolve_blocking_completion texts expected v =
     (if \<not> blocks_completion expected \<or> completion v \<noteq> Some expected then (False, v)
      else (True, without_completion texts expected v))"

subsection \<open>Calls\<close>

datatype presenter_call =
    Present notice
  | Clear
  | Acknowledge
  | RecordScan string
  | ClearScan
  | PresentCompletion completion_snapshot
  | ClearCompletion
  | Resolve completion_snapshot

fun run_presenter :: "notice_texts \<Rightarrow> presenter_call \<Rightarrow> view_state \<Rightarrow> view_state" where
  "run_presenter texts (Present n) v = snd (present n v)"
| "run_presenter texts Clear v = snd (clear_notice v)"
| "run_presenter texts Acknowledge v = snd (acknowledge v)"
| "run_presenter texts (RecordScan b) v = snd (record_normal_scan b v)"
| "run_presenter texts ClearScan v = snd (clear_last_normal_scan v)"
| "run_presenter texts (PresentCompletion s) v = snd (present_completion texts s v)"
| "run_presenter texts ClearCompletion v = snd (clear_completion texts v)"
| "run_presenter texts (Resolve s) v = snd (resolve_blocking_completion texts s v)"

text \<open>
  What the area promises about completions: a result that blocks is only replaced by a newer
  result or removed by resolving exactly it; one that does not block may be dismissed.
\<close>

inductive completion_step :: "completion_snapshot option \<Rightarrow> completion_snapshot option \<Rightarrow> bool" where
  newer: "completion_step c (Some s)"
| dismiss: "\<not> blocks_completion s \<Longrightarrow> completion_step (Some s) None"
| resolve: "blocks_completion s \<Longrightarrow> completion_step (Some s) None"

lemma presenter_completion:
  "completion (run_presenter texts c v) = completion v \<or>
     completion_step (completion v) (completion (run_presenter texts c v))"
proof (cases c)
  case (PresentCompletion s)
  then show ?thesis by (auto simp: present_completion_def Let_def intro: completion_step.newer)
next
  case ClearCompletion
  then show ?thesis
    by (auto simp: clear_completion_def without_completion_def intro: completion_step.dismiss split: option.split)
next
  case (Resolve s)
  then show ?thesis
    by (auto simp: resolve_blocking_completion_def without_completion_def intro: completion_step.resolve)
qed (auto simp: present_def clear_notice_def acknowledge_def record_normal_scan_def clear_last_normal_scan_def
    split: option.split)

interpretation notice_area: refining_machine "run_presenter texts" "\<lambda>v. True" completion completion_step
proof
  show "completion_step\<^sup>*\<^sup>* (completion v) (completion (run_presenter texts c v))" for v c
    using presenter_completion [of texts c v] by auto
qed simp

definition settles :: "completion_snapshot \<Rightarrow> presenter_call \<Rightarrow> bool" where
  "settles s c \<longleftrightarrow> (\<exists>t. c = PresentCompletion t) \<or> c = Resolve s"

text \<open>
  An unsettled completion keeps the operator blocked: once a blocking result is presented,
  no sequence of notices, acknowledgements, scans, dismissals or resolutions of other results
  removes it, and while it stands no other notice appears unless the operator acknowledged the
  notice of the result itself.
\<close>

theorem blocking_completion_persists:
  assumes "completion v = Some s" "blocks_completion s" "\<forall>c \<in> set cs. \<not> settles s c"
  shows "completion (fold (run_presenter texts) cs v) = Some s \<and>
    is_blocking (fold (run_presenter texts) cs v) \<and>
    active_notice (fold (run_presenter texts) cs v) \<in> {active_notice v, None}"
  using assms
proof (induction cs arbitrary: v)
  case (Cons c cs)
  from Cons.prems have ns: "\<not> settles s c" by simp
  have "completion (run_presenter texts c v) = Some s \<and> active_notice (run_presenter texts c v) \<in> {active_notice v, None}"
    using Cons.prems(1,2) ns
    by (cases c) (auto simp: settles_def present_def is_blocking_def clear_notice_def acknowledge_def
        record_normal_scan_def clear_last_normal_scan_def clear_completion_def resolve_blocking_completion_def
        without_completion_def split: option.splits)
  with Cons.IH [of "run_presenter texts c v"] Cons.prems show ?case by auto
qed (auto simp: is_blocking_def)

definition demo_review :: completion_snapshot where
  "demo_review = \<lparr>outcome = OPERATOR_REVIEW, snap_item_name = ''i'', snap_master_label = ''m'', scan_count = 1,
     target_count = 2, snap_message = ''x'', snap_receipt_id = [], snap_error_code = ''E''\<rparr>"

theorem blocking_completion_persists_witness:
  "completion (fold (run_presenter (\<lambda>r. (''t'', ''m''))) [Acknowledge, ClearCompletion, RecordScan ''AB-1'']
     (snd (present_completion (\<lambda>r. (''t'', ''m'')) demo_review \<lparr>active_notice = None, last_normal_scan = None, completion = None\<rparr>))) =
   Some demo_review"
proof -
  let ?v = "snd (present_completion (\<lambda>r. (''t'', ''m'')) demo_review \<lparr>active_notice = None, last_normal_scan = None, completion = None\<rparr>)"
  have "completion ?v = Some demo_review" "blocks_completion demo_review"
    by (simp_all add: present_completion_def Let_def blocks_completion_def demo_review_def)
  moreover have "\<forall>c \<in> set [Acknowledge, ClearCompletion, RecordScan ''AB-1'']. \<not> settles demo_review c"
    by (simp add: settles_def)
  ultimately show ?thesis using blocking_completion_persists by blast
qed

end
