(* ===== verification/Tray_Completion.thy ===== *)
theory Tray_Completion
  imports Product_Identity Event_Payloads Event_Writer Warning_Presenter
begin

text \<open>
  Completing a tray: \<open>tray_completion.py\<close> and the methods of \<open>Container_Audit.py\<close> it calls.

  The code is written as generators: UI state is changed between the yields, and each yielded
  operation (saving the tray state, writing an event, preparing and attempting the transfer,
  deleting the state file) runs outside. \<open>steps\<close> is such a generator: a result, or an operation
  with the rest of the generator for each of its outcomes. The program can stop at every yield;
  what then is left is the durable state the operations made.

  The central transfer (\<open>transfer_seal.py\<close>) is the pair of operations \<open>Prepare\<close> and
  \<open>Attempt\<close> with any outcome (\<^term>\<open>None\<close> is an exception). The operator's Korean texts are the
  argument \<open>texts\<close>, the float sum of idle seconds is \<open>add_idle\<close>, what a reload of the day's history
  reads (\<open>session_history.py\<close>) is \<open>history\<close>. Buttons, sounds and repainting are
  left out.
\<close>

subsection \<open>Generators\<close>

record seal_attempt =
  seal_intent_id :: string
  seal_status :: string
  seal_local_completion_id :: string
  seal_command_id :: string
  seal_transfer_bundle_id :: string
  seal_qr_payload :: string
  seal_member_count :: int
  seal_membership_hash :: string
  seal_receipt_id :: string
  seal_source_bundle_id :: string
  seal_remainder_bundle_id :: string
  seal_authority_scope_id :: string
  seal_authority_epoch :: int
  seal_ledger_plane :: string
  seal_plane_epoch :: int
  seal_item_id :: string
  seal_inbound_iin :: string
  seal_uom :: string
  seal_entity_versions :: "(string, int) dict"
  seal_operation_lease_id :: string
  seal_operation_lease_state :: string
  seal_retryable :: bool
  seal_error_code :: string

datatype 'r steps =
    Ret 'r
  | Save json "bool \<Rightarrow> 'r steps"
  | Log log_request "bool \<times> bool \<Rightarrow> 'r steps"
  | Delete "bool \<Rightarrow> 'r steps"
  | Prepare "seal_attempt option \<Rightarrow> 'r steps"
  | Attempt string "seal_attempt option \<Rightarrow> 'r steps"
  | PostReview string "json option \<Rightarrow> 'r steps"
  | LogLater string json "bool \<Rightarrow> 'r steps"
  | BestTime pyval "bool \<Rightarrow> 'r steps"

text \<open>\<open>yield from\<close>\<close>

primrec yield_from :: "'a steps \<Rightarrow> ('a \<Rightarrow> 'b steps) \<Rightarrow> 'b steps" where
  "yield_from (Ret x) f = f x"
| "yield_from (Save st k) f = Save st (\<lambda>b. yield_from (k b) f)"
| "yield_from (Log r k) f = Log r (\<lambda>b. yield_from (k b) f)"
| "yield_from (Delete k) f = Delete (\<lambda>b. yield_from (k b) f)"
| "yield_from (Prepare k) f = Prepare (\<lambda>b. yield_from (k b) f)"
| "yield_from (Attempt i k) f = Attempt i (\<lambda>b. yield_from (k b) f)"
| "yield_from (PostReview i k) f = PostReview i (\<lambda>b. yield_from (k b) f)"
| "yield_from (LogLater e d k) f = LogLater e d (\<lambda>b. yield_from (k b) f)"
| "yield_from (BestTime t k) f = BestTime t (\<lambda>b. yield_from (k b) f)"

subsection \<open>The owner\<close>

datatype completion_text =
    PreparedPersistFailedText | PreparedAttemptFailedText | IntentMismatchText | ServerUnconfirmedText
  | EvidenceRegressionText | WaitForAckText | RebuildFailedText | RetryContractPersistFailedText
  | EventPersistFailedText | AckedText string | LinkedReviewText string | LinkedRetryText string
  | LockNotSavedText string | ReviewDefaultText | InterruptedRecordText | InterruptedTransferText

datatype completion_error =
    ContextStale | RetryIntentMismatch | PreparedPersistFailed | IntentMissing | WorkerMissing | HashRefused

record completion_env =
  codecs :: qr_codecs
  iso :: iso_lib
  writer :: writer_env
  texts :: "completion_text \<Rightarrow> string"
  notices :: notice_texts
  sha256 :: "string \<Rightarrow> string"
  add_idle :: "pyval \<Rightarrow> int \<Rightarrow> pyval"
  history :: "log_path \<times> (string, (string \<times> string) \<times> int \<times> int) dict \<times> int \<times> pyval list \<times> string list"

record owner =
  own_tray :: tray_session
  own_worker :: string
  own_contract :: "json option"
  own_review :: "completion_snapshot option"
  own_view :: view_state
  own_activation :: "json option"
  own_parked :: "json option"
  own_idle :: bool
  own_last_activity :: "dt option"
  own_folder :: string
  own_log :: log_path
  own_summary :: "(string, (string \<times> string) \<times> int \<times> int) dict"
  own_count :: int
  own_times :: "pyval list"
  own_labels :: "string list"

definition fresh_tray :: tray_session where
  "fresh_tray = \<lparr>master_label_code = [], item_code = [], item_name = [], item_spec = [], scanned_barcodes = [],
     scan_times = [], preflight_scan_receipts = [], tray_size = 60, mismatch_error_count = 0,
     total_idle_seconds = VFloat (FFin 0 ''0.0''), stopwatch_seconds = VFloat (FFin 0 ''0.0''), start_time = None,
     has_error_or_reset = False, is_test_tray = False, is_partial_submission = False, is_restored_session = False,
     canonical_input_tag_qr = [], active_label_qr_payload = [], active_label_id = [],
     active_label_business_date = [], active_label_worker_code = [], operation_lease_id = []\<rparr>"

definition active_blocking_completion :: "owner \<Rightarrow> completion_snapshot option" where
  "active_blocking_completion o' =
     (case own_review o' of
        Some s \<Rightarrow> if blocks_completion s then Some s
                   else (case completion (own_view o') of
                       None \<Rightarrow> None | Some c \<Rightarrow> if blocks_completion c then Some c else None)
      | None \<Rightarrow> (case completion (own_view o') of
          None \<Rightarrow> None | Some c \<Rightarrow> if blocks_completion c then Some c else None))"

definition operator_review_blocks_mutation :: "owner \<Rightarrow> bool" where
  "operator_review_blocks_mutation o' \<longleftrightarrow> active_blocking_completion o' \<noteq> None"

fun outcome_value :: "completion_outcome \<Rightarrow> string" where
  "outcome_value ACKED = ''ACKED''"
| "outcome_value LINKED = ''LINKED''"
| "outcome_value RETRY_WAIT = ''RETRY_WAIT''"
| "outcome_value LOCAL_EVENT_RETRY = ''LOCAL_EVENT_RETRY''"
| "outcome_value OPERATOR_REVIEW = ''OPERATOR_REVIEW''"

definition operator_review_state_payload :: "completion_env \<Rightarrow> owner \<Rightarrow> json option" where
  "operator_review_state_payload E o' = (case active_blocking_completion o' of
       None \<Rightarrow> None
     | Some s \<Rightarrow> Some
         [(''schema_version'', VInt 1), (''outcome'', VStr (outcome_value (outcome s))),
          (''item_name'', VStr (item_name (own_tray o'))), (''master_label'', VStr (master_label_code (own_tray o'))),
          (''scan_count'', VInt (int (length (scanned_barcodes (own_tray o'))))),
          (''target_count'', VInt (tray_size (own_tray o'))),
          (''message'', VStr (if snap_message s = [] then texts E ReviewDefaultText else snap_message s)),
          (''receipt_id'', VStr (snap_receipt_id s)), (''error_code'', VStr (snap_error_code s))])"

definition set_pending :: "string \<Rightarrow> json option \<Rightarrow> json \<Rightarrow> json" where
  "set_pending key c state = (case c of None \<Rightarrow> state | Some p \<Rightarrow> dset key (VDict p) state)"

definition micros_between :: "dt \<Rightarrow> dt \<Rightarrow> int" where
  "micros_between a b =
     (wall a - (case utc_offset a of None \<Rightarrow> 0 | Some n \<Rightarrow> n)) - (wall b - (case utc_offset b of None \<Rightarrow> 0 | Some n \<Rightarrow> n))"

definition current_tray_state_snapshot :: "completion_env \<Rightarrow> dt \<Rightarrow> owner \<Rightarrow> json" where
  "current_tray_state_snapshot E now o' =
     (let state = set_pending ''pending_operator_review'' (operator_review_state_payload E o')
          (set_pending ''pending_completion_event'' (own_contract o')
          (set_pending ''pending_parked_restore'' (own_parked o')
          (set_pending ''pending_activation_event'' (own_activation o')
            (tray_session_to_state (iso E) (admin_display (writer E)) (own_worker o') (own_tray o')))))
      in case own_last_activity o' of
           None \<Rightarrow> state
         | Some t \<Rightarrow> if own_idle o'
             then dset ''total_idle_seconds'' (add_idle E (vget state ''total_idle_seconds'') (max 0 (micros_between now t))) state
             else state)"

text \<open>\<open>yield self._current_tray_save_operation()\<close>: without a label nothing is written.\<close>

definition save_tray :: "completion_env \<Rightarrow> dt \<Rightarrow> owner \<Rightarrow> (bool \<Rightarrow> 'r steps) \<Rightarrow> 'r steps" where
  "save_tray E now o' k =
     (if master_label_code (own_tray o') = [] then k False else Save (current_tray_state_snapshot E now o') k)"

subsection \<open>Completion outcomes\<close>

definition publish_completion_snapshot :: "completion_env \<Rightarrow> completion_snapshot \<Rightarrow> owner \<Rightarrow> owner" where
  "publish_completion_snapshot E s o' =
     o'\<lparr>own_review := (if blocks_completion s then Some s else None),
        own_view := snd (present_completion (notices E) s (own_view o'))\<rparr>"

definition completion_outcome_steps ::
  "completion_env \<Rightarrow> dt \<Rightarrow> completion_outcome \<Rightarrow> completion_text \<Rightarrow> string \<Rightarrow> string \<Rightarrow> owner \<Rightarrow> owner steps" where
  "completion_outcome_steps E now kind message receipt_id error_code o' =
     (let n = int (length (scanned_barcodes (own_tray o')));
          s = \<lparr>outcome = kind, snap_item_name = item_name (own_tray o'),
               snap_master_label = master_label_code (own_tray o'), scan_count = max 0 n,
               target_count = max n (tray_size (own_tray o')), snap_message = texts E message,
               snap_receipt_id = receipt_id, snap_error_code = error_code\<rparr>
      in if \<not> blocks_completion s then Ret (publish_completion_snapshot E s o')
         else let o1 = o'\<lparr>own_review := Some s\<rparr> in
           save_tray E now o1 (\<lambda>ok. Ret (publish_completion_snapshot E
             (if ok then s else s\<lparr>snap_message := texts E (LockNotSavedText (snap_message s))\<rparr>) o1)))"

subsection \<open>The completion contract\<close>

record completion_basis =
  observed_at :: dt
  was_restored :: bool
  projection_worker :: string
  projection_log :: log_path

definition completion_event_contract ::
  "completion_env \<Rightarrow> completion_basis \<Rightarrow> seal_attempt \<Rightarrow> json \<Rightarrow> bool \<Rightarrow> completion_error + json" where
  "completion_event_contract E B a transfer_detail log_attempted =
     (let intent = strip (seal_intent_id a);
          worker = persistent_operator_name (admin_display (writer E)) (projection_worker B)
      in if intent = [] then Inl IntentMissing
         else if worker = [] then Inl WorkerMissing
         else Inr
           [(''schema_version'', VInt 1), (''event_type'', VStr ''TRAY_COMPLETE''),
            (''idempotency_key'', VStr (''tray-complete:'' @ intent)), (''observed_at'', VStr (isoformat (iso E) (observed_at B))),
            (''projection_log_name'', VStr (snd (projection_log B))), (''projection_worker_name'', VStr worker),
            (''transfer_intent_id'', VStr intent), (''was_restored_session'', VBool (was_restored B)),
            (''log_may_have_been_attempted'', VBool log_attempted), (''transfer_detail'', VDict transfer_detail)])"

definition completion_projection_log_path :: "owner \<Rightarrow> string \<Rightarrow> log_path option" where
  "completion_projection_log_path o' name =
     (let save_root = (if own_folder o' = [] then fst (own_log o') else own_folder o') in
      if name \<noteq> [] then (if is_log_name (strip name) then Some (save_root, strip name) else None)
      else if path_text (own_log o') = [] \<or> fst (own_log o') \<noteq> save_root then None
      else Some (own_log o'))"

text \<open>
  When, by whom and where the completion is recorded: a stored contract fixes all of it;
  \<^term>\<open>None\<close> is the refused start.
\<close>

definition completion_basis_of :: "completion_env \<Rightarrow> dt \<Rightarrow> owner \<Rightarrow> completion_basis option" where
  "completion_basis_of E now o' = (case own_contract o' of
       None \<Rightarrow> (case completion_projection_log_path o' [] of
           None \<Rightarrow> None
         | Some p \<Rightarrow> Some \<lparr>observed_at = now, was_restored = is_restored_session (own_tray o'),
             projection_worker = persistent_operator_name (admin_display (writer E)) (own_worker o'),
             projection_log = p\<rparr>)
     | Some c \<Rightarrow> (case (fromisoformat (iso E) (py_str (vget c ''observed_at'')),
                       completion_projection_log_path o' (py_str (vget c ''projection_log_name''))) of
           (Some t, Some p) \<Rightarrow> Some \<lparr>observed_at = t, was_restored = truthy (vget c ''was_restored_session''),
             projection_worker = py_str (vget c ''projection_worker_name''), projection_log = p\<rparr>
         | _ \<Rightarrow> None))"

definition contract_intent :: "json \<Rightarrow> string" where
  "contract_intent c = str_or_empty (vget c ''transfer_intent_id'')"

definition log_attempted :: "json \<Rightarrow> bool" where
  "log_attempted c \<longleftrightarrow> vget c ''log_may_have_been_attempted'' = VBool True"

definition stored_transfer_detail :: "json option \<Rightarrow> json" where
  "stored_transfer_detail c = (case c of
       None \<Rightarrow> []
     | Some p \<Rightarrow> (case as_dict (vget p ''transfer_detail'') of None \<Rightarrow> [] | Some d \<Rightarrow> d))"

text \<open>Before the transfer is attempted its intent is made durable.\<close>

definition prepared_completion_contract_steps ::
  "completion_env \<Rightarrow> dt \<Rightarrow> bool \<Rightarrow> completion_basis \<Rightarrow> seal_attempt \<Rightarrow> owner \<Rightarrow> ((completion_error + unit) \<times> owner) steps" where
  "prepared_completion_contract_steps E now stale B a o' =
     (if stale then Ret (Inl ContextStale, o')
      else case (case own_contract o' of
            None \<Rightarrow> completion_event_contract E B a [] False
          | Some c \<Rightarrow> if strip (seal_intent_id a) \<noteq> strip (contract_intent c) then Inl RetryIntentMismatch else Inr c) of
        Inl e \<Rightarrow> Ret (Inl e, o')
      | Inr c \<Rightarrow>
          let o1 = o'\<lparr>own_contract := Some c\<rparr> in
          save_tray E now o1 (\<lambda>ok. if ok then Ret (Inr (), o1)
            else yield_from (completion_outcome_steps E now RETRY_WAIT PreparedPersistFailedText []
                   ''TRAY_COMPLETE_PREPARED_CONTRACT_PERSIST_FAILED'' o1)
                 (\<lambda>o2. Ret (Inl PreparedPersistFailed, o2))))"

definition freeze_completion_measurements :: "completion_env \<Rightarrow> dt \<Rightarrow> owner \<Rightarrow> owner" where
  "freeze_completion_measurements E t o' =
     (if own_idle o' then
        let tr = own_tray o' in
        o'\<lparr>own_tray := (case own_last_activity o' of
                None \<Rightarrow> tr
              | Some s \<Rightarrow> tr\<lparr>total_idle_seconds := add_idle E (total_idle_seconds tr) (max 0 (micros_between t s))\<rparr>),
           own_last_activity := Some t, own_idle := False\<rparr>
      else o')"

definition text_or_none :: "string \<Rightarrow> pyval" where
  "text_or_none s = (if s = [] then VNone else VStr s)"

definition int_or_none :: "int \<Rightarrow> pyval" where
  "int_or_none n = (if n = 0 then VNone else VInt n)"

definition attach_transfer_seal_detail :: "(string \<Rightarrow> string) \<Rightarrow> seal_attempt \<Rightarrow> json \<Rightarrow> json" where
  "attach_transfer_seal_detail sha a detail = dupdate detail
     [(''transfer_seal_schema_version'', VStr ''container-audit-transfer-seal-v1''),
      (''transfer_seal_intent_id'', VStr (seal_intent_id a)),
      (''transfer_local_completion_id'', text_or_none (seal_local_completion_id a)),
      (''transfer_seal_status'', VStr (seal_status a)),
      (''transfer_seal_idempotency_key'', text_or_none (seal_command_id a)),
      (''transfer_bundle_id'', text_or_none (seal_transfer_bundle_id a)),
      (''transfer_source_bundle_id'', text_or_none (seal_source_bundle_id a)),
      (''transfer_remainder_bundle_id'', text_or_none (seal_remainder_bundle_id a)),
      (''transfer_member_count'', VInt (seal_member_count a)),
      (''transfer_membership_hash'', text_or_none (seal_membership_hash a)),
      (''transfer_seal_qr_sha256'', if seal_qr_payload a = [] then VNone else VStr (sha (seal_qr_payload a))),
      (''transfer_seal_receipt_id'', text_or_none (seal_receipt_id a)),
      (''transfer_authority_scope_id'', text_or_none (seal_authority_scope_id a)),
      (''transfer_authority_epoch'', int_or_none (seal_authority_epoch a)),
      (''transfer_ledger_plane'', text_or_none (seal_ledger_plane a)),
      (''transfer_plane_epoch'', int_or_none (seal_plane_epoch a)),
      (''transfer_inbound_iin'', text_or_none (seal_inbound_iin a)),
      (''transfer_item_id'', text_or_none (seal_item_id a)),
      (''transfer_uom'', text_or_none (seal_uom a)),
      (''transfer_entity_versions'', VDict (map (\<lambda>(k, n). (k, VInt n)) (seal_entity_versions a))),
      (''terminal_operation_lease_id'', text_or_none (seal_operation_lease_id a)),
      (''terminal_operation_lease_state'', text_or_none (seal_operation_lease_state a)),
      (''transfer_route_provenance'', VStr ''CONTAINER_AUDIT_EXACT_PRODUCT_SCAN''),
      (''transfer_seal_retryable'', VBool (seal_retryable a)),
      (''transfer_seal_error_code'', text_or_none (seal_error_code a))]"

subsection \<open>Recording a completion\<close>

definition is_phs2 :: "fields \<Rightarrow> bool" where
  "is_phs2 fs \<longleftrightarrow> stripped_field fs ''PHS'' = ''2''"

definition completion_detail :: "completion_env \<Rightarrow> completion_basis \<Rightarrow> fields \<Rightarrow> owner \<Rightarrow> payload_error + json" where
  "completion_detail E B fs o' =
     rbind (build_tray_complete_detail (codecs E) (iso E) (own_tray o') fs (observed_at B)) (\<lambda>d.
       Inr (dset ''is_restored_session'' (VBool (was_restored B)) d))"

text \<open>A stored transfer detail with the legacy QR payload replaced by its hash.\<close>

definition migrate_transfer_detail :: "(string \<Rightarrow> string) \<Rightarrow> json \<Rightarrow> json" where
  "migrate_transfer_detail sha stored =
     (let legacy = str_or_empty (vget stored ''seal_qr_payload'');
          rest = dremove ''seal_qr_payload'' stored
      in if legacy = [] then rest else setdefault ''transfer_seal_qr_sha256'' (VStr (sha legacy)) rest)"

text \<open>The detail of the event and the transfer part the contract keeps.\<close>

definition transfer_details :: "(string \<Rightarrow> string) \<Rightarrow> seal_attempt \<Rightarrow> json option \<Rightarrow> json \<Rightarrow> json \<times> json" where
  "transfer_details sha a existing detail =
     (let attached = attach_transfer_seal_detail sha a detail;
          current = filter (\<lambda>(k, v). k \<notin> set (dkeys detail)) attached;
          stored = stored_transfer_detail existing
      in if stored = [] then (attached, current)
         else let migrated = migrate_transfer_detail sha stored in (dupdate attached migrated, migrated))"

definition other_worker :: "completion_env \<Rightarrow> completion_basis \<Rightarrow> owner \<Rightarrow> bool" where
  "other_worker E B o' \<longleftrightarrow>
     persistent_operator_name (admin_display (writer E)) (projection_worker B)
       \<noteq> persistent_operator_name (admin_display (writer E)) (own_worker o')"

definition completion_request ::
  "completion_env \<Rightarrow> completion_basis \<Rightarrow> json option \<Rightarrow> json \<Rightarrow> json \<Rightarrow> owner \<Rightarrow> log_request" where
  "completion_request E B existing contract detail o' =
     \<lparr>req_event = ''TRAY_COMPLETE'', req_detail = detail, req_canonical = None,
      req_key = py_str (vget contract ''idempotency_key''), req_time = py_str (vget contract ''observed_at''),
      req_log = projection_log B,
      req_dedup = (case existing of None \<Rightarrow> False | Some c \<Rightarrow> log_attempted c),
      req_worker = (if other_worker E B o' then projection_worker B else own_worker o'),
      req_test_tray = is_test_tray (own_tray o')\<rparr>"

definition completion_time_eligible_for_best_time :: "json \<Rightarrow> bool" where
  "completion_time_eligible_for_best_time d =
     (list_all (\<lambda>k. vget d k = VBool False)
        [''has_error_or_reset'', ''is_partial_submission'', ''is_restored_session'', ''is_test_tray''] \<and>
      (case (vget d ''scan_count'', vget d ''tray_capacity'') of
         (VInt n, VInt cap) \<Rightarrow>
           0 < cap \<and> n = cap \<and> \<not> is_VBool (vget d ''work_time_sec'') \<and>
           (case as_number (vget d ''work_time_sec'') of
              Some (Number q) \<Rightarrow> 0 < q \<and> 5 \<le> q / of_int cap
            | Some PosInf \<Rightarrow> True
            | _ \<Rightarrow> False)
       | _ \<Rightarrow> False))"

text \<open>The snapshot of a settled completion; a test tray and a transfer nobody confirmed have none.\<close>

definition settled_snapshot :: "completion_env \<Rightarrow> seal_attempt \<Rightarrow> owner \<Rightarrow> completion_snapshot option" where
  "settled_snapshot E a o' =
     (let tr = own_tray o'; n = int (length (scanned_barcodes tr));
          linked = (seal_local_completion_id a \<noteq> [])
      in if is_test_tray tr \<or> \<not> (seal_status a = ''ACKED'' \<or> linked) then None
         else Some \<lparr>outcome = (if seal_status a = ''ACKED'' then ACKED else LINKED), snap_item_name = item_name tr,
                snap_master_label = master_label_code tr, scan_count = n, target_count = max n (tray_size tr),
                snap_message = texts E (if seal_status a = ''ACKED'' then AckedText (item_name tr)
                  else if seal_status a = ''OPERATOR_REVIEW'' then LinkedReviewText (item_name tr)
                  else LinkedRetryText (item_name tr)),
                snap_receipt_id = seal_receipt_id a, snap_error_code = seal_error_code a\<rparr>)"

definition load_session_state :: "completion_env \<Rightarrow> owner \<Rightarrow> owner" where
  "load_session_state E o' = (case history E of (path, summary, count, ts, labels) \<Rightarrow>
     o'\<lparr>own_log := path, own_summary := summary, own_count := count, own_times := ts, own_labels := labels\<rparr>)"

definition remember_completed_master_label :: "completion_env \<Rightarrow> string \<Rightarrow> owner \<Rightarrow> owner" where
  "remember_completed_master_label E label o' =
     (if label = [] then o'
      else o'\<lparr>own_labels := List.insert (canonical_master_label_key (codecs E) label) (List.insert label (own_labels o'))\<rparr>)"

definition summary_entry :: "owner \<Rightarrow> (string \<times> string) \<times> int \<times> int" where
  "summary_entry o' = (case dget (own_summary o') (item_code (own_tray o')) of
       None \<Rightarrow> ((item_name (own_tray o'), item_spec (own_tray o')), 0, 0)
     | Some e \<Rightarrow> e)"

text \<open>Counters and records; \<open>reload\<close> when the row may have been counted before.\<close>

definition count_completion :: "completion_env \<Rightarrow> bool \<Rightarrow> json \<Rightarrow> owner \<Rightarrow> owner \<times> pyval option" where
  "count_completion E reload detail o' =
     (let tr = own_tray o';
          o1 = (if reload then load_session_state E o' else o');
          o2 = (if \<not> is_test_tray tr \<and> \<not> is_partial_submission tr \<and> qr_fields (codecs E) (master_label_code tr) \<noteq> []
                then remember_completed_master_label E (master_label_code tr) o1 else o1);
          (names, n, tests) = summary_entry o2;
          put = (\<lambda>e x. x\<lparr>own_summary := dset (item_code tr) e (own_summary x)\<rparr>)
      in if reload then (put (names, n, tests) o2, None)
         else if is_test_tray tr then (put (names, n, tests + 1) o2, None)
         else let o3 = put (names, n + 1, tests) o2;
                  o4 = (if is_partial_submission tr then o3 else o3\<lparr>own_count := own_count o3 + 1\<rparr>)
              in if completion_time_eligible_for_best_time detail
                 then (o4\<lparr>own_times := own_times o4 @ [vget detail ''work_time_sec'']\<rparr>, Some (vget detail ''work_time_sec''))
                 else (o4, None))"

definition present_completed_tray :: "completion_env \<Rightarrow> bool \<Rightarrow> completion_snapshot option \<Rightarrow> owner \<Rightarrow> owner" where
  "present_completed_tray E delete_failed snap o' =
     (let o1 = o'\<lparr>own_idle := True\<rparr> in
      case snap of
        None \<Rightarrow> o1
      | Some s \<Rightarrow> let o2 = publish_completion_snapshot E s o1 in
          if delete_failed then o2\<lparr>own_view := snd (acknowledge (own_view o2))\<rparr> else o2)"

definition apply_completed_tray_state_steps :: "string \<Rightarrow> string \<Rightarrow> owner \<Rightarrow> (bool \<times> owner) steps" where
  "apply_completed_tray_state_steps label item o' =
     (let o1 = o'\<lparr>own_contract := None, own_tray := fresh_tray\<rparr> in
      Delete (\<lambda>deleted. if deleted then Ret (False, o1)
        else LogLater ''TRAY_STATE_DELETE_FAILED_AFTER_COMPLETION''
               [(''master_label_code'', VStr label), (''item_code'', VStr item)] (\<lambda>_. Ret (True, o1))))"

type_synonym completion_result = "(completion_error + bool) \<times> owner"

definition refuse :: "owner \<Rightarrow> completion_result steps" where
  "refuse o' = Ret (Inr False, o')"

definition refuse_with ::
  "completion_env \<Rightarrow> dt \<Rightarrow> completion_outcome \<Rightarrow> completion_text \<Rightarrow> string \<Rightarrow> string \<Rightarrow> owner \<Rightarrow> completion_result steps" where
  "refuse_with E now kind message receipt_id error_code o' =
     yield_from (completion_outcome_steps E now kind message receipt_id error_code o') refuse"

text \<open>After the event is in the log: counters, the new tray, the end of the state file.\<close>

definition release_steps ::
  "completion_env \<Rightarrow> seal_attempt \<Rightarrow> bool \<Rightarrow> json \<Rightarrow> owner \<Rightarrow> completion_result steps" where
  "release_steps E a reload detail o' =
     (let snap = settled_snapshot E a o'; tr = own_tray o';
          (o1, best) = count_completion E reload detail o';
          rest = yield_from (apply_completed_tray_state_steps (master_label_code tr) (item_code tr) o1)
            (\<lambda>(failed, o2). Ret (Inr True, present_completed_tray E failed snap o2))
      in case best of None \<Rightarrow> rest | Some t \<Rightarrow> BestTime t (\<lambda>_. rest))"

text \<open>After the log call, \<open>replay\<close> when it found the event already there.\<close>

definition after_logging ::
  "completion_env \<Rightarrow> dt \<Rightarrow> completion_basis \<Rightarrow> seal_attempt \<Rightarrow> json \<Rightarrow> owner \<Rightarrow> bool \<times> bool \<Rightarrow> completion_result steps" where
  "after_logging E now B a detail o' = (\<lambda>(written, replay).
     if \<not> written then refuse_with E now LOCAL_EVENT_RETRY EventPersistFailedText (seal_receipt_id a)
       ''TRAY_COMPLETE_EVENT_PERSIST_FAILED'' o'
     else let rest = release_steps E a (replay \<or> other_worker E B o') detail o' in
       if seal_status a = ''OPERATOR_REVIEW'' \<and> seal_local_completion_id a \<noteq> []
       then PostReview (seal_intent_id a) (\<lambda>_. rest) else rest)"

text \<open>The contract is made durable before the event is written.\<close>

definition log_completion_steps ::
  "completion_env \<Rightarrow> dt \<Rightarrow> completion_basis \<Rightarrow> json option \<Rightarrow> seal_attempt \<Rightarrow> json \<Rightarrow> json \<Rightarrow> owner \<Rightarrow> completion_result steps" where
  "log_completion_steps E now B existing a c detail o' =
     save_tray E now o' (\<lambda>saved.
       if \<not> saved then refuse_with E now LOCAL_EVENT_RETRY RetryContractPersistFailedText (seal_receipt_id a)
         ''TRAY_COMPLETE_RETRY_CONTRACT_PERSIST_FAILED'' o'
       else Log (completion_request E B existing c detail o') (after_logging E now B a detail o'))"

definition record_completion_steps ::
  "completion_env \<Rightarrow> dt \<Rightarrow> completion_basis \<Rightarrow> fields \<Rightarrow> json option \<Rightarrow> seal_attempt \<Rightarrow> owner \<Rightarrow> completion_result steps" where
  "record_completion_steps E now B fs existing a o0 =
     (let o' = freeze_completion_measurements E (observed_at B) o0 in
      case completion_detail E B fs o' of
        Inl e \<Rightarrow> refuse_with E now OPERATOR_REVIEW RebuildFailedText (seal_receipt_id a) ''TRAY_COMPLETE_EVENT_REBUILD_FAILED'' o'
      | Inr d \<Rightarrow>
          (case transfer_details (sha256 E) a existing d of (detail, transfer) \<Rightarrow>
           (case completion_event_contract E B a transfer True of
              Inl e \<Rightarrow> Ret (Inl e, o')
            | Inr c \<Rightarrow> log_completion_steps E now B existing a c
                (dset ''idempotency_key'' (vget c ''idempotency_key'') detail) (o'\<lparr>own_contract := Some c\<rparr>))))"

text \<open>What the result of the transfer allows.\<close>

definition completion_after_attempt ::
  "completion_env \<Rightarrow> dt \<Rightarrow> completion_basis \<Rightarrow> fields \<Rightarrow> json option \<Rightarrow> seal_attempt \<Rightarrow> owner \<Rightarrow> completion_result steps" where
  "completion_after_attempt E now B fs existing a o' =
     (let linked = (seal_local_completion_id a \<noteq> []);
          frozen = freeze_completion_measurements E (observed_at B) o';
          mismatch = (case existing of None \<Rightarrow> False | Some c \<Rightarrow> contract_intent c \<noteq> seal_intent_id a);
          attempted = (case existing of None \<Rightarrow> False | Some c \<Rightarrow> log_attempted c)
      in
      if mismatch then refuse_with E now OPERATOR_REVIEW IntentMismatchText (seal_receipt_id a)
        ''TRAY_COMPLETE_RETRY_INTENT_MISMATCH'' frozen
      else if seal_status a = ''OPERATOR_REVIEW'' \<and> \<not> linked then
        refuse_with E now OPERATOR_REVIEW ServerUnconfirmedText (seal_receipt_id a) (seal_error_code a) frozen
      else if is_phs2 fs \<and> seal_status a \<noteq> ''ACKED'' \<and> \<not> linked then
        (if attempted then refuse_with E now OPERATOR_REVIEW EvidenceRegressionText (seal_receipt_id a)
           ''TRAY_COMPLETE_TRANSFER_EVIDENCE_REGRESSION'' frozen
         else (case completion_event_contract E B a (stored_transfer_detail existing) False of
             Inl e \<Rightarrow> Ret (Inl e, frozen)
           | Inr c \<Rightarrow> refuse_with E now RETRY_WAIT WaitForAckText (seal_receipt_id a) (seal_error_code a)
               (frozen\<lparr>own_contract := Some c\<rparr>)))
      else record_completion_steps E now B fs existing a o')"

subsection \<open>Completing a tray\<close>

record completion_call =
  hold_blocks :: bool
  label_exchange_blocks :: bool
  member_exchange_blocks :: bool
  prepared_attempt :: "seal_attempt option"
  lane_prechecked :: bool
  context_stale :: bool
  call_now :: dt

text \<open>The intent of a test tray, which is never transferred.\<close>

definition test_attempt :: "completion_env \<Rightarrow> json \<Rightarrow> owner \<Rightarrow> seal_attempt option" where
  "test_attempt E detail o' = (case stable_hash (sha256 E)
       [(''master_label'', VStr (master_label_code (own_tray o'))), (''start_time'', vget detail ''start_time''),
        (''product_barcodes'', if truthy (vget detail ''product_barcodes'') then vget detail ''product_barcodes'' else VList []),
        (''is_test_tray'', VBool True)] of
       None \<Rightarrow> None
     | Some h \<Rightarrow> Some
         \<lparr>seal_intent_id = ''test-transfer-seal-skipped-'' @ take 24 h, seal_status = ''TEST_SKIPPED'',
          seal_local_completion_id = [], seal_command_id = [], seal_transfer_bundle_id = [], seal_qr_payload = [],
          seal_member_count = 0, seal_membership_hash = [], seal_receipt_id = [], seal_source_bundle_id = [],
          seal_remainder_bundle_id = [], seal_authority_scope_id = [], seal_authority_epoch = 0,
          seal_ledger_plane = [], seal_plane_epoch = 0, seal_item_id = [], seal_inbound_iin = [], seal_uom = [],
          seal_entity_versions = [], seal_operation_lease_id = [], seal_operation_lease_state = [],
          seal_retryable = False, seal_error_code = []\<rparr>)"

text \<open>
  Preparing the transfer, making its intent durable, attempting it. \<^term>\<open>Inl e\<close> is the exception of
  the checkpoint, \<^term>\<open>Inr None\<close> one of the transfer.
\<close>

definition transfer_steps ::
  "completion_env \<Rightarrow> completion_call \<Rightarrow> completion_basis \<Rightarrow> owner \<Rightarrow> ((completion_error + seal_attempt option) \<times> owner) steps" where
  "transfer_steps E P B o' =
     Prepare (\<lambda>prepared. case prepared of
         None \<Rightarrow> Ret (Inr None, o')
       | Some a \<Rightarrow> yield_from (prepared_completion_contract_steps E (call_now P) (context_stale P) B a o') (\<lambda>(r, o1).
           case r of
             Inl e \<Rightarrow> Ret (Inl e, o1)
           | Inr _ \<Rightarrow> Attempt (seal_intent_id a) (\<lambda>result. Ret (Inr result, o1))))"

definition completion_guard :: "completion_call \<Rightarrow> fields \<Rightarrow> owner \<Rightarrow> bool" where
  "completion_guard P fs o' \<longleftrightarrow>
     \<not> hold_blocks P \<and>
     (case active_blocking_completion o' of None \<Rightarrow> True | Some s \<Rightarrow> operator_retryable s) \<and>
     \<not> label_exchange_blocks P \<and> (lane_prechecked P \<or> \<not> member_exchange_blocks P) \<and>
     (is_phs2 fs \<longrightarrow> int (length (scanned_barcodes (own_tray o'))) = tray_size (own_tray o'))"

definition complete_tray_steps :: "completion_env \<Rightarrow> completion_call \<Rightarrow> owner \<Rightarrow> completion_result steps" where
  "complete_tray_steps E P o' =
     (let fs = qr_fields (codecs E) (master_label_code (own_tray o')); existing = own_contract o'; now = call_now P in
      if \<not> completion_guard P fs o' then refuse o'
      else case completion_basis_of E now o' of
        None \<Rightarrow> refuse o'
      | Some B \<Rightarrow> (case completion_detail E B fs o' of
          Inl e \<Rightarrow> refuse o'
        | Inr detail \<Rightarrow>
            if is_test_tray (own_tray o') then
              (case test_attempt E detail o' of
                 None \<Rightarrow> Ret (Inl HashRefused, o')
               | Some a \<Rightarrow> completion_after_attempt E now B fs existing a o')
            else (case prepared_attempt P of
                Some a \<Rightarrow> completion_after_attempt E now B fs existing a o'
              | None \<Rightarrow> yield_from (transfer_steps E P B o') (\<lambda>(r, o1).
                  case r of
                    Inr (Some a) \<Rightarrow> completion_after_attempt E now B fs existing a o1
                  | _ \<Rightarrow> if own_contract o1 \<noteq> None \<and> active_blocking_completion o1 = None
                      then refuse_with E now RETRY_WAIT PreparedAttemptFailedText []
                        ''TRAY_COMPLETE_PREPARED_ATTEMPT_FAILED'' o1
                      else refuse o1))))"

subsection \<open>Restoring an unfinished completion\<close>

text \<open>
  The state file has passed \<^const>\<open>validate_tray_state\<close>. \<^term>\<open>None\<close> is an exception (a missing key
  or a value Python cannot convert).
\<close>

definition int_field :: "json \<Rightarrow> string \<Rightarrow> int option" where
  "int_field d k = Option.bind (dget d k) (\<lambda>v. case py_int v of Inr (Some n) \<Rightarrow> Some n | _ \<Rightarrow> None)"

fun text_fields :: "json \<Rightarrow> string list \<Rightarrow> json option" where
  "text_fields d [] = Some []"
| "text_fields d (k # ks) = (case (dget d k, text_fields d ks) of
       (Some v, Some rest) \<Rightarrow> Some ((k, VStr (py_str v)) # rest)
     | _ \<Rightarrow> None)"

definition completion_event_contract_of :: "json \<Rightarrow> json option" where
  "completion_event_contract_of p =
     Option.bind (int_field p ''schema_version'') (\<lambda>n.
     Option.bind (text_fields p [''event_type'', ''idempotency_key'', ''observed_at'', ''projection_log_name'',
       ''projection_worker_name'', ''transfer_intent_id'']) (\<lambda>texts.
     Option.bind (dget p ''was_restored_session'') (\<lambda>r.
     Option.bind (dget p ''log_may_have_been_attempted'') (\<lambda>l.
     Option.bind (Option.bind (dget p ''transfer_detail'') as_dict) (\<lambda>t.
       Some ((''schema_version'', VInt n) # texts @
         [(''was_restored_session'', VBool (truthy r)), (''log_may_have_been_attempted'', VBool (truthy l)),
          (''transfer_detail'', VDict t)]))))))"

definition completion_event_contract_from_state :: "json \<Rightarrow> json option option" where
  "completion_event_contract_from_state st = (case vget st ''pending_completion_event'' of
       VNone \<Rightarrow> Some None
     | VDict p \<Rightarrow> map_option Some (completion_event_contract_of p)
     | _ \<Rightarrow> None)"

fun outcome_of_value :: "string \<Rightarrow> completion_outcome option" where
  "outcome_of_value s =
     (if s = ''ACKED'' then Some ACKED else if s = ''LINKED'' then Some LINKED
      else if s = ''RETRY_WAIT'' then Some RETRY_WAIT else if s = ''LOCAL_EVENT_RETRY'' then Some LOCAL_EVENT_RETRY
      else if s = ''OPERATOR_REVIEW'' then Some OPERATOR_REVIEW else None)"

definition review_of :: "json \<Rightarrow> completion_snapshot option" where
  "review_of p =
     Option.bind (Option.bind (dget p ''outcome'') (outcome_of_value \<circ> py_str)) (\<lambda>kind.
     Option.bind (int_field p ''scan_count'') (\<lambda>n.
     Option.bind (int_field p ''target_count'') (\<lambda>m.
     Option.bind (text_fields p [''item_name'', ''master_label'', ''message'', ''receipt_id'', ''error_code'']) (\<lambda>t.
       let s = \<lparr>outcome = kind, snap_item_name = py_str (vget t ''item_name''),
                snap_master_label = py_str (vget t ''master_label''), scan_count = n, target_count = m,
                snap_message = py_str (vget t ''message''), snap_receipt_id = py_str (vget t ''receipt_id''),
                snap_error_code = py_str (vget t ''error_code'')\<rparr>
       in if valid_snapshot s then Some s else None))))"

definition operator_review_snapshot_from_state :: "json \<Rightarrow> completion_snapshot option option" where
  "operator_review_snapshot_from_state st = (case vget st ''pending_operator_review'' of
       VNone \<Rightarrow> Some None
     | VDict p \<Rightarrow> map_option Some (review_of p)
     | _ \<Rightarrow> None)"

text \<open>A contract without a stored review means the program stopped inside a completion.\<close>

definition interrupted_review :: "completion_env \<Rightarrow> json \<Rightarrow> tray_session \<Rightarrow> completion_snapshot" where
  "interrupted_review E c tr =
     (let n = int (length (scanned_barcodes tr)) in
      \<lparr>outcome = (if truthy (vget c ''log_may_have_been_attempted'') then LOCAL_EVENT_RETRY else RETRY_WAIT),
       snap_item_name = item_name tr, snap_master_label = master_label_code tr, scan_count = n,
       target_count = max n (tray_size tr),
       snap_message = texts E (if truthy (vget c ''log_may_have_been_attempted'') then InterruptedRecordText
         else InterruptedTransferText),
       snap_receipt_id = str_or_empty (vget (stored_transfer_detail (Some c)) ''transfer_seal_receipt_id''),
       snap_error_code = (if truthy (vget c ''log_may_have_been_attempted'')
         then ''TRAY_COMPLETE_EVENT_RECOVERY_REQUIRED'' else ''TRAY_COMPLETE_TRANSFER_RECOVERY_REQUIRED'')\<rparr>)"

definition restore_operator_review_from_state :: "completion_env \<Rightarrow> json \<Rightarrow> owner \<Rightarrow> (bool \<times> owner) option" where
  "restore_operator_review_from_state E st o' =
     Option.bind (completion_event_contract_from_state st) (\<lambda>contract.
     Option.bind (operator_review_snapshot_from_state st) (\<lambda>review.
       let o1 = o'\<lparr>own_contract := contract\<rparr> in
       Some (case (case review of Some s \<Rightarrow> Some s | None \<Rightarrow> map_option (\<lambda>c. interrupted_review E c (own_tray o')) contract) of
           None \<Rightarrow> (False, o1\<lparr>own_review := None, own_contract := None,
                             own_view := snd (clear_completion (notices E) (own_view o1))\<rparr>)
         | Some s \<Rightarrow> (True, o1\<lparr>own_review := Some s, own_view := snd (present_completion (notices E) s (own_view o1))\<rparr>))))"

end
