(* ===== verification/Completion_Runs.thy ===== *)
theory Completion_Runs
  imports Tray_Completion
begin

text \<open>
  Runs of the completion generators of \<open>Tray_Completion\<close>: every operation with every outcome, the
  program stopping at any yield, restarts from the tray state file. The properties: at most one
  completion event per tray, what a release requires, that every run ends after a bounded number
  of operations, and what a successful retry leaves behind.
\<close>

subsection \<open>Running a generator\<close>

text \<open>What survives the program: the tray state file and the event logs.\<close>

record durable =
  dur_state :: "json option"
  dur_logs :: log_files

inductive exec :: "completion_env \<Rightarrow> 'r steps \<Rightarrow> durable \<Rightarrow> 'r steps \<Rightarrow> durable \<Rightarrow> bool" for E where
  saved: "exec E (Save st k) d (k True) (d\<lparr>dur_state := Some st\<rparr>)"
| not_saved: "exec E (Save st k) d (k False) d"
| logged: "log_event_sync (writer E) flushed out r (dur_logs d) = (res, files) \<Longrightarrow>
    exec E (Log r k) d (k res) (d\<lparr>dur_logs := files\<rparr>)"
| deleted: "exec E (Delete k) d (k True) (d\<lparr>dur_state := None\<rparr>)"
| not_deleted: "exec E (Delete k) d (k False) d"
| prepared: "exec E (Prepare k) d (k x) d"
| attempted: "exec E (Attempt i k) d (k x) d"
| reviewed: "exec E (PostReview i k) d (k x) d"
| later: "exec E (LogLater e j k) d (k b) d"
| best: "exec E (BestTime t k) d (k b) d"

text \<open>
  \<open>safe E I Q p d\<close>: whatever the outcomes, \<open>I\<close> holds of the durable state at every yield of \<open>p\<close>
  started in \<open>d\<close>, and \<open>Q\<close> of the result.
\<close>

primrec safe :: "completion_env \<Rightarrow> (durable \<Rightarrow> bool) \<Rightarrow> ('r \<Rightarrow> durable \<Rightarrow> bool) \<Rightarrow> 'r steps \<Rightarrow> durable \<Rightarrow> bool" where
  "safe E I Q (Ret x) = (\<lambda>d. I d \<and> Q x d)"
| "safe E I Q (Save st k) = (\<lambda>d. I d \<and> safe E I Q (k False) d \<and> safe E I Q (k True) (d\<lparr>dur_state := Some st\<rparr>))"
| "safe E I Q (Log r k) = (\<lambda>d. I d \<and> (\<forall>flushed out.
     case log_event_sync (writer E) flushed out r (dur_logs d) of (res, files) \<Rightarrow>
       safe E I Q (k res) (d\<lparr>dur_logs := files\<rparr>)))"
| "safe E I Q (Delete k) = (\<lambda>d. I d \<and> safe E I Q (k False) d \<and> safe E I Q (k True) (d\<lparr>dur_state := None\<rparr>))"
| "safe E I Q (Prepare k) = (\<lambda>d. I d \<and> (\<forall>x. safe E I Q (k x) d))"
| "safe E I Q (Attempt i k) = (\<lambda>d. I d \<and> (\<forall>x. safe E I Q (k x) d))"
| "safe E I Q (PostReview i k) = (\<lambda>d. I d \<and> (\<forall>x. safe E I Q (k x) d))"
| "safe E I Q (LogLater e j k) = (\<lambda>d. I d \<and> (\<forall>x. safe E I Q (k x) d))"
| "safe E I Q (BestTime t k) = (\<lambda>d. I d \<and> (\<forall>x. safe E I Q (k x) d))"

lemma safe_now: "safe E I Q p d \<Longrightarrow> I d"
  by (cases p) auto

lemma safe_exec: "exec E p d p' d' \<Longrightarrow> safe E I Q p d \<Longrightarrow> safe E I Q p' d'"
  by (induction rule: exec.induct) (auto split: prod.splits)

lemma safe_yield_from:
  "safe E I (\<lambda>x d. safe E I Q (f x) d) m d \<Longrightarrow> safe E I Q (yield_from m f) d"
  by (induction m arbitrary: d) (auto split: prod.splits)

lemma safe_mono: "safe E I Q p d \<Longrightarrow> (\<And>x d. Q x d \<Longrightarrow> I d \<Longrightarrow> Q' x d) \<Longrightarrow> safe E I Q' p d"
  by (induction p arbitrary: d) (auto split: prod.splits)

subsection \<open>At most one completion event\<close>

definition contract_log_name :: "json \<Rightarrow> string" where
  "contract_log_name c = py_str (vget c ''projection_log_name'')"

definition contract_key :: "json \<Rightarrow> string" where
  "contract_key c = py_str (vget c ''idempotency_key'')"

text \<open>A contract that says the event may be in the log, well formed enough to find it again.\<close>

definition admitted_contract :: "json \<Rightarrow> bool" where
  "admitted_contract c \<longleftrightarrow> log_attempted c \<and> contract_log_name c \<noteq> [] \<and>
     strip (contract_log_name c) = contract_log_name c \<and> strip (contract_intent c) = contract_intent c \<and>
     contract_intent c \<noteq> [] \<and> contract_key c = ''tray-complete:'' @ contract_intent c"

definition completion_target :: "completion_env \<Rightarrow> string \<Rightarrow> bool \<Rightarrow> string \<Rightarrow> string" where
  "completion_target E folder test nm =
     path_text (if test then local_only_event_log_path (writer E) (folder, nm) else (folder, nm))"

text \<open>The completion events in the log at a path.\<close>

definition completions :: "log_files \<Rightarrow> string \<Rightarrow> log_row list" where
  "completions files = (\<lambda>path. filter (\<lambda>row. strip (row_event row) = ''TRAY_COMPLETE'') (rows_at files path))"

text \<open>Since \<open>base\<close> exactly one completion was appended, the event of contract \<open>c\<close>.\<close>

definition appended ::
  "completion_env \<Rightarrow> string \<Rightarrow> bool \<Rightarrow> (string \<Rightarrow> log_row list) \<Rightarrow> (string \<Rightarrow> log_row list) \<Rightarrow> json \<Rightarrow> bool" where
  "appended E folder test base now c \<longleftrightarrow> (\<exists>row dd.
     (let path = completion_target E folder test (contract_log_name c) in now = base(path := base path @ [row])) \<and>
     row_event row = ''TRAY_COMPLETE'' \<and> row_details row = Some (VDict dd) \<and>
     details_key dd = strip (hide_id (writer E) (strip (contract_key c))))"

definition saved_contract :: "json \<Rightarrow> json option" where
  "saved_contract st = as_dict (vget st ''pending_completion_event'')"

definition attested :: "completion_env \<Rightarrow> string \<Rightarrow> bool \<Rightarrow> (string \<Rightarrow> log_row list) \<Rightarrow> durable \<Rightarrow> json option \<Rightarrow> bool" where
  "attested E folder test base d oc \<longleftrightarrow>
     (\<exists>c. oc = Some c \<and> admitted_contract c \<and> appended E folder test base (completions (dur_logs d)) c)"

text \<open>At every moment: nothing logged, or one event whose contract a restart will find.\<close>

definition once_inv :: "completion_env \<Rightarrow> string \<Rightarrow> bool \<Rightarrow> (string \<Rightarrow> log_row list) \<Rightarrow> durable \<Rightarrow> bool" where
  "once_inv E folder test base d \<longleftrightarrow> completions (dur_logs d) = base \<or>
     (\<exists>oc. attested E folder test base d oc) \<and>
     (\<forall>st. dur_state d = Some st \<longrightarrow> attested E folder test base d (saved_contract st))"

text \<open>The same for the owner in memory.\<close>

definition owner_knows :: "completion_env \<Rightarrow> string \<Rightarrow> bool \<Rightarrow> (string \<Rightarrow> log_row list) \<Rightarrow> owner \<Rightarrow> durable \<Rightarrow> bool" where
  "owner_knows E folder test base o' d \<longleftrightarrow>
     completions (dur_logs d) = base \<or> attested E folder test base d (own_contract o')"

text \<open>The tray stays in its folder with a clean log name.\<close>

definition owner_settled :: "string \<Rightarrow> bool \<Rightarrow> owner \<Rightarrow> bool" where
  "owner_settled folder test o' \<longleftrightarrow> own_folder o' = folder \<and> folder \<noteq> [] \<and> is_test_tray (own_tray o') = test \<and>
     strip (snd (own_log o')) = snd (own_log o')"

lemma saved_contract_snapshot:
  "saved_contract (current_tray_state_snapshot E now o') = own_contract o'"
proof -
  have "vget (tray_session_to_state L adm w t) ''pending_completion_event'' = VNone" for L adm w t
    by (simp add: tray_session_to_state_def Let_def vget_def map_of_append)
  then show ?thesis
    by (auto simp: saved_contract_def current_tray_state_snapshot_def Let_def set_pending_def split: option.splits)
qed

lemma once_inv_save:
  "once_inv E f t base d \<Longrightarrow> owner_knows E f t base o' d \<Longrightarrow>
     once_inv E f t base (d\<lparr>dur_state := Some (current_tray_state_snapshot E now o')\<rparr>)"
  by (auto simp: once_inv_def owner_knows_def attested_def saved_contract_snapshot)

lemma owner_knows_state [simp]:
  "owner_knows E f t base o' (d\<lparr>dur_state := x\<rparr>) = owner_knows E f t base o' d"
  by (simp add: owner_knows_def attested_def)

text \<open>A save by an owner that knows what is in the log.\<close>

lemma safe_save:
  assumes "once_inv E f t base d" "owner_knows E f t base o' d"
    "\<And>ok st. once_inv E f t base (d\<lparr>dur_state := st\<rparr>) \<Longrightarrow> safe E (once_inv E f t base) Q (k ok) (d\<lparr>dur_state := st\<rparr>)"
  shows "safe E (once_inv E f t base) Q (save_tray E now o' k) d"
proof -
  have d: "d\<lparr>dur_state := dur_state d\<rparr> = d" by simp
  show ?thesis
    using assms(1) once_inv_save [OF assms(1,2), of now] assms(3) [of "dur_state d", unfolded d] assms(3)
    by (simp add: save_tray_def)
qed

text \<open>Changes of the owner that matter neither to the contract nor to where it is written.\<close>

definition same_place :: "owner \<Rightarrow> owner \<Rightarrow> bool" where
  "same_place o1 o2 \<longleftrightarrow> own_contract o1 = own_contract o2 \<and> own_folder o1 = own_folder o2 \<and>
     own_log o1 = own_log o2 \<and> is_test_tray (own_tray o1) = is_test_tray (own_tray o2)"

lemma same_place_knows: "same_place o1 o2 \<Longrightarrow> owner_knows E f t base o1 d = owner_knows E f t base o2 d"
  by (simp add: same_place_def owner_knows_def)

lemma same_place_settled: "same_place o1 o2 \<Longrightarrow> owner_settled f t o1 = owner_settled f t o2"
  by (simp add: same_place_def owner_settled_def)

lemma same_place_freeze: "same_place (freeze_completion_measurements E t o') o'"
  by (simp add: same_place_def freeze_completion_measurements_def Let_def split: option.splits)

lemma same_place_publish: "same_place (publish_completion_snapshot E s o') o'"
  by (simp add: same_place_def publish_completion_snapshot_def)

lemma same_place_review: "same_place (o'\<lparr>own_review := x\<rparr>) o'"
  by (simp add: same_place_def)

lemma same_place_trans: "same_place a b \<Longrightarrow> same_place b c \<Longrightarrow> same_place a c"
  by (simp add: same_place_def)

definition recorded :: "completion_env \<Rightarrow> string \<Rightarrow> bool \<Rightarrow> durable \<Rightarrow> bool" where
  "recorded E f t d \<longleftrightarrow> (\<exists>nm. completions (dur_logs d) (completion_target E f t nm) \<noteq> [])"

text \<open>The result of a call that kept the tray, or released it.\<close>

definition once_post ::
  "completion_env \<Rightarrow> string \<Rightarrow> bool \<Rightarrow> (string \<Rightarrow> log_row list) \<Rightarrow> (completion_error + bool) \<times> owner \<Rightarrow> durable \<Rightarrow> bool" where
  "once_post E f t base = (\<lambda>(r, o') d.
     if r = Inr True then recorded E f t d else owner_knows E f t base o' d \<and> owner_settled f t o')"

lemma safe_outcome:
  assumes "once_inv E f t base d" "owner_knows E f t base o' d"
  shows "safe E (once_inv E f t base) (\<lambda>o2 d2. owner_knows E f t base o2 d2 \<and> same_place o2 o' \<and> dur_logs d2 = dur_logs d)
    (completion_outcome_steps E now kind message receipt err o') d"
proof -
  let ?safe = "safe E (once_inv E f t base) (\<lambda>o2 d2. owner_knows E f t base o2 d2 \<and> same_place o2 o' \<and> dur_logs d2 = dur_logs d)"
  have k: "owner_knows E f t base o2 d" if "same_place o2 o'" for o2
    using that assms(2) same_place_knows by blast
  have p: "same_place (publish_completion_snapshot E s (o'\<lparr>own_review := x\<rparr>)) o'" for s x
    using same_place_trans [OF same_place_publish same_place_review] .
  have A: "?safe (Ret (publish_completion_snapshot E s (o'\<lparr>own_review := x\<rparr>))) (d\<lparr>dur_state := st\<rparr>)"
    if "once_inv E f t base (d\<lparr>dur_state := st\<rparr>)" for s x st
    using that k [OF p] p by simp
  have B: "?safe (Ret (publish_completion_snapshot E s o')) d" for s
    using assms(1) k [OF same_place_publish] same_place_publish by simp
  show ?thesis
    unfolding completion_outcome_steps_def Let_def
    by (auto simp del: safe.simps split del: if_split intro!: B A safe_save assms(1) k same_place_review)
       (auto simp del: safe.simps intro!: B A safe_save assms(1) k same_place_review)
qed

lemma safe_refuse:
  "once_inv E f t base d \<Longrightarrow> owner_knows E f t base o' d \<Longrightarrow> owner_settled f t o' \<Longrightarrow>
     safe E (once_inv E f t base) (once_post E f t base) (refuse o') d"
  by (simp add: refuse_def once_post_def)

lemma safe_refuse_with:
  assumes "once_inv E f t base d" "owner_knows E f t base o' d" "owner_settled f t o'"
  shows "safe E (once_inv E f t base) (once_post E f t base) (refuse_with E now kind message receipt err o') d"
  unfolding refuse_with_def
proof (rule safe_yield_from, rule safe_mono [OF safe_outcome [OF assms(1,2)]])
  fix o2 d2
  assume "owner_knows E f t base o2 d2 \<and> same_place o2 o' \<and> dur_logs d2 = dur_logs d" "once_inv E f t base d2"
  then show "safe E (once_inv E f t base) (once_post E f t base) (refuse o2) d2"
    using assms(3) same_place_settled by (blast intro: safe_refuse)
qed

definition next_contract :: "completion_env \<Rightarrow> completion_basis \<Rightarrow> seal_attempt \<Rightarrow> json option \<Rightarrow> completion_error + json" where
  "next_contract E B a existing = (case existing of
       None \<Rightarrow> completion_event_contract E B a [] False
     | Some c \<Rightarrow> if strip (seal_intent_id a) \<noteq> strip (contract_intent c) then Inl RetryIntentMismatch else Inr c)"

lemma next_contract_existing: "next_contract E B a (Some c) = Inr c' \<Longrightarrow> c' = c"
  by (auto simp: next_contract_def split: if_splits)

definition prepared_post ::
  "completion_env \<Rightarrow> string \<Rightarrow> bool \<Rightarrow> (string \<Rightarrow> log_row list) \<Rightarrow> json option \<Rightarrow> 'a \<times> owner \<Rightarrow> durable \<Rightarrow> bool" where
  "prepared_post E f t base existing = (\<lambda>(r, o2) d. owner_knows E f t base o2 d \<and> owner_settled f t o2 \<and>
      (completions (dur_logs d) = base \<or> own_contract o2 = existing))"

lemma safe_prepared:
  assumes "once_inv E f t base d" "owner_knows E f t base o' d" "owner_settled f t o'"
  shows "safe E (once_inv E f t base) (prepared_post E f t base (own_contract o'))
    (prepared_completion_contract_steps E now stale B a o') d"
proof -
  let ?I = "once_inv E f t base" and ?Q = "prepared_post E f t base (own_contract o')"
  have early: "safe E ?I ?Q (Ret (Inl e, o')) d" for e
    using assms by (simp add: prepared_post_def)
  show ?thesis
  proof (cases "stale \<or> isl (next_contract E B a (own_contract o'))")
    case True
    then have "\<exists>e. prepared_completion_contract_steps E now stale B a o' = Ret (Inl e, o')"
      by (cases "next_contract E B a (own_contract o')")
         (auto simp: prepared_completion_contract_steps_def next_contract_def)
    with early show ?thesis by (auto simp del: safe.simps)
  next
    case False
    then obtain c where ns: "\<not> stale" and c: "next_contract E B a (own_contract o') = Inr c"
      by (cases "next_contract E B a (own_contract o')") auto
    let ?o = "o'\<lparr>own_contract := Some c\<rparr>"
    have knows: "owner_knows E f t base ?o d" and same: "completions (dur_logs d) = base \<or> own_contract ?o = own_contract o'"
      using assms(2) c by (auto simp: owner_knows_def attested_def dest: next_contract_existing)
    have settled: "owner_settled f t ?o" using assms(3) by (simp add: owner_settled_def)
    have eq: "prepared_completion_contract_steps E now stale B a o' =
        save_tray E now ?o (\<lambda>ok. if ok then Ret (Inr (), ?o)
            else yield_from (completion_outcome_steps E now RETRY_WAIT PreparedPersistFailedText []
                   ''TRAY_COMPLETE_PREPARED_CONTRACT_PERSIST_FAILED'' ?o)
                 (\<lambda>o2. Ret (Inl PreparedPersistFailed, o2)))"
      using ns c by (simp add: prepared_completion_contract_steps_def next_contract_def Let_def)
    have A: "safe E ?I ?Q (Ret (r, o2)) d2"
      if "?I d2" "owner_knows E f t base o2 d2" "same_place o2 ?o" "dur_logs d2 = dur_logs d" for r o2 d2
      using that settled same same_place_settled [OF that(3)] by (auto simp: prepared_post_def same_place_def)
    have B: "safe E ?I ?Q (yield_from (completion_outcome_steps E now RETRY_WAIT PreparedPersistFailedText []
                   ''TRAY_COMPLETE_PREPARED_CONTRACT_PERSIST_FAILED'' ?o)
                 (\<lambda>o2. Ret (Inl PreparedPersistFailed, o2))) (d\<lparr>dur_state := st\<rparr>)"
      if "?I (d\<lparr>dur_state := st\<rparr>)" for st
      by (rule safe_yield_from, rule safe_mono, rule safe_outcome [OF that]) (use knows in \<open>auto simp del: safe.simps intro!: A\<close>)
    show ?thesis
      unfolding eq
    proof (rule safe_save [OF assms(1) knows])
      fix ok st
      assume inv: "?I (d\<lparr>dur_state := st\<rparr>)"
      have "safe E ?I ?Q (Ret (Inr (), ?o)) (d\<lparr>dur_state := st\<rparr>)"
        by (rule A [OF inv]) (use knows in \<open>simp_all add: same_place_def\<close>)
      with B [OF inv] show "safe E ?I ?Q (if ok then Ret (Inr (), ?o)
            else yield_from (completion_outcome_steps E now RETRY_WAIT PreparedPersistFailedText []
                   ''TRAY_COMPLETE_PREPARED_CONTRACT_PERSIST_FAILED'' ?o)
                 (\<lambda>o2. Ret (Inl PreparedPersistFailed, o2))) (d\<lparr>dur_state := st\<rparr>)"
        by (cases ok) (simp_all del: safe.simps)
    qed
  qed
qed

lemma once_inv_deleted: "once_inv E f t base d \<Longrightarrow> once_inv E f t base (d\<lparr>dur_state := None\<rparr>)"
  by (auto simp: once_inv_def attested_def)

lemma safe_release:
  assumes "once_inv E f t base d" "recorded E f t d"
  shows "safe E (once_inv E f t base) (once_post E f t base) (release_steps E a reload detail o') d"
proof -
  have ret: "safe E (once_inv E f t base) (once_post E f t base)
      (yield_from (apply_completed_tray_state_steps label item o1)
            (\<lambda>(failed, o2). Ret (Inr True, present_completed_tray E failed snap o2))) d" for label item o1 snap
    using assms once_inv_deleted [OF assms(1)]
    by (simp add: apply_completed_tray_state_steps_def Let_def once_post_def recorded_def)
  show ?thesis
    unfolding release_steps_def Let_def
    using ret assms by (auto split: prod.split option.split)
qed

lemma safe_saved_contract:
  assumes "once_inv E f t base d" "owner_knows E f t base o' d"
    "safe E (once_inv E f t base) Q (k False) d"
    "\<And>d2. once_inv E f t base d2 \<Longrightarrow> dur_logs d2 = dur_logs d \<Longrightarrow>
      dur_state d2 = Some (current_tray_state_snapshot E now o') \<Longrightarrow> safe E (once_inv E f t base) Q (k True) d2"
  shows "safe E (once_inv E f t base) Q (save_tray E now o' k) d"
  using assms(1,3) assms(4) [OF once_inv_save [OF assms(1,2)]] by (simp add: save_tray_def)

lemma strip_nonspace: "c \<in> set s \<Longrightarrow> \<not> is_space c \<Longrightarrow> strip s \<noteq> []"
proof
  assume c: "c \<in> set s" "\<not> is_space c" and s: "strip s = []"
  obtain a where a: "s = a @ lstrip s" "\<forall>x \<in> set a. is_space x" using lstrip_append by blast
  obtain b where b: "lstrip s = rstrip (lstrip s) @ b" "\<forall>x \<in> set b. is_space x" using rstrip_append by blast
  from s have "lstrip s = b" using b(1) by (simp add: strip_def)
  with a have "s = a @ b" by metis
  with a(2) b(2) c show False by auto
qed

text \<open>The contract a record is made under.\<close>

lemma completion_event_contract_Inr:
  assumes "completion_event_contract E B a transfer True = Inr c"
    "projection_log B = (f, nm)" "nm \<noteq> []" "strip nm = nm"
  shows "admitted_contract c" "contract_log_name c = nm" "contract_intent c = strip (seal_intent_id a)"
  using assms
  by (auto simp: completion_event_contract_def Let_def admitted_contract_def log_attempted_def contract_log_name_def
      contract_intent_def contract_key_def vget_def str_or_empty_def split: if_splits)

lemma admitted_same_event:
  assumes "admitted_contract c" "admitted_contract c'" "contract_intent c = contract_intent c'"
    "contract_log_name c = contract_log_name c'"
  shows "appended E f t base now c = appended E f t base now c'"
  using assms by (simp add: appended_def admitted_contract_def)


lemma completions_put:
  "strip (row_event row) = ''TRAY_COMPLETE'' \<Longrightarrow>
     completions (put_row path row files) = (completions files)(path := completions files path @ [row])"
  by (auto simp: completions_def)

lemma strip_event [simp]: "strip ''TRAY_COMPLETE'' = ''TRAY_COMPLETE''"
  by (simp add: strip_def rstrip_def lstrip_def is_space_def)

text \<open>A log call under an admitted contract adds its event at most once.\<close>

lemma completion_logged:
  assumes "log_event_sync (writer E) flushed out r files = (res, files')" "admitted_contract c"
    "req_key r = contract_key c" "req_event r = ''TRAY_COMPLETE''"
    "path_text (target_log (writer E) r) = completion_target E f t (contract_log_name c)"
    "completions files = base \<or> appended E f t base (completions files) c \<and> req_dedup r"
  shows "files' = files \<or> completions files = base \<and> appended E f t base (completions files') c"
proof -
  let ?path = "completion_target E f t (contract_log_name c)" and ?ev = "''TRAY_COMPLETE''"
  have key: "strip (req_key r) \<noteq> []"
    using assms(2,3) strip_nonspace [of "CHR ''t''" "req_key r"]
    by (simp add: admitted_contract_def is_space_def)
  have ev: "redact_protected_admin_identity (req_event r) = ?ev"
    using assms(4) by (simp add: redact_short)
  show ?thesis
  proof (cases "files' = files")
    case False
    with log_event_effect [OF assms(1)] key ev assms(5) obtain row where
      row: "event_row (writer E) r = Some row" "files' = put_row ?path row files" and
      dedup: "req_dedup r \<Longrightarrow> matching ?ev (strip (req_key r)) (rows_at files ?path) = [] \<and>
        (\<exists>d. row_details row = Some (VDict d) \<and> details_key d = strip (req_key r))"
      by auto
    obtain dd where dd: "row_event row = ?ev" "row_details row = Some (VDict dd)"
      "details_key dd = strip (hide_id (writer E) (strip (req_key r)))"
      using event_row_key [OF row(1) key] ev by auto
    have "\<not> (appended E f t base (completions files) c \<and> req_dedup r)"
    proof
      assume both: "appended E f t base (completions files) c \<and> req_dedup r"
      then obtain row0 d0 where row0: "completions files = base(?path := base ?path @ [row0])" "row_event row0 = ?ev"
        "row_details row0 = Some (VDict d0)" "details_key d0 = strip (hide_id (writer E) (strip (contract_key c)))"
        by (auto simp: appended_def Let_def)
      have "details_key d0 = strip (req_key r)"
        using dedup both dd row0(4) assms(3) by auto
      then have "row_match ?ev (strip (req_key r)) row0 = Some d0"
        using row0 by (simp add: row_match_def)
      have "row0 \<in> set (completions files ?path)" using row0(1) by simp
      then have "row0 \<in> set (rows_at files ?path)" by (simp add: completions_def)
      with \<open>row_match ?ev (strip (req_key r)) row0 = Some d0\<close> show False
        using dedup both by (auto simp: matching_def filter_empty_conv)
    qed
    with assms(6) row(2) dd assms(3) show ?thesis by (auto simp: appended_def completions_put)
  qed simp
qed

text \<open>A log call that reports success leaves a completion event in the log.\<close>

lemma completion_written:
  assumes "log_event_sync W flushed out r files = ((True, replay), files')" "req_event r = ''TRAY_COMPLETE''"
  shows "completions files' (path_text (target_log W r)) \<noteq> []"
proof -
  let ?path = "path_text (target_log W r)" and ?ev = "''TRAY_COMPLETE''"
  have ev: "redact_protected_admin_identity (req_event r) = ?ev"
    using assms(2) by (simp add: redact_short)
  from assms(1) obtain row where row: "event_row W r = Some row" by (auto simp: log_event_sync_def split: option.splits)
  then have event: "row_event row = ?ev" using ev by (auto simp: event_row_def Let_def split: if_splits)
  have "files' = put_row ?path row files \<or> (\<exists>x d. x \<in> set (rows_at files' ?path) \<and> row_match ?ev (strip (req_key r)) x = Some d)"
  proof (cases "flushed \<and> strip (req_key r) \<noteq> [] \<and> req_dedup r")
    case True
    with assms(1) row ev obtain b where "append_event_log_entry_idempotent out ?path row ?ev (req_key r) files = (Inr b, files')"
      by (auto simp: log_event_sync_def split: prod.splits sum.splits)
    then show ?thesis
      by (auto simp: append_event_log_entry_idempotent_def Let_def append_unlocked_eq rows_at_def
          split: option.splits sum.splits bool.splits if_splits dest!: find_projection_True)
  next
    case False
    with assms(1) row show ?thesis
      by (auto simp: log_event_sync_def append_event_log_entry_def append_unlocked_eq split: if_splits)
  qed
  then show ?thesis
    using event by (auto simp: completions_put row_match_def completions_def filter_empty_conv split: if_splits)
qed

text \<open>
  What the start of a call fixes: the log is the tray's folder and, when a stored contract names
  its log, that log.
\<close>

definition call_settled :: "completion_basis \<Rightarrow> string \<Rightarrow> json option \<Rightarrow> bool" where
  "call_settled B f existing \<longleftrightarrow> (\<exists>nm. projection_log B = (f, nm) \<and> nm \<noteq> [] \<and> strip nm = nm \<and>
     (\<forall>c. existing = Some c \<longrightarrow> contract_log_name c \<noteq> [] \<longrightarrow> nm = strip (contract_log_name c)))"

lemma completion_target_request:
  assumes "projection_log B = (f, nm)" "is_test_tray (own_tray o') = t"
  shows "path_text (target_log (writer E) (completion_request E B existing c detail o')) = completion_target E f t nm"
proof -
  have "is_local_only (completion_request E B existing c detail o') \<longleftrightarrow> t"
    using assms(2) by (simp add: is_local_only_def completion_request_def LOCAL_ONLY_EVENT_TYPES_def)
  with assms(1) show ?thesis
    by (simp add: target_log_def completion_target_def) (simp add: completion_request_def)
qed

lemma safe_after_logging:
  assumes "once_inv E f t base d" "owner_knows E f t base o' d" "owner_settled f t o'" "fst res \<Longrightarrow> recorded E f t d"
  shows "safe E (once_inv E f t base) (once_post E f t base) (after_logging E now B a detail o' res) d"
  using assms safe_refuse_with [OF assms(1-3)] safe_release [OF assms(1)]
  by (cases res) (simp add: after_logging_def Let_def)

lemma safe_log_completion:
  assumes inv: "once_inv E f t base d" and settled: "owner_settled f t o'" and c: "own_contract o' = Some c" "admitted_contract c"
    and B: "projection_log B = (f, contract_log_name c)"
    and known: "completions (dur_logs d) = base \<or> appended E f t base (completions (dur_logs d)) c \<and>
      (\<exists>c0. existing = Some c0 \<and> log_attempted c0)"
  shows "safe E (once_inv E f t base) (once_post E f t base) (log_completion_steps E now B existing a c detail o') d"
proof -
  let ?I = "once_inv E f t base" and ?r = "completion_request E B existing c detail o'"
  have k: "owner_knows E f t base o' d" using c known by (auto simp: owner_knows_def attested_def)
  have test: "is_test_tray (own_tray o') = t" using settled by (simp add: owner_settled_def)
  note target = completion_target_request [OF B test]
  have req: "req_key ?r = contract_key c" "req_event ?r = ''TRAY_COMPLETE''"
    by (simp_all add: completion_request_def contract_key_def)
  have logged: "safe E ?I (once_post E f t base) (after_logging E now B a detail o' res) (d2\<lparr>dur_logs := files\<rparr>)"
    if inv2: "?I d2" and d2: "dur_logs d2 = dur_logs d" "dur_state d2 = Some (current_tray_state_snapshot E now o')"
      and ev: "log_event_sync (writer E) flushed out ?r (dur_logs d2) = (res, files)" for d2 res files flushed out
  proof (rule safe_after_logging [OF _ _ settled])
    have "files = dur_logs d \<or> completions (dur_logs d) = base \<and> appended E f t base (completions files) c"
      by (rule completion_logged [OF ev [unfolded d2(1)] c(2) req target])
         (use known in \<open>auto simp: completion_request_def\<close>)
    then show "owner_knows E f t base o' (d2\<lparr>dur_logs := files\<rparr>)" "?I (d2\<lparr>dur_logs := files\<rparr>)"
      using known c d2 by (auto simp: owner_knows_def once_inv_def attested_def saved_contract_snapshot)
    show "recorded E f t (d2\<lparr>dur_logs := files\<rparr>)" if "fst res"
      using completion_written [OF _ req(2), of "writer E" flushed out "dur_logs d2" "snd res" files] ev that target
      by (cases res) (auto simp: recorded_def)
  qed
  show ?thesis
    unfolding log_completion_steps_def
    by (rule safe_saved_contract [OF inv k])
       (use safe_refuse_with [OF inv k settled] logged inv in \<open>auto split: prod.split\<close>)
qed

lemma safe_record:
  assumes inv: "once_inv E f t base d" and knows: "owner_knows E f t base o0 d" and settled: "owner_settled f t o0"
    and B: "call_settled B f existing" and mem: "completions (dur_logs d) = base \<or> own_contract o0 = existing"
    and intent: "\<forall>c. existing = Some c \<longrightarrow> contract_intent c = seal_intent_id a"
  shows "safe E (once_inv E f t base) (once_post E f t base) (record_completion_steps E now B fs existing a o0) d"
proof -
  let ?safe = "safe E (once_inv E f t base) (once_post E f t base)" and ?o = "freeze_completion_measurements E (observed_at B) o0"
  have same: "same_place ?o o0" by (rule same_place_freeze)
  have k: "owner_knows E f t base ?o d" and s: "owner_settled f t ?o"
    using same_place_knows [OF same] same_place_settled [OF same] knows settled by simp_all
  obtain nm where nm: "projection_log B = (f, nm)" "nm \<noteq> []" "strip nm = nm"
    "\<forall>c. existing = Some c \<longrightarrow> contract_log_name c \<noteq> [] \<longrightarrow> nm = strip (contract_log_name c)"
    using B by (auto simp: call_settled_def)
  have go: "?safe (log_completion_steps E now B existing a c detail (?o\<lparr>own_contract := Some c\<rparr>)) d"
    if ok: "completion_event_contract E B a transfer True = Inr c" for c transfer detail
  proof (rule safe_log_completion [OF inv])
    note c = completion_event_contract_Inr [OF ok nm(1-3)]
    show "owner_settled f t (?o\<lparr>own_contract := Some c\<rparr>)" using s by (simp add: owner_settled_def)
    show "admitted_contract c" "projection_log B = (f, contract_log_name c)" using c nm(1) by simp_all
    show "completions (dur_logs d) = base \<or> appended E f t base (completions (dur_logs d)) c \<and>
      (\<exists>c0. existing = Some c0 \<and> log_attempted c0)"
    proof (cases "completions (dur_logs d) = base")
      case False
      with knows mem obtain c0 where c0: "existing = Some c0" "admitted_contract c0"
        "appended E f t base (completions (dur_logs d)) c0"
        by (auto simp: owner_knows_def attested_def)
      then have "contract_intent c0 = contract_intent c" "contract_log_name c0 = contract_log_name c"
        using intent nm(4) c by (auto simp: admitted_contract_def)
      with c0 c(1) admitted_same_event [OF c0(2) c(1)] show ?thesis by (simp add: admitted_contract_def)
    qed simp
  qed simp
  have stop: "?safe (Ret (Inl e, ?o)) d" for e using inv k s by (simp add: once_post_def)
  show ?thesis
    unfolding record_completion_steps_def Let_def
    by (cases "completion_detail E B fs ?o")
       (simp_all add: safe_refuse_with [OF inv k s] go stop split: prod.split sum.split del: safe.simps)
qed

lemma safe_after_attempt:
  assumes inv: "once_inv E f t base d" and knows: "owner_knows E f t base o' d" and settled: "owner_settled f t o'"
    and B: "call_settled B f existing" and mem: "completions (dur_logs d) = base \<or> own_contract o' = existing"
  shows "safe E (once_inv E f t base) (once_post E f t base) (completion_after_attempt E now B fs existing a o') d"
proof -
  let ?safe = "safe E (once_inv E f t base) (once_post E f t base)" and ?o = "freeze_completion_measurements E (observed_at B) o'"
  have same: "same_place ?o o'" by (rule same_place_freeze)
  have k: "owner_knows E f t base ?o d" and s: "owner_settled f t ?o"
    using same_place_knows [OF same] same_place_settled [OF same] knows settled by simp_all
  have base: "completions (dur_logs d) = base" if "\<not> (case existing of None \<Rightarrow> False | Some c \<Rightarrow> log_attempted c)"
    using knows mem that by (auto simp: owner_knows_def attested_def admitted_contract_def)
  have wait: "?safe (refuse_with E now kind message receipt err (?o\<lparr>own_contract := Some c\<rparr>)) d"
    if "\<not> (case existing of None \<Rightarrow> False | Some c \<Rightarrow> log_attempted c)" for kind message receipt err c
    using s base [OF that] inv by (intro safe_refuse_with) (simp_all add: owner_settled_def owner_knows_def)
  have stop: "?safe (Ret (Inl e, ?o)) d" for e using inv k s by (simp add: once_post_def)
  have rec: "?safe (record_completion_steps E now B fs existing a o') d"
    if "\<not> (case existing of None \<Rightarrow> False | Some c \<Rightarrow> contract_intent c \<noteq> seal_intent_id a)"
    using safe_record [OF inv knows settled B mem] that by (auto split: option.splits)
  show ?thesis
    unfolding completion_after_attempt_def Let_def
    using safe_refuse_with [OF inv k s] wait stop rec
    by (simp del: safe.simps split: sum.split)
qed

lemma safe_transfer:
  assumes "once_inv E f t base d" "owner_knows E f t base o' d" "owner_settled f t o'"
  shows "safe E (once_inv E f t base) (prepared_post E f t base (own_contract o')) (transfer_steps E P B o') d"
proof -
  let ?I = "once_inv E f t base" and ?Q = "\<lambda>r. prepared_post E f t base (own_contract o') r"
  let ?rest = "\<lambda>a (r :: completion_error + unit, o1). case r of
             Inl e \<Rightarrow> Ret (Inl e, o1)
           | Inr _ \<Rightarrow> Attempt (seal_intent_id a) (\<lambda>result. Ret (Inr result, o1))"
  have A: "safe E ?I ?Q (yield_from (prepared_completion_contract_steps E (call_now P) (context_stale P) B a o') (?rest a)) d" for a
  proof (rule safe_yield_from, rule safe_mono [OF safe_prepared [OF assms]])
    fix x :: "(completion_error + unit) \<times> owner" and d2
    assume "prepared_post E f t base (own_contract o') x d2" "?I d2"
    then show "safe E ?I ?Q (?rest a x) d2"
      by (cases x) (auto simp: prepared_post_def split: sum.split)
  qed
  have "safe E ?I ?Q (Ret (Inr None, o')) d" using assms by (simp add: prepared_post_def)
  with A show ?thesis
    unfolding transfer_steps_def using assms(1) by (simp split: option.split)
qed

lemma is_log_name_nonempty: "is_log_name n \<Longrightarrow> n \<noteq> []"
  by (auto simp: is_log_name_def lower_def)

lemma basis_settled:
  assumes "completion_basis_of E now o' = Some B" "owner_settled f t o'"
  shows "call_settled B f (own_contract o')"
  using assms
  by (auto simp: completion_basis_of_def completion_projection_log_path_def Let_def call_settled_def owner_settled_def
      contract_log_name_def path_text_def is_log_name_nonempty prod_eq_iff split: option.splits if_splits)

lemma safe_complete_tray:
  assumes inv: "once_inv E f t base d" and knows: "owner_knows E f t base o' d" and settled: "owner_settled f t o'"
  shows "safe E (once_inv E f t base) (once_post E f t base) (complete_tray_steps E P o') d"
proof -
  let ?safe = "safe E (once_inv E f t base) (once_post E f t base)"
  let ?fs = "qr_fields (codecs E) (master_label_code (own_tray o'))"
  have refuse: "?safe (refuse o') d" by (rule safe_refuse [OF inv knows settled])
  have stop: "?safe (Ret (Inl e, o')) d" for e using inv knows settled by (simp add: once_post_def)
  have main: "?safe (completion_after_attempt E now B ?fs (own_contract o') a o1) d2"
    if "completion_basis_of E (call_now P) o' = Some B" "once_inv E f t base d2"
      "prepared_post E f t base (own_contract o') (r, o1) d2" for now B a o1 d2 and r :: "completion_error + seal_attempt option"
    using that basis_settled [OF that(1) settled] by (intro safe_after_attempt) (auto simp: prepared_post_def)
  have start: "prepared_post E f t base (own_contract o') (r, o') d" for r :: "completion_error + seal_attempt option"
    using knows settled by (simp add: prepared_post_def)
  have kept: "?safe (refuse_with E now kind message receipt err o1) d2" "?safe (refuse o1) d2"
    if "once_inv E f t base d2" "prepared_post E f t base (own_contract o') (r, o1) d2"
    for now kind message receipt err o1 d2 and r :: "completion_error + seal_attempt option"
    using that by (auto simp: prepared_post_def simp del: safe.simps intro!: safe_refuse_with safe_refuse)
  have transfer: "?safe (yield_from (transfer_steps E P B o') (\<lambda>(r, o1).
                  case r of
                    Inr (Some a) \<Rightarrow> completion_after_attempt E (call_now P) B ?fs (own_contract o') a o1
                  | _ \<Rightarrow> if own_contract o1 \<noteq> None \<and> active_blocking_completion o1 = None
                      then refuse_with E (call_now P) RETRY_WAIT PreparedAttemptFailedText []
                        ''TRAY_COMPLETE_PREPARED_ATTEMPT_FAILED'' o1
                      else refuse o1)) d"
    if "completion_basis_of E (call_now P) o' = Some B" for B
    by (rule safe_yield_from, rule safe_mono [OF safe_transfer [OF inv knows settled]])
       (auto simp del: safe.simps split: sum.split option.split intro: main [OF that] kept)
  show ?thesis
    unfolding complete_tray_steps_def Let_def
    using refuse stop main [OF _ inv start] transfer
    by (simp del: safe.simps split: option.split sum.split)
qed

subsection \<open>Crashes and restarts\<close>

lemma text_fields_vget:
  "text_fields p ks = Some t \<Longrightarrow> k \<in> set ks \<Longrightarrow> vget t k = VStr (py_str (vget p k)) \<and> dget p k \<noteq> None"
  by (induction ks arbitrary: t) (auto simp: vget_def split: option.splits if_splits)

lemma text_fields_keys: "text_fields p ks = Some t \<Longrightarrow> dkeys t = ks"
  by (induction ks arbitrary: t) (auto split: option.splits)

lemma vget_append: "vget (d @ e) k = (if k \<in> set (dkeys d) then vget d k else vget e k)"
  by (induction d) force+

text \<open>Reading a contract back from the state file keeps the event it stands for.\<close>

lemma restored_contract:
  assumes "completion_event_contract_of p = Some c" "admitted_contract p"
  shows "admitted_contract c" "contract_intent c = contract_intent p" "contract_log_name c = contract_log_name p"
proof -
  from assms(1) obtain n tx r l td where
    tx: "text_fields p [''event_type'', ''idempotency_key'', ''observed_at'', ''projection_log_name'',
       ''projection_worker_name'', ''transfer_intent_id''] = Some tx" and l: "dget p ''log_may_have_been_attempted'' = Some l" and
    c: "c = (''schema_version'', VInt n) # tx @ [(''was_restored_session'', VBool (truthy r)),
          (''log_may_have_been_attempted'', VBool (truthy l)), (''transfer_detail'', VDict td)]"
    by (auto simp: completion_event_contract_of_def bind_eq_Some_conv)
  have l': "l = VBool True" using assms(2) l by (simp add: admitted_contract_def log_attempted_def vget_def)
  have get: "vget c k = VStr (py_str (vget p k))" if "k \<in> {''idempotency_key'', ''projection_log_name'', ''transfer_intent_id''}" for k
    using text_fields_vget [OF tx, of k] text_fields_keys [OF tx] that c by (auto simp: vget_append)
  have intent: "contract_intent c = contract_intent p"
    using assms(2) get [of "''transfer_intent_id''"]
    by (auto simp: admitted_contract_def contract_intent_def str_or_empty_def split: if_splits)
  have name: "contract_log_name c = contract_log_name p"
    using get [of "''projection_log_name''"] by (simp add: contract_log_name_def)
  have "contract_key c = contract_key p" using get [of "''idempotency_key''"] by (simp add: contract_key_def)
  moreover have "log_attempted c" using l' c text_fields_keys [OF tx] by (simp add: log_attempted_def vget_append)
  ultimately show "admitted_contract c" using assms(2) intent name by (simp add: admitted_contract_def)
  show "contract_intent c = contract_intent p" "contract_log_name c = contract_log_name p" by (fact intent, fact name)
qed

lemma restored_owner_contract:
  assumes "restore_operator_review_from_state E st o0 = Some (b, o1)"
  shows "completion_event_contract_from_state st = Some (own_contract o1)"
    "own_folder o1 = own_folder o0" "own_log o1 = own_log o0" "own_tray o1 = own_tray o0"
proof -
  from assms obtain oc review where "completion_event_contract_from_state st = Some oc"
    "operator_review_snapshot_from_state st = Some review"
    by (auto simp: restore_operator_review_from_state_def bind_eq_Some_conv)
  with assms show "completion_event_contract_from_state st = Some (own_contract o1)"
    "own_folder o1 = own_folder o0" "own_log o1 = own_log o0" "own_tray o1 = own_tray o0"
    by (cases oc; cases review; auto simp: restore_operator_review_from_state_def Let_def)+
qed

lemma restored_knows:
  assumes "once_inv E f t base d" "dur_state d = Some st" "restore_operator_review_from_state E st o0 = Some (b, o1)"
  shows "owner_knows E f t base o1 d"
proof (cases "completions (dur_logs d) = base")
  case False
  with assms(1,2) obtain p where p: "saved_contract st = Some p" "admitted_contract p"
    "appended E f t base (completions (dur_logs d)) p"
    by (auto simp: once_inv_def attested_def)
  then obtain c where c: "completion_event_contract_of p = Some c" "own_contract o1 = Some c"
    using restored_owner_contract(1) [OF assms(3)]
    by (cases "own_contract o1") (auto simp: saved_contract_def completion_event_contract_from_state_def)
  note r = restored_contract [OF c(1) p(2)]
  have "appended E f t base (completions (dur_logs d)) c"
    using admitted_same_event [OF p(2) r(1)] r p(3) by simp
  with c(2) r(1) show ?thesis by (simp add: owner_knows_def attested_def)
qed (simp add: owner_knows_def)

text \<open>
  The life of one tray in the folder \<open>f\<close>, a test tray or not (\<open>t\<close>): idle in the window, inside a
  completion, released, or in a program that has stopped.
\<close>

datatype life = Idle owner durable | Inside "completion_result steps" durable | Released durable | Stopped durable

fun durable_of :: "life \<Rightarrow> durable" where
  "durable_of (Idle o' d) = d"
| "durable_of (Inside p d) = d"
| "durable_of (Released d) = d"
| "durable_of (Stopped d) = d"

inductive lives :: "completion_env \<Rightarrow> string \<Rightarrow> bool \<Rightarrow> life \<Rightarrow> life \<Rightarrow> bool" for E f t where
  attempt: "lives E f t (Idle o' d) (Inside (complete_tray_steps E P o') d)"
| operation: "exec E p d p' d' \<Longrightarrow> lives E f t (Inside p d) (Inside p' d')"
| kept: "r \<noteq> Inr True \<Longrightarrow> lives E f t (Inside (Ret (r, o')) d) (Idle o' d)"
| released: "lives E f t (Inside (Ret (Inr True, o')) d) (Released d)"
| other_work: "same_place o2 o' \<Longrightarrow> completions files = completions (dur_logs d) \<Longrightarrow>
    lives E f t (Idle o' d) (Idle o2 (d\<lparr>dur_logs := files\<rparr>))"
| autosave: "lives E f t (Idle o' d) (Idle o' (d\<lparr>dur_state := Some (current_tray_state_snapshot E now o')\<rparr>))"
| stop: "lives E f t x (Stopped (durable_of x))"
| restart: "dur_state d = Some st \<Longrightarrow> owner_settled f t o0 \<Longrightarrow>
    restore_operator_review_from_state E st o0 = Some (b, o1) \<Longrightarrow>
    completions files = completions (dur_logs d) \<Longrightarrow> lives E f t (Stopped d) (Idle o1 (d\<lparr>dur_logs := files\<rparr>))"

fun life_inv :: "completion_env \<Rightarrow> string \<Rightarrow> bool \<Rightarrow> (string \<Rightarrow> log_row list) \<Rightarrow> life \<Rightarrow> bool" where
  "life_inv E f t base (Idle o' d) \<longleftrightarrow> once_inv E f t base d \<and> owner_knows E f t base o' d \<and> owner_settled f t o'"
| "life_inv E f t base (Inside p d) \<longleftrightarrow> safe E (once_inv E f t base) (once_post E f t base) p d"
| "life_inv E f t base (Released d) \<longleftrightarrow> once_inv E f t base d \<and> recorded E f t d"
| "life_inv E f t base (Stopped d) \<longleftrightarrow> once_inv E f t base d"

lemma life_inv_once: "life_inv E f t base x \<Longrightarrow> once_inv E f t base (durable_of x)"
  by (cases x) (auto dest: safe_now)

lemma once_inv_logs:
  "completions files = completions (dur_logs d) \<Longrightarrow> once_inv E f t base (d\<lparr>dur_logs := files\<rparr>) = once_inv E f t base d"
  "completions files = completions (dur_logs d) \<Longrightarrow> owner_knows E f t base o' (d\<lparr>dur_logs := files\<rparr>) = owner_knows E f t base o' d"
  by (simp_all add: once_inv_def owner_knows_def attested_def)

lemma lives_inv:
  assumes "lives E f t x y" "life_inv E f t base x"
  shows "life_inv E f t base y"
  using assms
proof cases
  case (attempt o' d P)
  with assms(2) show ?thesis by (simp add: safe_complete_tray del: safe.simps)
next
  case (operation p d p' d')
  with assms(2) show ?thesis using safe_exec by (simp del: safe.simps) blast
next
  case (other_work o2 o' files d)
  with assms(2) show ?thesis
    using same_place_knows [OF other_work(3)] same_place_settled [OF other_work(3)] by (simp add: once_inv_logs)
next
  case (autosave o' d now)
  with assms(2) show ?thesis by (simp add: once_inv_save)
next
  case stop
  with assms(2) life_inv_once show ?thesis by simp
next
  case (restart d st o0 b o1 files)
  with assms(2) restored_knows [OF _ restart(3,5)] restored_owner_contract(2-4) [OF restart(5)] show ?thesis
    by (simp add: once_inv_logs owner_settled_def)
qed (use assms(2) in \<open>auto simp: once_post_def split: if_splits\<close>)

lemma lives_run_inv: "(lives E f t)\<^sup>*\<^sup>* x y \<Longrightarrow> life_inv E f t base x \<Longrightarrow> life_inv E f t base y"
  by (induction rule: rtranclp_induct) (auto intro: lives_inv)

text \<open>
  C12. A tray gets at most one completion event: from the moment it stands in the window, over any
  number of completion attempts with any outcome of saves, log writes (a row may be written although
  the call reports failure), transfer calls and deletions, over stops at any point and restarts from
  the state file, the logs hold no completion event more than before, or exactly one more; and
  when the tray is released, a log of its folder holds a completion event.
\<close>

theorem completion_event_at_most_once:
  assumes "owner_settled f t o'" "(lives E f t)\<^sup>*\<^sup>* (Idle o' d) x"
  shows "(completions (dur_logs (durable_of x)) = completions (dur_logs d) \<or>
      (\<exists>path row. row_event row = ''TRAY_COMPLETE'' \<and>
        completions (dur_logs (durable_of x)) = (completions (dur_logs d))(path := completions (dur_logs d) path @ [row]))) \<and>
    (\<forall>d'. x = Released d' \<longrightarrow> (\<exists>nm. completions (dur_logs d') (completion_target E f t nm) \<noteq> []))"
proof -
  have inv: "life_inv E f t (completions (dur_logs d)) x"
    using lives_run_inv [OF assms(2)] assms(1) by (simp add: once_inv_def owner_knows_def)
  then have "once_inv E f t (completions (dur_logs d)) (durable_of x)" by (rule life_inv_once)
  then have "completions (dur_logs (durable_of x)) = completions (dur_logs d) \<or>
      (\<exists>path row. row_event row = ''TRAY_COMPLETE'' \<and>
        completions (dur_logs (durable_of x)) = (completions (dur_logs d))(path := completions (dur_logs d) path @ [row]))"
    by (auto simp: once_inv_def attested_def appended_def Let_def)
  moreover have "\<forall>d'. x = Released d' \<longrightarrow> (\<exists>nm. completions (dur_logs d') (completion_target E f t nm) \<noteq> [])"
    using inv by (auto simp: recorded_def)
  ultimately show ?thesis ..
qed

text \<open>A run of operations without a stop.\<close>

inductive executes :: "completion_env \<Rightarrow> 'r steps \<Rightarrow> durable \<Rightarrow> 'r steps \<Rightarrow> durable \<Rightarrow> bool" for E where
  here: "executes E p d p d"
| next_step: "exec E p d p1 d1 \<Longrightarrow> executes E p1 d1 p2 d2 \<Longrightarrow> executes E p d p2 d2"

lemma safe_executes: "executes E p d p' d' \<Longrightarrow> safe E I Q p d \<Longrightarrow> safe E I Q p' d'"
  by (induction rule: executes.induct) (auto intro: safe_exec simp del: safe.simps)

lemma executes_result: "executes E p d (Ret x) d' \<Longrightarrow> safe E I Q p d \<Longrightarrow> Q x d'"
  using safe_executes by fastforce

lemma executes_lives: "executes E p d p' d' \<Longrightarrow> (lives E f t)\<^sup>*\<^sup>* (Inside p d) (Inside p' d')"
  by (induction rule: executes.induct) (auto intro: converse_rtranclp_into_rtranclp lives.operation)

text \<open>A run in which the operations answer from a script.\<close>

datatype reply = Saves bool | Appends append_outcome | Seals "seal_attempt option"

primrec scripted :: "completion_env \<Rightarrow> 'r steps \<Rightarrow> reply list \<Rightarrow> durable \<Rightarrow> 'r steps \<times> durable" where
  "scripted E (Ret x) = (\<lambda>rs d. (Ret x, d))"
| "scripted E (Save st k) = (\<lambda>rs d. case rs of
       Saves b # rs' \<Rightarrow> scripted E (k b) rs' (if b then d\<lparr>dur_state := Some st\<rparr> else d)
     | _ \<Rightarrow> (Save st k, d))"
| "scripted E (Log r k) = (\<lambda>rs d. case rs of
       Appends out # rs' \<Rightarrow> (case log_event_sync (writer E) True out r (dur_logs d) of (res, files) \<Rightarrow>
         scripted E (k res) rs' (d\<lparr>dur_logs := files\<rparr>))
     | _ \<Rightarrow> (Log r k, d))"
| "scripted E (Delete k) = (\<lambda>rs d. scripted E (k True) rs (d\<lparr>dur_state := None\<rparr>))"
| "scripted E (Prepare k) = (\<lambda>rs d. case rs of Seals a # rs' \<Rightarrow> scripted E (k a) rs' d | _ \<Rightarrow> (Prepare k, d))"
| "scripted E (Attempt i k) = (\<lambda>rs d. case rs of Seals a # rs' \<Rightarrow> scripted E (k a) rs' d | _ \<Rightarrow> (Attempt i k, d))"
| "scripted E (PostReview i k) = (\<lambda>rs d. scripted E (k None) rs d)"
| "scripted E (LogLater e j k) = (\<lambda>rs d. scripted E (k True) rs d)"
| "scripted E (BestTime t k) = (\<lambda>rs d. scripted E (k True) rs d)"

lemma scripted_executes:
  "executes E p d (fst (scripted E p rs d)) (snd (scripted E p rs d))"
proof (induction p arbitrary: rs d)
  case (Save st k)
  show ?case
    using executes.next_step [OF exec.saved [where k = k] Save [OF rangeI]] executes.next_step [OF exec.not_saved [where k = k] Save [OF rangeI]]
    by (simp add: executes.here split: list.split reply.split)
next
  case (Log r k)
  show ?case
    using executes.next_step [OF exec.logged [where k = k] Log [OF rangeI]] by (simp add: executes.here split: list.split reply.split prod.split)
next
  case (Delete k)
  show ?case using executes.next_step [OF exec.deleted [where k = k] Delete [OF rangeI]] by simp
next
  case (Prepare k)
  show ?case using executes.next_step [OF exec.prepared [where k = k] Prepare [OF rangeI]] by (simp add: executes.here split: list.split reply.split)
next
  case (Attempt i k)
  show ?case using executes.next_step [OF exec.attempted [where k = k] Attempt [OF rangeI]] by (simp add: executes.here split: list.split reply.split)
next
  case (PostReview i k)
  show ?case using executes.next_step [OF exec.reviewed [where k = k] PostReview [OF rangeI]] by simp
next
  case (LogLater e j k)
  show ?case using executes.next_step [OF exec.later [where k = k] LogLater [OF rangeI]] by simp
next
  case (BestTime t k)
  show ?case using executes.next_step [OF exec.best [where k = k] BestTime [OF rangeI]] by simp
qed (simp add: executes.here)

subsection \<open>When everything works\<close>

text \<open>Details without NaN stay so; such an event has a row.\<close>

definition finite_json :: "json \<Rightarrow> bool" where
  "finite_json d \<longleftrightarrow> nan_free (VDict d)"

lemma finite_json_simps [simp]: "finite_json []" "finite_json ((k, v) # d) \<longleftrightarrow> nan_free v \<and> finite_json d"
  by (simp_all add: finite_json_def)

lemma finite_dset: "nan_free v \<Longrightarrow> finite_json d \<Longrightarrow> finite_json (dset k v d)"
  by (induction k v d rule: dset.induct) auto

lemma finite_dupdate: "finite_json d \<Longrightarrow> finite_json e \<Longrightarrow> finite_json (dupdate d e)"
  unfolding dupdate_def by (induction e arbitrary: d) (auto simp: finite_dset)

lemma finite_setdefault: "nan_free v \<Longrightarrow> finite_json d \<Longrightarrow> finite_json (setdefault k v d)"
  by (simp add: setdefault_def finite_dset)

lemma finite_fields: "nan_free (fields_value fs)"
  by (auto simp: fields_value_def)

lemma finite_sanitize: "nan_free (sanitize_persistent_value a v) = nan_free v"
  by (induction a v rule: sanitize_persistent_value.induct) (auto split: prod.splits)

lemma finite_texts: "finite_json (map (\<lambda>k. (k, VStr (f k))) ks)"
  by (induction ks) auto

lemma finite_plan_b: "finite_json d \<Longrightarrow> finite_json (plan_b_event_detail e d sys src c)"
  by (simp add: plan_b_event_detail_def finite_dupdate finite_dset)

lemma finite_trace: "add_inspection_trace tr d = Inr d' \<Longrightarrow> finite_json d \<Longrightarrow> finite_json d'"
  by (auto simp: add_inspection_trace_def Let_def finite_dset finite_setdefault finite_dupdate finite_fields finite_texts
      split: if_splits option.splits)

lemma finite_completion_detail:
  assumes "completion_detail E B fs o' = Inr d" "nan_free (stopwatch_seconds (own_tray o'))"
    "nan_free (total_idle_seconds (own_tray o'))"
  shows "finite_json d"
proof -
  from assms(1) obtain d0 d1 where d: "d = dset ''is_restored_session'' (VBool (was_restored B)) d1"
    and t: "add_inspection_trace (inspection_trace_from_master_label_fields (codecs E) (master_label_code (own_tray o')) fs) d0 = Inr d1"
    and f: "finite_json d0"
    using assms(2,3)
    by (auto simp: completion_detail_def build_tray_complete_detail_def tray_complete_fields_def result_simps require_text_ok
        require_positive_int_ok validated_barcodes_ok finite_fields simp del: rbind_ensure split: option.splits)
  from finite_trace [OF t f] show ?thesis unfolding d by (rule finite_dset [rotated]) simp
qed

lemma event_row_total:
  assumes "persistent_operator_name (admin_display W) (req_worker r) \<noteq> []" "path_text (req_log r) \<noteq> []"
    "vget (req_detail r) ''idempotency_key'' = VStr (req_key r)" "finite_json (req_detail r)"
  shows "\<exists>row. event_row W r = Some row"
proof -
  have raw: "finite_json (stream_detail r)"
    using assms(4) by (simp add: stream_detail_def finite_dupdate finite_dset)
  have key: "vget (stream_detail r) ''idempotency_key'' = VStr (req_key r)"
    using assms(3) by (simp add: stream_detail_def vget_dupdate_other)
  have "finite_json (plan_b_event_detail e (dset ''idempotency_key'' (VStr k) (stream_detail r)) sys src c)"
    "finite_json (plan_b_event_detail e (stream_detail r) sys src c)" for e k sys src c
    using raw by (simp_all add: finite_plan_b finite_dset)
  then show ?thesis
    using assms(1,2) key
    by (simp add: event_row_def Let_def finite_sanitize finite_json_def
        del: nan_free.simps(3) sanitize_persistent_value.simps)
qed

lemma finite_attach: "finite_json d \<Longrightarrow> finite_json (attach_transfer_seal_detail sha a d)"
proof -
  have t: "nan_free (text_or_none x)" "nan_free (int_or_none n)" for x n
    by (simp_all add: text_or_none_def int_or_none_def)
  have "nan_free (VDict (map (\<lambda>(k, n). (k, VInt n)) vs))" for vs :: "(string, int) dict" by auto
  with t show "finite_json d \<Longrightarrow> finite_json (attach_transfer_seal_detail sha a d)"
    unfolding attach_transfer_seal_detail_def by (intro finite_dupdate) (simp_all del: nan_free.simps(3))
qed

lemma scripted_release:
  "\<exists>o2. scripted E (release_steps E a reload detail o1) rs d = (Ret (Inr True, o2), \<lparr>dur_state = None, dur_logs = dur_logs d\<rparr>) \<and>
     own_tray o2 = fresh_tray \<and> own_contract o2 = None"
  by (cases d) (auto simp: release_steps_def Let_def apply_completed_tray_state_steps_def present_completed_tray_def
      publish_completion_snapshot_def split: prod.split option.split)

lemma scripted_log_completion:
  assumes "master_label_code (own_tray o1) \<noteq> []" "event_row (writer E) (completion_request E B None c detail o1) = Some row"
    "seal_status a \<noteq> ''OPERATOR_REVIEW''"
  shows "\<exists>o2 path. scripted E (log_completion_steps E now B None a c detail o1) [Saves True, Appends AppendDone] d =
      (Ret (Inr True, o2), \<lparr>dur_state = None, dur_logs = put_row path row (dur_logs d)\<rparr>) \<and>
    own_tray o2 = fresh_tray \<and> own_contract o2 = None"
proof -
  let ?r = "completion_request E B None c detail o1"
  have log: "log_event_sync (writer E) True AppendDone ?r files =
      ((True, False), put_row (path_text (target_log (writer E) ?r)) row files)" for files
    using assms(2) by (simp add: log_event_sync_def append_event_log_entry_def append_unlocked_eq)
       (simp add: completion_request_def)
  have after: "after_logging E now B a detail o1 (True, False) = release_steps E a (other_worker E B o1) detail o1"
    using assms(3) by (simp add: after_logging_def Let_def)
  show ?thesis
    using scripted_release [of E a "other_worker E B o1" detail o1 "[]"
        "d\<lparr>dur_state := Some (current_tray_state_snapshot E now o1), dur_logs := put_row (path_text (target_log (writer E) ?r)) row (dur_logs d)\<rparr>"]
      assms(1)
    by (auto simp: log_completion_steps_def save_tray_def log after)
qed

lemma completes_when:
  assumes fs: "fs = qr_fields (codecs E) (master_label_code (own_tray o'))" and guard: "completion_guard P fs o'"
    and label: "master_label_code (own_tray o') \<noteq> []"
    and B: "completion_basis_of E (call_now P) o' = Some B" and detail: "completion_detail E B fs o' = Inr d0"
    and first: "own_contract o' = None" "\<not> own_idle o'"
    and attempt: "if is_test_tray (own_tray o') then test_attempt E d0 o' = Some a \<and> \<not> is_phs2 fs
      else prepared_attempt P = Some a \<and> seal_status a = ''ACKED''"
    and intent: "strip (seal_intent_id a) \<noteq> []"
    and worker: "persistent_operator_name (admin_display (writer E)) (projection_worker B) \<noteq> []"
    and secs: "nan_free (stopwatch_seconds (own_tray o'))" "nan_free (total_idle_seconds (own_tray o'))"
  shows "\<exists>o2 d2 path row. executes E (complete_tray_steps E P o') d (Ret (Inr True, o2)) d2 \<and> dur_state d2 = None \<and>
    own_tray o2 = fresh_tray \<and> own_contract o2 = None \<and> row_event row = ''TRAY_COMPLETE'' \<and>
    dur_logs d2 = put_row path row (dur_logs d)"
proof -
  let ?intent = "strip (seal_intent_id a)"
  obtain det tr where tr: "transfer_details (sha256 E) a None d0 = (det, tr)" by fastforce
  then have det: "det = attach_transfer_seal_detail (sha256 E) a d0"
    by (simp add: transfer_details_def stored_transfer_detail_def Let_def)
  obtain c where c: "completion_event_contract E B a tr True = Inr c"
    "vget c ''idempotency_key'' = VStr (''tray-complete:'' @ ?intent)"
    using intent worker by (simp add: completion_event_contract_def Let_def)
  let ?detail = "dset ''idempotency_key'' (vget c ''idempotency_key'') det"
  let ?o = "o'\<lparr>own_contract := Some c\<rparr>"
  have path: "path_text (projection_log B) \<noteq> []"
    using B first by (auto simp: completion_basis_of_def completion_projection_log_path_def Let_def split: option.splits if_splits)
  have "finite_json ?detail"
    using finite_completion_detail [OF detail secs] by (simp add: det c(2) finite_attach finite_dset)
  then have "\<exists>row. event_row (writer E) (completion_request E B None c ?detail ?o) = Some row"
    using worker path c(2) by (intro event_row_total) (simp_all add: completion_request_def other_worker_def, metis)
  then obtain row where row: "event_row (writer E) (completion_request E B None c ?detail ?o) = Some row" ..
  then have event: "row_event row = ''TRAY_COMPLETE''"
    by (auto simp: event_row_def Let_def completion_request_def redact_short simp del: nan_free.simps split: if_splits)
  have status: "seal_status a \<noteq> ''OPERATOR_REVIEW''" "is_phs2 fs \<longrightarrow> seal_status a = ''ACKED''"
    using attempt by (auto simp: test_attempt_def split: if_splits option.splits)
  have steps: "complete_tray_steps E P o' = log_completion_steps E (call_now P) B None a c ?detail ?o"
    using guard B detail attempt first status tr c(1) unfolding fs
    by (auto simp: complete_tray_steps_def Let_def completion_after_attempt_def record_completion_steps_def
        freeze_completion_measurements_def split: if_splits)
  obtain o2 path where "scripted E (complete_tray_steps E P o') [Saves True, Appends AppendDone] d =
      (Ret (Inr True, o2), \<lparr>dur_state = None, dur_logs = put_row path row (dur_logs d)\<rparr>)"
      "own_tray o2 = fresh_tray" "own_contract o2 = None"
    using scripted_log_completion [OF _ row status(1), of "call_now P" d] label unfolding steps by auto
  with event scripted_executes [of E "complete_tray_steps E P o'" d "[Saves True, Appends AppendDone]"] show ?thesis
    by (metis durable.select_convs fst_conv snd_conv)
qed


definition demo_seal :: seal_attempt where
  "demo_seal = \<lparr>seal_intent_id = ''i1'', seal_status = ''ACKED'', seal_local_completion_id = [], seal_command_id = [],
     seal_transfer_bundle_id = [], seal_qr_payload = [], seal_member_count = 1, seal_membership_hash = [],
     seal_receipt_id = ''r1'', seal_source_bundle_id = [], seal_remainder_bundle_id = [], seal_authority_scope_id = [],
     seal_authority_epoch = 0, seal_ledger_plane = [], seal_plane_epoch = 0, seal_item_id = [], seal_inbound_iin = [],
     seal_uom = [], seal_entity_versions = [], seal_operation_lease_id = [], seal_operation_lease_state = [],
     seal_retryable = False, seal_error_code = []\<rparr>"

definition demo_env :: completion_env where
  "demo_env = \<lparr>codecs = no_codecs, iso = demo_iso, writer = demo_writer, texts = (\<lambda>_. ''text''), notices = (\<lambda>_. (''t'', ''m'')),
     sha256 = (\<lambda>_. ''h''), add_idle = (\<lambda>v n. v), history = ((''dir'', ''log_1.csv''), [], 0, [], [])\<rparr>"

definition demo_owner :: owner where
  "demo_owner = \<lparr>own_tray = demo_tray, own_worker = ''kim'', own_contract = None, own_review = None,
     own_view = \<lparr>active_notice = None, last_normal_scan = None, completion = None\<rparr>, own_activation = None, own_parked = None,
     own_idle = False, own_last_activity = None, own_folder = ''dir'', own_log = (''dir'', ''log_1.csv''), own_summary = [],
     own_count = 0, own_times = [], own_labels = []\<rparr>"

definition demo_call :: completion_call where
  "demo_call = \<lparr>hold_blocks = False, label_exchange_blocks = False, member_exchange_blocks = False,
     prepared_attempt = Some demo_seal, lane_prechecked = False, context_stale = False,
     call_now = \<lparr>wall = 20, utc_offset = None\<rparr>\<rparr>"

definition demo_durable :: durable where
  "demo_durable = \<lparr>dur_state = None, dur_logs = Map.empty\<rparr>"

definition demo_phs_owner :: owner where
  "demo_phs_owner = demo_owner\<lparr>own_tray := demo_tray\<lparr>master_label_code := ''PHS=2|CLC=AB'', tray_size := 1\<rparr>\<rparr>"

definition demo_lock :: completion_snapshot where
  "demo_lock = \<lparr>outcome = LOCAL_EVENT_RETRY, snap_item_name = ''part'', snap_master_label = ''LOT7'', scan_count = 1,
     target_count = 60, snap_message = ''text'', snap_receipt_id = [], snap_error_code = ''TRAY_COMPLETE_EVENT_PERSIST_FAILED''\<rparr>"

definition demo_locked_owner :: owner where
  "demo_locked_owner = demo_owner\<lparr>own_tray := demo_tray\<lparr>is_test_tray := True\<rparr>, own_review := Some demo_lock\<rparr>"

definition demo_basis :: completion_basis where
  "demo_basis = \<lparr>observed_at = \<lparr>wall = 20, utc_offset = None\<rparr>, was_restored = False, projection_worker = ''kim'',
     projection_log = (''dir'', ''log_1.csv'')\<rparr>"

lemmas demo_defs = demo_env_def demo_basis_def demo_locked_owner_def demo_phs_owner_def demo_owner_def demo_tray_def demo_call_def demo_lock_def

lemma demo_strip [simp]: "strip ''kim'' = ''kim''" "strip ''AB'' = ''AB''" "strip ''LOT7'' = ''LOT7''"
  "strip ''PHS=2|CLC=AB'' = ''PHS=2|CLC=AB''" "strip ''AB-1'' = ''AB-1''" "strip ''i1'' = ''i1''" "strip ''2'' = ''2''"
  by code_simp+

lemma demo_basis_of:
  "completion_basis_of demo_env (call_now demo_call) demo_owner = Some demo_basis"
  "completion_basis_of demo_env (call_now demo_call) demo_phs_owner = Some demo_basis"
  "completion_basis_of demo_env (call_now demo_call) demo_locked_owner = Some demo_basis"
  by (simp_all add: completion_basis_of_def completion_projection_log_path_def demo_defs path_text_def
      persistent_operator_name_def Let_def demo_writer_def PROTECTED_ADMIN_OPERATOR_ID_def)

lemma demo_fields:
  "qr_fields no_codecs ''PHS=2|CLC=AB'' = [(''PHS'', ''2''), (''CLC'', ''AB'')]" "qr_fields no_codecs ''LOT7'' = []"
  by code_simp+

lemma demo_guard:
  "completion_guard demo_call [] demo_owner" "completion_guard demo_call [(''PHS'', ''2''), (''CLC'', ''AB'')] demo_phs_owner"
  "completion_guard demo_call [] demo_locked_owner"
  by (simp_all add: completion_guard_def demo_defs active_blocking_completion_def is_phs2_def stripped_field_def field_def
      operator_retryable_def blocks_completion_def)

lemma demo_detail:
  "\<exists>d. completion_detail demo_env demo_basis [] demo_owner = Inr d"
  "\<exists>d. completion_detail demo_env demo_basis [(''PHS'', ''2''), (''CLC'', ''AB'')] demo_phs_owner = Inr d"
  "\<exists>d. completion_detail demo_env demo_basis [] demo_locked_owner = Inr d"
  by (simp_all add: completion_detail_def build_tray_complete_detail_def tray_complete_fields_def result_simps demo_defs validated_scanned_barcodes_def
      require_positive_int_def require_text_def check_label_quantity_def inspection_master_item_code_def stripped_field_def
      field_def add_inspection_trace_def trace_tag_keys_def inspection_trace_from_master_label_fields_def)

lemma finite_vget: "finite_json d \<Longrightarrow> nan_free (vget d k)"
  by (induction d) auto

lemma demo_test_attempt:
  assumes "completion_detail demo_env demo_basis [] demo_locked_owner = Inr d"
  shows "\<exists>a. test_attempt demo_env d demo_locked_owner = Some a \<and> strip (seal_intent_id a) \<noteq> []"
proof -
  have "finite_json d" using finite_completion_detail [OF assms] by (simp add: demo_defs)
  then have "stable_hash (sha256 demo_env)
       [(''master_label'', VStr (master_label_code (own_tray demo_locked_owner))), (''start_time'', vget d ''start_time''),
        (''product_barcodes'', if truthy (vget d ''product_barcodes'') then vget d ''product_barcodes'' else VList []),
        (''is_test_tray'', VBool True)] \<noteq> None"
    by (simp add: stable_hash_eq finite_vget)
  then show ?thesis
    using strip_nonspace [of "CHR ''t''" "''test-transfer-seal-skipped-'' @ s" for s]
    by (auto simp: test_attempt_def is_space_def)
qed

lemma demo_completes:
  "\<exists>o2 d2. executes demo_env (complete_tray_steps demo_env demo_call demo_owner) demo_durable (Ret (Inr True, o2)) d2"
  "\<exists>o2 d2. executes demo_env (complete_tray_steps demo_env demo_call demo_phs_owner) demo_durable (Ret (Inr True, o2)) d2"
  "\<exists>o2 d2. executes demo_env (complete_tray_steps demo_env demo_call demo_locked_owner) demo_durable (Ret (Inr True, o2)) d2"
proof -
  have worker: "persistent_operator_name (admin_display (writer demo_env)) (projection_worker demo_basis) \<noteq> []"
    by (simp add: persistent_operator_name_def demo_defs demo_writer_def PROTECTED_ADMIN_OPERATOR_ID_def)
  obtain d1 d2 d3 a where d: "completion_detail demo_env demo_basis [] demo_owner = Inr d1"
    "completion_detail demo_env demo_basis [(''PHS'', ''2''), (''CLC'', ''AB'')] demo_phs_owner = Inr d2"
    "completion_detail demo_env demo_basis [] demo_locked_owner = Inr d3"
    and a: "test_attempt demo_env d3 demo_locked_owner = Some a" "strip (seal_intent_id a) \<noteq> []"
    using demo_detail demo_test_attempt by meson
  have phs: "\<not> is_phs2 []" by (simp add: is_phs2_def stripped_field_def field_def)
  note run = completes_when [OF _ _ _ _ _ _ _ _ _ worker, where P = demo_call and d = demo_durable]
  show "\<exists>o2 d2. executes demo_env (complete_tray_steps demo_env demo_call demo_owner) demo_durable (Ret (Inr True, o2)) d2"
    using run [OF _ demo_guard(1) _ demo_basis_of(1) d(1), where a = demo_seal] demo_fields
    by (simp add: demo_defs demo_seal_def) blast
  show "\<exists>o2 d2. executes demo_env (complete_tray_steps demo_env demo_call demo_phs_owner) demo_durable (Ret (Inr True, o2)) d2"
    using run [OF _ demo_guard(2) _ demo_basis_of(2) d(2), where a = demo_seal] demo_fields
    by (simp add: demo_defs demo_seal_def) blast
  show "\<exists>o2 d2. executes demo_env (complete_tray_steps demo_env demo_call demo_locked_owner) demo_durable (Ret (Inr True, o2)) d2"
    using run [OF _ demo_guard(3) _ demo_basis_of(3) d(3), where a = a] demo_fields a phs
    by (simp add: demo_defs demo_seal_def) blast
qed

theorem completion_event_at_most_once_witness:
  "\<exists>d path row. (lives demo_env ''dir'' False)\<^sup>*\<^sup>* (Idle demo_owner demo_durable) (Released d) \<and>
     completions (dur_logs d) = (\<lambda>_. [])(path := [row]) \<and> row_event row = ''TRAY_COMPLETE''"
proof -
  obtain o' d where "executes demo_env (complete_tray_steps demo_env demo_call demo_owner) demo_durable (Ret (Inr True, o')) d"
    using demo_completes(1) by blast
  from executes_lives [OF this] have run: "(lives demo_env ''dir'' False)\<^sup>*\<^sup>* (Idle demo_owner demo_durable) (Released d)"
    by (meson converse_rtranclp_into_rtranclp rtranclp.rtrancl_into_rtrancl lives.attempt lives.released)
  have settled: "owner_settled ''dir'' False demo_owner" by code_simp
  have none: "completions (dur_logs demo_durable) = (\<lambda>_. [])"
    by (simp add: completions_def demo_durable_def rows_at_def)
  show ?thesis
    using completion_event_at_most_once [OF settled run] run by (auto simp: none)
qed



subsection \<open>What a release requires\<close>

text \<open>The tray as the operator scanned it.\<close>

definition same_scans :: "owner \<Rightarrow> owner \<Rightarrow> bool" where
  "same_scans o1 o2 \<longleftrightarrow> (\<exists>idle. own_tray o1 = (own_tray o2)\<lparr>total_idle_seconds := idle\<rparr>)"

lemma same_scans_refl [simp]: "same_scans o' o'"
  by (auto simp: same_scans_def intro: exI [of _ "total_idle_seconds (own_tray o')"])

lemma same_scans_trans: "same_scans a b \<Longrightarrow> same_scans b c \<Longrightarrow> same_scans a c"
  by (auto simp: same_scans_def)

lemma same_scans_freeze: "same_scans (freeze_completion_measurements E t o') o'"
  by (auto simp: freeze_completion_measurements_def Let_def same_scans_def same_scans_refl [unfolded same_scans_def]
      split: option.splits)

lemma same_scans_update [simp]:
  "same_scans (o1\<lparr>own_contract := c\<rparr>) o2 = same_scans o1 o2" "same_scans (o1\<lparr>own_review := v\<rparr>) o2 = same_scans o1 o2"
  "same_scans (publish_completion_snapshot E s o1) o2 = same_scans o1 o2"
  by (simp_all add: same_scans_def publish_completion_snapshot_def)

abbreviation yields :: "completion_env \<Rightarrow> ('r \<Rightarrow> bool) \<Rightarrow> 'r steps \<Rightarrow> durable \<Rightarrow> bool" where
  "yields E Q \<equiv> safe E (\<lambda>_. True) (\<lambda>x _. Q x)"

lemma yields_save: "(\<And>b d. yields E Q (k b) d) \<Longrightarrow> yields E Q (save_tray E now o' k) d"
  by (simp add: save_tray_def)

lemma yields_outcome:
  "same_scans o1 o' \<Longrightarrow> yields E (\<lambda>o2. same_scans o2 o') (completion_outcome_steps E now kind message receipt err o1) d"
  unfolding completion_outcome_steps_def Let_def by (simp add: save_tray_def)

definition confirmed_release :: "fields \<Rightarrow> owner \<Rightarrow> completion_result \<Rightarrow> bool" where
  "confirmed_release fs o' = (\<lambda>(r, o2).
     if r = Inr True then is_phs2 fs \<longrightarrow>
       (\<exists>s. completion (own_view o2) = Some s \<and> outcome s \<in> {ACKED, LINKED} \<and>
          snap_master_label s = master_label_code (own_tray o') \<and> scan_count s = int (length (scanned_barcodes (own_tray o'))))
     else same_scans o2 o')"

lemma yields_refuse: "same_scans o1 o' \<Longrightarrow> yields E (confirmed_release fs o') (refuse o1) d"
  by (simp add: refuse_def confirmed_release_def)

lemma yields_stop: "same_scans o1 o' \<Longrightarrow> yields E (confirmed_release fs o') (Ret (Inl e, o1)) d"
  by (simp add: confirmed_release_def)

lemma yields_refuse_with:
  "same_scans o1 o' \<Longrightarrow> yields E (confirmed_release fs o') (refuse_with E now kind message receipt err o1) d"
  unfolding refuse_with_def
  by (rule safe_yield_from, rule safe_mono [OF yields_outcome], assumption, rule yields_refuse)

lemma yields_release:
  assumes "same_scans o1 o'" "is_phs2 fs \<Longrightarrow> seal_status a = ''ACKED'' \<or> seal_local_completion_id a \<noteq> []"
    "is_phs2 fs \<Longrightarrow> \<not> is_test_tray (own_tray o')"
  shows "yields E (confirmed_release fs o') (release_steps E a reload detail o1) d"
proof -
  have snap: "\<exists>s. settled_snapshot E a o1 = Some s \<and> outcome s \<in> {ACKED, LINKED} \<and>
      snap_master_label s = master_label_code (own_tray o') \<and> scan_count s = int (length (scanned_barcodes (own_tray o')))"
    if "is_phs2 fs"
    using assms that by (auto simp: settled_snapshot_def Let_def same_scans_def)
  have shown: "completion (own_view (present_completed_tray E failed (Some s) o2)) = Some s" for failed s o2
    by (simp add: present_completed_tray_def Let_def publish_completion_snapshot_def present_completion_def acknowledge_def)
  have "confirmed_release fs o' (Inr True, present_completed_tray E failed (settled_snapshot E a o1) o2)" for failed o2
    using snap shown by (auto simp: confirmed_release_def)
  then show ?thesis
    by (auto simp: release_steps_def Let_def apply_completed_tray_state_steps_def split: prod.split option.split)
qed

lemma yields_record:
  assumes "same_scans o1 o'" "is_phs2 fs \<Longrightarrow> seal_status a = ''ACKED'' \<or> seal_local_completion_id a \<noteq> []"
    "is_phs2 fs \<Longrightarrow> \<not> is_test_tray (own_tray o')"
  shows "yields E (confirmed_release fs o') (record_completion_steps E now B fs existing a o1) d"
proof -
  let ?yields = "yields E (confirmed_release fs o')" and ?o = "freeze_completion_measurements E (observed_at B) o1"
  have o: "same_scans (?o\<lparr>own_contract := c\<rparr>) o'" "same_scans ?o o'" for c
    using same_scans_trans [OF same_scans_freeze assms(1)] by simp_all
  have after: "?yields (after_logging E now B a detail (?o\<lparr>own_contract := c\<rparr>) res) d" for detail c res d
    using yields_refuse_with [OF o(1)] yields_release [OF o(1) assms(2,3)]
    by (cases res) (simp add: after_logging_def Let_def)
  have "?yields (log_completion_steps E now B existing a c detail (?o\<lparr>own_contract := Some c\<rparr>)) d" for c detail
    unfolding log_completion_steps_def
    by (rule yields_save) (use after yields_refuse_with [OF o(1)] in \<open>auto split: prod.split\<close>)
  then show ?thesis
    unfolding record_completion_steps_def Let_def
    by (simp add: yields_refuse_with [OF o(2)] yields_stop [OF o(2)] split: prod.split sum.split del: safe.simps)
qed

lemma yields_after_attempt:
  assumes "same_scans o1 o'"
    "is_test_tray (own_tray o') \<Longrightarrow> seal_status a \<noteq> ''ACKED'' \<and> seal_local_completion_id a = []"
  shows "yields E (confirmed_release fs o') (completion_after_attempt E now B fs existing a o1) d"
proof -
  let ?o = "freeze_completion_measurements E (observed_at B) o1"
  have o: "same_scans (?o\<lparr>own_contract := c\<rparr>) o'" "same_scans ?o o'" for c
    using same_scans_trans [OF same_scans_freeze assms(1)] by simp_all
  have rec: "yields E (confirmed_release fs o') (record_completion_steps E now B fs existing a o1) d"
    if "\<not> (is_phs2 fs \<and> seal_status a \<noteq> ''ACKED'' \<and> seal_local_completion_id a = [])"
    using that assms by (intro yields_record) auto
  show ?thesis
    unfolding completion_after_attempt_def Let_def
    using rec yields_refuse_with [OF o(1)] yields_refuse_with [OF o(2)] yields_stop [OF o(2)]
    by (simp del: safe.simps split: sum.split)
qed

lemma yields_transfer:
  "yields E (\<lambda>(r, o1). same_scans o1 o') (transfer_steps E P B o') d"
proof -
  have "yields E (\<lambda>(r, o1). same_scans o1 o') (prepared_completion_contract_steps E now stale B a o') d" for now stale a d
    unfolding prepared_completion_contract_steps_def Let_def
    by (auto split: sum.split simp del: safe.simps intro!: yields_save safe_yield_from safe_mono [OF yields_outcome])
       (simp_all split: option.split)
  note prepared = safe_mono [OF this]
  show ?thesis
    unfolding transfer_steps_def
    by (auto split: option.split intro!: safe_yield_from prepared split: sum.split)
qed

lemma yields_complete_tray:
  "yields E (confirmed_release (qr_fields (codecs E) (master_label_code (own_tray o'))) o') (complete_tray_steps E P o') d"
proof -
  let ?fs = "qr_fields (codecs E) (master_label_code (own_tray o'))"
  let ?yields = "yields E (confirmed_release ?fs o')"
  have test: "seal_status a \<noteq> ''ACKED'' \<and> seal_local_completion_id a = []" if "test_attempt E detail o' = Some a" for a detail
    using that by (auto simp: test_attempt_def split: option.splits)
  have attempt: "?yields (yield_from (transfer_steps E P B o') (\<lambda>(r, o1). case r of
       Inr (Some a) \<Rightarrow> completion_after_attempt E (call_now P) B ?fs (own_contract o') a o1
     | _ \<Rightarrow> if own_contract o1 \<noteq> None \<and> active_blocking_completion o1 = None
         then refuse_with E (call_now P) RETRY_WAIT PreparedAttemptFailedText [] ''TRAY_COMPLETE_PREPARED_ATTEMPT_FAILED'' o1
         else refuse o1)) d" if "\<not> is_test_tray (own_tray o')" for B
    by (rule safe_yield_from, rule safe_mono [OF yields_transfer])
       (use that in \<open>auto simp del: safe.simps split: sum.split option.split
          intro!: yields_after_attempt yields_refuse_with yields_refuse\<close>)
  have refuse: "?yields (refuse o') d" by (rule yields_refuse) simp
  have stop: "?yields (Ret (Inl e, o')) d" for e by (rule yields_stop) simp
  have direct: "?yields (completion_after_attempt E (call_now P) B ?fs (own_contract o') a o') d"
    if "\<not> is_test_tray (own_tray o') \<or> test_attempt E detail o' = Some a" for B a detail
    using that test by (intro yields_after_attempt) auto
  show ?thesis
    unfolding complete_tray_steps_def Let_def
    using refuse stop attempt direct by (auto simp del: safe.simps split: option.split sum.split)
qed

text \<open>
  C13. A PHS2 tray is released only when it is full and its transfer is confirmed: when a completion
  of such a tray returns \<open>True\<close>, whatever the outcomes on the way, it was filled exactly to its size,
  and the window shows a confirmed (\<open>ACKED\<close>) or locally linked completion with its
  label and count. Whatever the label, every other result (\<open>False\<close> or an exception) leaves the
  scanned tray as it was, up to the idle time.
\<close>

theorem phs2_release_confirmed:
  assumes "executes E (complete_tray_steps E P o') d (Ret (r, o2)) d2"
  shows "(r = Inr True \<and> is_phs2 (qr_fields (codecs E) (master_label_code (own_tray o'))) \<longrightarrow>
      int (length (scanned_barcodes (own_tray o'))) = tray_size (own_tray o') \<and>
      (\<exists>s. completion (own_view o2) = Some s \<and> outcome s \<in> {ACKED, LINKED} \<and>
         snap_master_label s = master_label_code (own_tray o') \<and>
         scan_count s = int (length (scanned_barcodes (own_tray o'))))) \<and>
    (r \<noteq> Inr True \<longrightarrow> (\<exists>idle. own_tray o2 = (own_tray o')\<lparr>total_idle_seconds := idle\<rparr>))"
proof -
  let ?fs = "qr_fields (codecs E) (master_label_code (own_tray o'))"
  have Q: "confirmed_release ?fs o' (r, o2)"
    using executes_result [OF assms yields_complete_tray] .
  have full: "int (length (scanned_barcodes (own_tray o'))) = tray_size (own_tray o')" if "r = Inr True" "is_phs2 ?fs"
  proof (rule ccontr)
    assume "int (length (scanned_barcodes (own_tray o'))) \<noteq> tray_size (own_tray o')"
    with that(2) have "complete_tray_steps E P o' = refuse o'"
      by (simp add: complete_tray_steps_def completion_guard_def)
    then have "executes E (Ret (Inr False, o')) d (Ret (r, o2)) d2" using assms by (simp add: refuse_def)
    then have "r = Inr False" by (cases rule: executes.cases) (auto elim: exec.cases)
    with that(1) show False by simp
  qed
  show ?thesis
    using Q full by (cases "r = Inr True") (auto simp: confirmed_release_def same_scans_def)
qed

theorem phs2_release_confirmed_witness:
  "\<exists>o2 d2 s. executes demo_env (complete_tray_steps demo_env demo_call demo_phs_owner) demo_durable (Ret (Inr True, o2)) d2 \<and>
     is_phs2 (qr_fields (codecs demo_env) (master_label_code (own_tray demo_phs_owner))) \<and>
     completion (own_view o2) = Some s \<and> outcome s \<in> {ACKED, LINKED}"
proof -
  obtain o2 d2 where run: "executes demo_env (complete_tray_steps demo_env demo_call demo_phs_owner) demo_durable
      (Ret (Inr True, o2)) d2"
    using demo_completes(2) by blast
  have phs: "is_phs2 (qr_fields (codecs demo_env) (master_label_code (own_tray demo_phs_owner)))"
    using demo_fields by (simp add: demo_defs is_phs2_def stripped_field_def field_def)
  show ?thesis using phs2_release_confirmed [OF run] run phs by blast
qed

subsection \<open>Every run ends\<close>

text \<open>\<open>at_most n p\<close>: whatever the outcomes, \<open>p\<close> returns after at most \<open>n\<close> operations.\<close>

primrec at_most :: "'r steps \<Rightarrow> nat \<Rightarrow> bool" where
  "at_most (Ret x) = (\<lambda>n. True)"
| "at_most (Save st k) = (\<lambda>n. \<exists>m. n = Suc m \<and> (\<forall>b. at_most (k b) m))"
| "at_most (Log r k) = (\<lambda>n. \<exists>m. n = Suc m \<and> (\<forall>b. at_most (k b) m))"
| "at_most (Delete k) = (\<lambda>n. \<exists>m. n = Suc m \<and> (\<forall>b. at_most (k b) m))"
| "at_most (Prepare k) = (\<lambda>n. \<exists>m. n = Suc m \<and> (\<forall>b. at_most (k b) m))"
| "at_most (Attempt i k) = (\<lambda>n. \<exists>m. n = Suc m \<and> (\<forall>b. at_most (k b) m))"
| "at_most (PostReview i k) = (\<lambda>n. \<exists>m. n = Suc m \<and> (\<forall>b. at_most (k b) m))"
| "at_most (LogLater e d k) = (\<lambda>n. \<exists>m. n = Suc m \<and> (\<forall>b. at_most (k b) m))"
| "at_most (BestTime t k) = (\<lambda>n. \<exists>m. n = Suc m \<and> (\<forall>b. at_most (k b) m))"

lemma at_most_add: "at_most p m \<Longrightarrow> at_most p (m + j)"
  by (induction p arbitrary: m) auto

lemma at_most_mono: "at_most p m \<Longrightarrow> m \<le> n \<Longrightarrow> at_most p n"
  using at_most_add by (auto simp: le_iff_add)

lemma at_most_yield_from:
  assumes "\<And>x. at_most (f x) k"
  shows "at_most m n \<Longrightarrow> at_most (yield_from m f) (n + k)"
  using assms by (induction m arbitrary: n) (auto intro: at_most_mono [OF assms])

text \<open>Runs of a given length.\<close>

inductive execs :: "completion_env \<Rightarrow> nat \<Rightarrow> 'r steps \<Rightarrow> durable \<Rightarrow> 'r steps \<Rightarrow> durable \<Rightarrow> bool" for E where
  execs_0: "execs E 0 p d p d"
| execs_Suc: "exec E p d p1 d1 \<Longrightarrow> execs E i p1 d1 p2 d2 \<Longrightarrow> execs E (Suc i) p d p2 d2"

lemma at_most_exec: "exec E p d p' d' \<Longrightarrow> at_most p n \<Longrightarrow> \<exists>m. n = Suc m \<and> at_most p' m"
  by (induction rule: exec.induct) auto

lemma at_most_execs: "execs E i p d p' d' \<Longrightarrow> at_most p n \<Longrightarrow> i \<le> n"
  by (induction arbitrary: n rule: execs.induct) (auto dest!: at_most_exec)

lemma exec_progress: "(\<exists>x. p = Ret x) \<or> (\<exists>p' d'. exec E p d p' d')"
proof (cases p)
  case (Log r k)
  obtain res files where "log_event_sync (writer E) True AppendDone r (dur_logs d) = (res, files)" by fastforce
  with Log show ?thesis using exec.logged by blast
qed (blast intro: exec.intros)+

lemma at_most_save: "(\<And>b. at_most (k b) n) \<Longrightarrow> at_most (save_tray E now o' k) (Suc n)"
  using at_most_mono [of "k False" n "Suc n"] by (simp add: save_tray_def)

lemma at_most_outcome: "at_most (completion_outcome_steps E now kind message receipt err o') 1"
  unfolding completion_outcome_steps_def Let_def One_nat_def
  by (auto simp del: at_most.simps(2-9) intro!: at_most_save)

lemma at_most_refuse_with: "at_most (refuse_with E now kind message receipt err o') (Suc n)"
  using at_most_yield_from [OF _ at_most_outcome, of refuse n]
  by (simp add: refuse_with_def refuse_def)

lemma at_most_release: "at_most (release_steps E a reload detail o') 3"
  by (auto simp: release_steps_def Let_def apply_completed_tray_state_steps_def numeral_3_eq_3 split: prod.split option.split)

lemma at_most_record: "at_most (record_completion_steps E now B fs existing a o') 6"
proof -
  have "at_most (after_logging E now B a detail o1 res) 4" for detail o1 res
    using at_most_release at_most_mono [OF at_most_release, of 4] at_most_refuse_with [of E now _ _ _ _ _ 3]
    by (cases res) (auto simp: after_logging_def Let_def eval_nat_numeral)
  then have "at_most (log_completion_steps E now B existing a c detail o1) 6" for c detail o1
    using at_most_refuse_with [of E now _ _ _ _ _ 4]
    unfolding log_completion_steps_def eval_nat_numeral by (intro at_most_save) auto
  then show ?thesis
    using at_most_refuse_with [of E now _ _ _ _ _ 5]
    by (simp add: record_completion_steps_def Let_def eval_nat_numeral split: sum.split prod.split)
qed

lemma at_most_after_attempt: "at_most (completion_after_attempt E now B fs existing a o') 6"
  using at_most_record at_most_refuse_with [of E now _ _ _ _ _ 5]
  by (simp add: completion_after_attempt_def Let_def eval_nat_numeral split: sum.split)

lemma at_most_transfer: "at_most (transfer_steps E P B o') 4"
proof -
  have "at_most (prepared_completion_contract_steps E now stale b a o') 2" for now stale b a
    unfolding prepared_completion_contract_steps_def Let_def eval_nat_numeral
    by (auto split: sum.split simp del: at_most.simps(2-9)
        intro!: at_most_save at_most_yield_from [OF _ at_most_outcome, where k = 0, simplified])
  then have "at_most (yield_from (prepared_completion_contract_steps E now stale b a o') f) (2 + 1)"
    if "\<And>x. at_most (f x) 1" for now stale b a and f :: "(completion_error + unit) \<times> owner \<Rightarrow> ((completion_error + seal_attempt option) \<times> owner) steps"
    using that by (intro at_most_yield_from)
  then show ?thesis
    unfolding transfer_steps_def by (auto simp: eval_nat_numeral split: option.split sum.split prod.split)
qed



subsection \<open>A retry that leaves the lock behind\<close>

definition stale_release :: "owner \<Rightarrow> completion_result \<Rightarrow> bool" where
  "stale_release o' = (\<lambda>(r, o2). r = Inr True \<longrightarrow>
     own_tray o2 = fresh_tray \<and> own_contract o2 = None \<and> own_review o2 = own_review o' \<and> own_view o2 = own_view o')"

lemma refuse_with_never: "yields E (stale_release o') (refuse_with E now kind message receipt err o1) d"
  unfolding refuse_with_def completion_outcome_steps_def Let_def
  by (simp add: save_tray_def refuse_def stale_release_def)

lemma count_completion_keeps:
  "own_review (fst (count_completion E reload detail o')) = own_review o'"
  "own_view (fst (count_completion E reload detail o')) = own_view o'"
  by (simp_all add: count_completion_def Let_def load_session_state_def remember_completed_master_label_def
      split: prod.split)

lemma yields_unsettled_release:
  assumes "settled_snapshot E a o1 = None" "own_review o1 = own_review o'" "own_view o1 = own_view o'"
  shows "yields E (stale_release o') (release_steps E a reload detail o1) d"
  using assms count_completion_keeps [of E reload detail o1]
  by (auto simp: release_steps_def Let_def apply_completed_tray_state_steps_def present_completed_tray_def stale_release_def
      split: prod.split option.split)

lemma yields_test_record:
  assumes "is_test_tray (own_tray o')"
  shows "yields E (stale_release o') (record_completion_steps E now B fs existing a o') d"
proof -
  let ?yields = "yields E (stale_release o')" and ?o = "freeze_completion_measurements E (observed_at B) o'"
  have o: "own_review ?o = own_review o'" "own_view ?o = own_view o'" "is_test_tray (own_tray ?o)"
    using assms by (simp_all add: freeze_completion_measurements_def Let_def split: option.split)
  have after: "?yields (after_logging E now B a detail (?o\<lparr>own_contract := c\<rparr>) res) d" for detail c res d
    using refuse_with_never yields_unsettled_release [of E a "?o\<lparr>own_contract := c\<rparr>" o'] o
    by (cases res) (simp add: after_logging_def Let_def settled_snapshot_def)
  have "?yields (log_completion_steps E now B existing a c detail (?o\<lparr>own_contract := Some c\<rparr>)) d" for c detail
    unfolding log_completion_steps_def
    by (rule yields_save) (use after refuse_with_never in \<open>auto split: prod.split\<close>)
  moreover have "?yields (Ret (Inl e, ?o)) d" for e by (simp add: stale_release_def)
  ultimately show ?thesis
    unfolding record_completion_steps_def Let_def
    by (simp add: refuse_with_never split: prod.split sum.split del: safe.simps)
qed

lemma yields_test_complete:
  assumes "is_test_tray (own_tray o')"
  shows "yields E (stale_release o') (complete_tray_steps E P o') d"
proof -
  have "yields E (stale_release o') (completion_after_attempt E now B fs existing a o') d" for now B fs existing a
    using refuse_with_never yields_test_record [OF assms]
    by (simp add: completion_after_attempt_def Let_def stale_release_def split: sum.split)
  then show ?thesis
    using assms by (simp add: complete_tray_steps_def Let_def refuse_def stale_release_def split: option.split sum.split)
qed

text \<open>
  C40. Retrying the completion of a test tray does not lift its lock: a test tray whose first attempt
  left a blocking completion (its event could not be written, say) and whose retry succeeds is
  replaced by a new tray, but the window keeps the old tray's blocking completion, so the new tray
  is blocked as well.
\<close>

theorem test_retry_keeps_lock:
  assumes "is_test_tray (own_tray o')" "own_review o' = Some s" "blocks_completion s"
    "executes E (complete_tray_steps E P o') d (Ret (Inr True, o2)) d2"
  shows "own_tray o2 = fresh_tray \<and> own_contract o2 = None \<and> own_review o2 = Some s \<and> operator_review_blocks_mutation o2"
  using executes_result [OF assms(4) yields_test_complete [OF assms(1)]] assms(2,3)
  by (simp add: stale_release_def operator_review_blocks_mutation_def active_blocking_completion_def)

theorem test_retry_keeps_lock_witness:
  "\<exists>o2 d2. executes demo_env (complete_tray_steps demo_env demo_call demo_locked_owner) demo_durable (Ret (Inr True, o2)) d2 \<and>
     own_tray o2 = fresh_tray \<and> operator_review_blocks_mutation o2"
proof -
  obtain o2 d2 where run: "executes demo_env (complete_tray_steps demo_env demo_call demo_locked_owner) demo_durable
      (Ret (Inr True, o2)) d2"
    using demo_completes(3) by blast
  have "is_test_tray (own_tray demo_locked_owner)" "own_review demo_locked_owner = Some demo_lock" "blocks_completion demo_lock"
    by (simp_all add: demo_locked_owner_def demo_lock_def blocks_completion_def)
  from test_retry_keeps_lock [OF this run] run show ?thesis by blast
qed

end
