(* ===== verification/Session_History.thy ===== *)
theory Session_History
  imports Product_Identity Event_Payloads Event_Log
begin

text \<open>
  \<open>session_history.py\<close>: the day's counters and the completed labels, read back from the event logs.

  A log row is the \<^typ>\<open>log_row\<close> of \<open>Event_Log\<close>. A file of the folder is its name, the lines its reader yields
  and whether reading then fails. Days are numbered from 0001-01-01, a Monday; a wall clock is in
  microseconds from the same day. The two Korean file name prefixes and the Korean name of
  an unknown item are arguments, as is \<open>float\<close> of a text. Seconds are exact rationals: the code's
  division rounds to the nearest double. Exceptions of the checks are \<open>Inl\<close>; \<open>load_session_history\<close>
  catches them per row, except those of the summary at its end.
\<close>

datatype history_error = HistoryValue string | HistoryType string | HistoryPayload payload_error | HistoryOverflow

record history_env =
  hist_codecs :: qr_codecs
  hist_iso :: iso_lib
  hist_sha :: "string \<Rightarrow> string"
  current_prefix :: string
  legacy_prefix :: string
  unknown_name :: string
  float_of_text :: "string \<Rightarrow> number option"

subsection \<open>Fields of a detail\<close>

definition text_field :: "json \<Rightarrow> string \<Rightarrow> string \<Rightarrow> history_error + string" where
  "text_field d k deflt = (case vget_default d k (VStr deflt) of
       VNone \<Rightarrow> Inr deflt
     | VStr s \<Rightarrow> Inr s
     | _ \<Rightarrow> Inl (HistoryType (k @ '' must be text'')))"

definition history_int_field :: "json \<Rightarrow> string \<Rightarrow> int \<Rightarrow> history_error + int option" where
  "history_int_field d k minimum =
     (if k \<notin> set (dkeys d) then Inr None
      else case vget d k of
          VInt n \<Rightarrow> if n < minimum then Inl (HistoryValue (k @ '' must be >= '' @ show_int minimum)) else Inr (Some n)
        | _ \<Rightarrow> Inl (HistoryType (k @ '' must be an integer'')))"

fun of_payload :: "payload_error + 'a \<Rightarrow> history_error + 'a" where
  "of_payload (Inl e) = Inl (HistoryPayload e)"
| "of_payload (Inr x) = Inr x"

definition flag_keys :: "string list" where
  "flag_keys = [''has_error_or_reset'', ''is_partial_submission'', ''is_restored_session'', ''is_test_tray'']"

definition check_label_capacity :: "fields \<Rightarrow> json \<Rightarrow> int option \<Rightarrow> history_error + unit" where
  "check_label_capacity fs d capacity =
     (if list_ex (\<lambda>key. stripped_field fs key \<noteq> []) [''QT'', ''QTY'', ''QUANTITY''] \<and> ''tray_capacity'' \<in> set (dkeys d)
      then (case (parse_positive_quantity fs None, capacity) of
          (Some n, Some c) \<Rightarrow> ensure (n = c) (HistoryValue ''master_label_code QT must match tray_capacity'')
        | _ \<Rightarrow> Inl (HistoryValue ''master_label_code QT must match tray_capacity''))
      else Inr ())"

text \<open>\<open>a is not None and b is not None and a != b\<close>\<close>

definition differ :: "int option \<Rightarrow> int option \<Rightarrow> bool" where
  "differ a b = (case (a, b) of (Some x, Some y) \<Rightarrow> x \<noteq> y | _ \<Rightarrow> False)"

definition check_counts :: "int option \<Rightarrow> int option \<Rightarrow> int option \<Rightarrow> string list \<Rightarrow> history_error + unit" where
  "check_counts capacity scan_count barcode_count barcodes =
     checks
       [ensure (barcodes = [] \<or> \<not> differ scan_count (Some (int (length barcodes))))
          (HistoryValue ''scan_count must match product_barcodes''),
        ensure (barcodes = [] \<or> \<not> differ barcode_count (Some (int (length barcodes))))
          (HistoryValue ''barcode_count must match product_barcodes''),
        ensure (\<not> differ scan_count barcode_count) (HistoryValue ''scan_count must match barcode_count'')]"

definition validate_history_complete_details :: "qr_codecs \<Rightarrow> json \<Rightarrow> history_error + unit" where
  "validate_history_complete_details C d =
     rbind (rmap (\<lambda>k. text_field d k []) [''master_label_code'', ''item_code'', ''item_name'', ''spec'']) (\<lambda>_.
     rbind (text_field d ''master_label_code'' []) (\<lambda>label.
     rbind (text_field d ''item_code'' []) (\<lambda>item.
     rbind (ensure (strip label \<noteq> []) (HistoryValue ''master_label_code must be non-empty'')) (\<lambda>_.
     rbind (ensure (strip item \<noteq> []) (HistoryValue ''item_code must be non-empty'')) (\<lambda>_.
     let fs = qr_fields C label in
     rbind (ensure (inspection_master_item_code fs \<in> {[], item}) (HistoryValue ''master_label_code CLC must match item_code'')) (\<lambda>_.
     rbind (history_int_field d ''tray_capacity'' 1) (\<lambda>capacity.
     rbind (check_label_capacity fs d capacity) (\<lambda>_.
     rbind (history_int_field d ''scan_count'' 0) (\<lambda>scan_count.
     rbind (history_int_field d ''barcode_count'' 0) (\<lambda>barcode_count.
     rbind (ensure (case (scan_count, capacity) of (Some n, Some c) \<Rightarrow> n \<le> c | _ \<Rightarrow> True)
       (HistoryValue ''scan_count must not exceed tray_capacity'')) (\<lambda>_.
     rbind (of_payload (product_barcodes_from_completion d)) (\<lambda>barcodes.
     rbind (check_counts capacity scan_count barcode_count barcodes) (\<lambda>_.
     checks (map (\<lambda>k. ensure (k \<notin> set (dkeys d) \<or> is_VBool (vget d k)) (HistoryType (k @ '' must be a boolean''))) flag_keys))))))))))))))"

subsection \<open>Replacement events\<close>

definition replacement_source_identity :: "json \<Rightarrow> json" where
  "replacement_source_identity d = (case vget d ''original_event_identity'' of
       VDict i \<Rightarrow> i
     | _ \<Rightarrow> (case vget d ''supersedes_identity'' of VDict i \<Rightarrow> i | _ \<Rightarrow> []))"

definition non_empty_text :: "pyval \<Rightarrow> string \<Rightarrow> history_error + string" where
  "non_empty_text v name = (case v of
       VStr s \<Rightarrow> if strip s = [] then Inl (HistoryValue (''replacement '' @ name @ '' is missing'')) else Inr s
     | _ \<Rightarrow> Inl (HistoryValue (''replacement '' @ name @ '' is missing'')))"

definition hashed :: "(json \<Rightarrow> string option) \<Rightarrow> json \<Rightarrow> history_error + string" where
  "hashed h d = (case h d of None \<Rightarrow> Inl (HistoryValue ''Out of range float values are not JSON compliant'') | Some x \<Rightarrow> Inr x)"

definition projection_identity :: "json \<Rightarrow> string \<Rightarrow> json" where
  "projection_identity identity payload_hash =
     [(''source_system'', vget identity ''source_system''),
      (''source_transport_or_dataset'', vget identity ''source_transport_or_dataset''),
      (''source_file_id'', vget identity ''source_file_id''), (''source_row_number'', vget identity ''source_row_number''),
      (''source_byte_offset'', vget identity ''source_byte_offset''), (''payload_hash'', VStr payload_hash)]"

definition check_projection_hashes :: "(json \<Rightarrow> string option) \<Rightarrow> json \<Rightarrow> json \<Rightarrow> history_error + unit" where
  "check_projection_hashes h d projection =
     rbind (hashed h projection) (\<lambda>expected.
     rbind (text_field d ''new_payload_hash'' []) (\<lambda>stored.
     rbind (ensure (stored = expected) (HistoryValue ''replacement new_payload_hash does not match projection'')) (\<lambda>_.
     let i = replacement_source_identity d in
     rbind (rmap (\<lambda>k. non_empty_text (vget i k) k) [''source_system'', ''source_transport_or_dataset'', ''source_file_id'']) (\<lambda>_.
     rbind (ensure (case vget i ''source_row_number'' of VInt n \<Rightarrow> 0 < n | _ \<Rightarrow> False)
       (HistoryValue ''replacement source_row_number is invalid'')) (\<lambda>_.
     rbind (ensure (case vget i ''source_byte_offset'' of VNone \<Rightarrow> True | VInt n \<Rightarrow> 0 \<le> n | _ \<Rightarrow> False)
       (HistoryValue ''replacement source_byte_offset is invalid'')) (\<lambda>_.
     rbind (hashed h (projection_identity i expected)) (\<lambda>row_hash.
     rbind (text_field d ''new_row_hash'' []) (\<lambda>stored_row.
     ensure (stored_row = row_hash) (HistoryValue ''replacement new_row_hash does not match projection identity'')))))))))"

definition validate_history_replacement_details ::
  "qr_codecs \<Rightarrow> (json \<Rightarrow> string option) option \<Rightarrow> bool \<Rightarrow> json \<Rightarrow> history_error + unit" where
  "validate_history_replacement_details C h require_projection d =
     rbind (text_field d ''old_master_label'' []) (\<lambda>old_label.
     rbind (text_field d ''new_master_label'' []) (\<lambda>new_label.
     rbind (ensure (strip old_label \<noteq> [] \<and> strip new_label \<noteq> []) (HistoryValue ''replacement labels must be non-empty'')) (\<lambda>_.
     rbind (ensure (qr_fields C old_label \<noteq> [] \<and> qr_fields C new_label \<noteq> [])
       (HistoryValue ''replacement labels must be parseable master labels'')) (\<lambda>_.
     rbind (ensure (canonical_master_label_key C old_label \<noteq> canonical_master_label_key C new_label)
       (HistoryValue ''replacement labels must not be equivalent'')) (\<lambda>_.
     case vget d ''corrected_completion_projection'' of
       VNone \<Rightarrow> ensure (\<not> require_projection) (HistoryValue ''replacement projection is required'')
     | VDict projection \<Rightarrow>
         rbind (validate_history_complete_details C projection) (\<lambda>_.
         rbind (text_field projection ''master_label_code'' []) (\<lambda>label.
         rbind (ensure (canonical_master_label_key C label = canonical_master_label_key C new_label)
           (HistoryValue ''replacement projection master_label_code must match new_master_label'')) (\<lambda>_.
         case h of None \<Rightarrow> Inr () | Some hash \<Rightarrow> check_projection_hashes hash d projection)))
     | _ \<Rightarrow> Inl (HistoryType ''replacement projection must be a mapping''))))))"

subsection \<open>Names and days\<close>

definition sanitize_worker_name :: "string \<Rightarrow> string" where
  "sanitize_worker_name w = filter (\<lambda>c. c \<notin> set [CHR 0x5C, CHR ''/'', CHR ''*'', CHR ''?'', CHR '':'', CHR 0x22, CHR ''<'', CHR ''>'', CHR ''|'']) w"

definition is_leap :: "int \<Rightarrow> bool" where
  "is_leap y \<longleftrightarrow> y mod 4 = 0 \<and> (y mod 100 \<noteq> 0 \<or> y mod 400 = 0)"

definition month_lengths :: "int \<Rightarrow> int list" where
  "month_lengths y = [31, if is_leap y then 29 else 28, 31, 30, 31, 30, 31, 31, 30, 31, 30, 31]"

definition day_number :: "int \<Rightarrow> int \<Rightarrow> int \<Rightarrow> int option" where
  "day_number y m d =
     (if 1 \<le> y \<and> 1 \<le> m \<and> m \<le> 12 \<and> 1 \<le> d \<and> d \<le> month_lengths y ! nat (m - 1)
      then Some (365 * (y - 1) + (y - 1) div 4 - (y - 1) div 100 + (y - 1) div 400
        + sum_list (take (nat (m - 1)) (month_lengths y)) + d - 1)
      else None)"

text \<open>\<open>strptime(text, "%Y%m%d").date()\<close> on eight digits\<close>

definition day_of_text :: "string \<Rightarrow> int option" where
  "day_of_text t =
     (case (int_of_text (take 4 t), int_of_text (take 2 (drop 4 t)), int_of_text (drop 6 t)) of
        (Some y, Some m, Some d) \<Rightarrow> day_number y m d
      | _ \<Rightarrow> None)"

definition day_micros :: int where
  "day_micros = 86400000000"

definition day_of :: "dt \<Rightarrow> int" where
  "day_of t = wall t div day_micros"

text \<open>\<open>prefix_(.+)_(\d{8})\.csv\<close> on the whole name: the middle and the digits\<close>

definition match_after :: "string \<Rightarrow> string \<Rightarrow> (string \<times> string) option" where
  "match_after p name =
     (let rest = drop (length p + 1) name; body = take (length rest - 4) rest;
          worker = take (length body - 9) body; date = drop (length body - 8) body
      in if prefix (p @ ''_'') name \<and> suffix ''.csv'' rest \<and> 10 \<le> length body \<and> body ! (length body - 9) = CHR ''_'' \<and>
            list_all is_digit date \<and> CHR 0x0A \<notin> set worker
         then Some (worker, date) else None)"

definition match_log_name :: "history_env \<Rightarrow> string \<Rightarrow> (bool \<times> string \<times> string) option" where
  "match_log_name E name = (case match_after (current_prefix E) name of
       Some (w, d) \<Rightarrow> Some (True, w, d)
     | None \<Rightarrow> map_option (\<lambda>(w, d). (False, w, d)) (match_after (legacy_prefix E) name))"

subsection \<open>Reading the logs\<close>

text \<open>A line the CSV reader yields; a short line has no \<open>details\<close> column.\<close>

datatype csv_line = Line log_row | ShortLine string

record log_file =
  file_name :: string
  file_lines :: "csv_line list"
  file_torn :: bool

definition read_events :: "string set" where
  "read_events = {''MASTER_LABEL_REPLACEMENT_APPLIED'', ''TRAY_COMPLETE''}"

text \<open>\<open>json.loads(None)\<close> of a short line raises \<open>TypeError\<close>, which ends the file.\<close>

fun readable :: "csv_line list \<Rightarrow> log_row list" where
  "readable [] = []"
| "readable (Line row # ls) = row # readable ls"
| "readable (ShortLine e # ls) = (if e \<in> read_events then []
     else \<lparr>row_timestamp = [], row_worker = [], row_event = e, row_details = None\<rparr> # readable ls)"

definition breaks_off :: "csv_line \<Rightarrow> bool" where
  "breaks_off l = (case l of Line row \<Rightarrow> False | ShortLine e \<Rightarrow> e \<in> read_events)"

definition file_rows :: "log_file \<Rightarrow> log_row list" where
  "file_rows f = readable (file_lines f)"

definition file_broken :: "log_file \<Rightarrow> bool" where
  "file_broken f \<longleftrightarrow> list_ex breaks_off (file_lines f) \<or> file_torn f"

datatype load_error =
    FolderError
  | RowError string nat string
  | FileError string
  | WorkTimeError

record history_state =
  st_labels :: "string list"
  st_sessions :: "(json \<times> dt) list"
  st_seen :: "string list"
  st_errors :: "load_error list"

definition remember_completed_label :: "qr_codecs \<Rightarrow> string \<Rightarrow> string list \<Rightarrow> string list" where
  "remember_completed_label C label labels =
     (if label = [] then labels else List.insert (canonical_master_label_key C label) (List.insert label labels))"

definition completion_replay_identity :: "history_env \<Rightarrow> json \<Rightarrow> history_error + string option" where
  "completion_replay_identity E d =
     rbind (text_field d ''master_label_code'' []) (\<lambda>label.
       if qr_fields (hist_codecs E) label = [] then Inr None
       else let key = canonical_master_label_key (hist_codecs E) label in
         if vget d ''is_partial_submission'' = VBool True then
           let intent = strip (str_or_empty (vget d ''transfer_seal_intent_id'')) in
           if intent \<noteq> [] then Inr (Some (key @ ''|partial:'' @ intent))
           else rbind (of_payload (product_barcodes_from_completion d)) (\<lambda>barcodes.
             rbind (hashed (stable_hash (hist_sha E)) [(''master_label'', VStr key), (''product_barcodes'', VList (map VStr barcodes))])
               (\<lambda>h. Inr (Some (key @ ''|partial:'' @ h))))
         else Inr (Some key))"

text \<open>
  A valid completion: its label is remembered, and a row of the current worker's own file
  becomes a session unless its identity was seen.
\<close>

definition add_completion :: "history_env \<Rightarrow> bool \<Rightarrow> string \<Rightarrow> dt \<Rightarrow> json \<Rightarrow> history_state \<Rightarrow> history_error + history_state" where
  "add_completion E own_row label t d s =
     (let s1 = (if vget d ''is_test_tray'' \<noteq> VBool True \<and> vget d ''is_partial_submission'' \<noteq> VBool True
                then s\<lparr>st_labels := remember_completed_label (hist_codecs E) label (st_labels s)\<rparr> else s)
      in if \<not> own_row then Inr s1
         else rbind (completion_replay_identity E d) (\<lambda>identity. case identity of
             None \<Rightarrow> Inr (s1\<lparr>st_sessions := st_sessions s1 @ [(d, t)]\<rparr>)
           | Some i \<Rightarrow> if i \<in> set (st_seen s1) then Inr s1
               else Inr (s1\<lparr>st_seen := i # st_seen s1, st_sessions := st_sessions s1 @ [(d, t)]\<rparr>)))"

definition process_completion :: "history_env \<Rightarrow> bool \<Rightarrow> dt \<Rightarrow> json \<Rightarrow> history_state \<Rightarrow> history_error + history_state" where
  "process_completion E own_row t d s =
     rbind (validate_history_complete_details (hist_codecs E) d) (\<lambda>_.
     rbind (text_field d ''master_label_code'' []) (\<lambda>label. add_completion E own_row label t d s))"

definition process_replacement :: "history_env \<Rightarrow> json \<Rightarrow> history_state \<Rightarrow> history_error + history_state" where
  "process_replacement E d s =
     rbind (validate_history_replacement_details (hist_codecs E) (Some (stable_hash (hist_sha E))) False d) (\<lambda>_.
     rbind (text_field d ''old_master_label'' []) (\<lambda>old_label.
     rbind (text_field d ''new_master_label'' []) (\<lambda>new_label.
       Inr (s\<lparr>st_labels := remember_completed_label (hist_codecs E) new_label
                (remember_completed_label (hist_codecs E) old_label (st_labels s))\<rparr>))))"

definition note_error :: "load_error \<Rightarrow> history_state \<Rightarrow> history_state" where
  "note_error e s = s\<lparr>st_errors := st_errors s @ [e]\<rparr>"

text \<open>One row; \<open>n\<close> is its line number. \<open>worker\<close> is the sanitized name of the current worker.\<close>

definition process_row ::
  "history_env \<Rightarrow> int \<Rightarrow> string \<Rightarrow> bool \<Rightarrow> string \<Rightarrow> nat \<Rightarrow> log_row \<Rightarrow> history_state \<Rightarrow> history_state" where
  "process_row E today worker own_file name n row s =
     (if row_event row \<notin> read_events then s
      else case Option.bind (row_details row) as_dict of
          None \<Rightarrow> note_error (RowError name n (row_event row)) s
        | Some d \<Rightarrow> (case fromisoformat (hist_iso E) (row_timestamp row) of
            None \<Rightarrow> note_error (RowError name n (row_event row)) s
          | Some t \<Rightarrow>
              if today < day_of t then s
              else (case (if row_event row = ''TRAY_COMPLETE''
                          then process_completion E (own_file \<and> sanitize_worker_name (row_worker row) = worker) t d s
                          else process_replacement E d s) of
                  Inl e \<Rightarrow> note_error (RowError name n (row_event row)) s
                | Inr s' \<Rightarrow> s')))"

fun process_rows ::
  "history_env \<Rightarrow> int \<Rightarrow> string \<Rightarrow> bool \<Rightarrow> string \<Rightarrow> nat \<Rightarrow> log_row list \<Rightarrow> history_state \<Rightarrow> history_state" where
  "process_rows E today worker own_file name n [] s = s"
| "process_rows E today worker own_file name n (row # rows) s =
     process_rows E today worker own_file name (Suc n) rows (process_row E today worker own_file name n row s)"

definition process_file :: "history_env \<Rightarrow> int \<Rightarrow> string \<Rightarrow> log_file \<times> bool \<Rightarrow> history_state \<Rightarrow> history_state" where
  "process_file E today worker = (\<lambda>(f, own_file) s.
     let s' = process_rows E today worker own_file (file_name f) 2 (file_rows f) s
     in if file_broken f then note_error (FileError (file_name f)) s' else s')"

definition select_file :: "history_env \<Rightarrow> int \<Rightarrow> int \<Rightarrow> string \<Rightarrow> log_file \<Rightarrow> (log_file \<times> bool) option" where
  "select_file E today lookback worker f =
     Option.bind (match_log_name E (file_name f)) (\<lambda>(current, w, date).
     Option.bind (day_of_text date) (\<lambda>day.
       if day \<le> today then Some (f, current \<and> today - lookback \<le> day \<and> w = worker) else None))"

definition read_logs :: "history_env \<Rightarrow> int \<Rightarrow> int \<Rightarrow> string \<Rightarrow> bool \<Rightarrow> log_file list \<Rightarrow> history_state" where
  "read_logs E today lookback worker folder_broken files =
     fold (process_file E today worker)
       (sort_key (file_name \<circ> fst) (List.map_filter (select_file E today lookback worker) files))
       \<lparr>st_labels = [], st_sessions = [], st_seen = [], st_errors = (if folder_broken then [FolderError] else [])\<rparr>"

subsection \<open>The summary\<close>

type_synonym summary = "(string, (string \<times> string) \<times> int \<times> int) dict"

record session_history =
  completed_master_labels :: "string list"
  work_summary :: summary
  total_tray_count :: int
  completed_tray_times :: "number list"
  load_errors :: "load_error list"

definition flag :: "json \<Rightarrow> string \<Rightarrow> bool" where
  "flag d k = truthy (vget_default d k (VBool False))"

definition history_spec :: "json \<Rightarrow> history_error + string" where
  "history_spec d = (if ''spec'' \<in> set (dkeys d) then text_field d ''spec'' [] else text_field d ''item_spec'' [])"

definition validated_history_summary_key :: "json \<Rightarrow> history_error + string" where
  "validated_history_summary_key d = rbind (text_field d ''item_code'' ''UNKNOWN'') (\<lambda>v. Inr (if v = [] then ''UNKNOWN'' else v))"

definition summary_start :: "history_env \<Rightarrow> json \<Rightarrow> history_error + (string \<times> string) \<times> int \<times> int" where
  "summary_start E d =
     rbind (text_field d ''item_name'' (unknown_name E)) (\<lambda>name.
     rbind (history_spec d) (\<lambda>spec.
       Inr ((if name = [] then unknown_name E else name, spec), 0, 0)))"

definition add_session :: "history_env \<Rightarrow> json \<Rightarrow> summary \<times> int \<Rightarrow> history_error + summary \<times> int" where
  "add_session E d = (\<lambda>(summary, total).
     rbind (validated_history_summary_key d) (\<lambda>item.
     rbind (case dget summary item of Some e \<Rightarrow> Inr e | None \<Rightarrow> summary_start E d) (\<lambda>(names, count, tests).
       Inr (dset item (if flag d ''is_test_tray'' then (names, count, tests + 1) else (names, count + 1, tests)) summary,
            if \<not> flag d ''is_test_tray'' \<and> \<not> flag d ''is_partial_submission'' then total + 1 else total))))"

fun add_sessions :: "history_env \<Rightarrow> json list \<Rightarrow> summary \<times> int \<Rightarrow> history_error + summary \<times> int" where
  "add_sessions E [] a = Inr a"
| "add_sessions E (d # ds) a = rbind (add_session E d a) (add_sessions E ds)"

definition session_capacity :: "json \<Rightarrow> int \<Rightarrow> int" where
  "session_capacity d fallback = (case vget_default d ''tray_capacity'' (VInt fallback) of
       VBool b \<Rightarrow> fallback
     | v \<Rightarrow> (case py_int v of Inr (Some n) \<Rightarrow> if 0 < n then n else fallback | _ \<Rightarrow> fallback))"

definition session_scan_count :: "json \<Rightarrow> int option" where
  "session_scan_count d = (case vget d ''scan_count'' of
       VBool b \<Rightarrow> None
     | v \<Rightarrow> (case py_int v of Inr (Some n) \<Rightarrow> if 0 \<le> n then Some n else None | _ \<Rightarrow> None))"

text \<open>\<open>float(value)\<close>: \<^term>\<open>Inr None\<close> is \<open>TypeError\<close> or \<open>ValueError\<close>.\<close>

definition py_float :: "history_env \<Rightarrow> pyval \<Rightarrow> history_error + number option" where
  "py_float E v = (case v of
       VInt n \<Rightarrow> if 2 ^ 1024 - 2 ^ 970 \<le> \<bar>n\<bar> then Inl HistoryOverflow else Inr (Some (Number (of_int n)))
     | VStr s \<Rightarrow> Inr (float_of_text E s)
     | _ \<Rightarrow> Inr (as_number v))"

definition at_least :: "rat \<Rightarrow> number \<Rightarrow> bool" where
  "at_least q x = (case x of Number r \<Rightarrow> q \<le> r | PosInf \<Rightarrow> True | _ \<Rightarrow> False)"

definition full_plain_session :: "json \<Rightarrow> int \<Rightarrow> bool" where
  "full_plain_session d pieces \<longleftrightarrow>
     session_scan_count d = Some (session_capacity d pieces) \<and> list_all (\<lambda>k. vget d k = VBool False) flag_keys"

fun valid_times :: "history_env \<Rightarrow> int \<Rightarrow> rat \<Rightarrow> json list \<Rightarrow> history_error + number list \<times> load_error list" where
  "valid_times E pieces per_piece [] = Inr ([], [])"
| "valid_times E pieces per_piece (d # ds) =
     (if \<not> full_plain_session d pieces then valid_times E pieces per_piece ds
      else rbind (py_float E (vget_default d ''work_time_sec'' (VInt 0))) (\<lambda>x.
        rbind (valid_times E pieces per_piece ds) (\<lambda>(ts, es). case x of
            None \<Rightarrow> Inr (ts, WorkTimeError # es)
          | Some t \<Rightarrow> Inr (if at_least (per_piece * of_int (session_capacity d pieces)) t then t # ts else ts, es))))"

definition summarize :: "history_env \<Rightarrow> int \<Rightarrow> int \<Rightarrow> rat \<Rightarrow> history_state \<Rightarrow> history_error + session_history" where
  "summarize E today pieces per_piece s =
     rbind (add_sessions E (map fst (filter (\<lambda>(d, t). day_of t = today) (st_sessions s))) ([], 0)) (\<lambda>(summary, total).
     rbind (valid_times E pieces per_piece (map fst (filter (\<lambda>(d, t). today - today mod 7 \<le> day_of t) (st_sessions s)))) (\<lambda>(ts, es).
       Inr \<lparr>completed_master_labels = st_labels s, work_summary = summary, total_tray_count = total,
            completed_tray_times = ts, load_errors = st_errors s @ es\<rparr>))"

definition load_session_history ::
  "history_env \<Rightarrow> bool \<Rightarrow> log_file list \<Rightarrow> string \<Rightarrow> int \<Rightarrow> int \<Rightarrow> int \<Rightarrow> rat \<Rightarrow> history_error + session_history" where
  "load_session_history E folder_broken files worker_name today pieces lookback per_piece =
     summarize E today pieces per_piece (read_logs E today lookback (sanitize_worker_name worker_name) folder_broken files)"

subsection \<open>Monotone parts\<close>

lemma set_remember:
  "set (remember_completed_label C label labels) =
     set labels \<union> (if label = [] then {} else {label, canonical_master_label_key C label})"
  by (auto simp: remember_completed_label_def)

lemma note_error_simps [simp]:
  "st_labels (note_error e s) = st_labels s" "st_sessions (note_error e s) = st_sessions s" "st_seen (note_error e s) = st_seen s"
  by (simp_all add: note_error_def)

lemma add_completion_labels:
  assumes "add_completion E own_row label t d s = Inr s'"
  shows "set (st_labels s') = set (st_labels s) \<union>
    (if vget d ''is_test_tray'' = VBool True \<or> vget d ''is_partial_submission'' = VBool True \<or> label = [] then {}
     else {label, canonical_master_label_key (hist_codecs E) label})"
proof -
  obtain s1 where "st_labels s' = st_labels s1" and s1: "s1 = (if vget d ''is_test_tray'' \<noteq> VBool True \<and> vget d ''is_partial_submission'' \<noteq> VBool True
        then s\<lparr>st_labels := remember_completed_label (hist_codecs E) label (st_labels s)\<rparr> else s)"
    using assms by (cases "completion_replay_identity E d")
      (auto simp: add_completion_def Let_def split: if_splits option.splits)
  then show ?thesis by (simp add: set_remember)
qed

lemma process_row_labels: "set (st_labels s) \<subseteq> set (st_labels (process_row E today worker own name n row s))"
  by (auto simp: process_row_def process_completion_def process_replacement_def result_simps set_remember
      dest: add_completion_labels split: option.splits sum.splits)

lemma process_rows_labels: "set (st_labels s) \<subseteq> set (st_labels (process_rows E today worker own name n rows s))"
  by (induction rows arbitrary: n s) (use process_row_labels in \<open>fastforce+\<close>)

lemma process_file_labels: "set (st_labels s) \<subseteq> set (st_labels (process_file E today worker f s))"
  using process_rows_labels by (auto simp: process_file_def Let_def split: prod.split)

lemma fold_files_labels: "set (st_labels s) \<subseteq> set (st_labels (fold (process_file E today worker) fs s))"
  by (induction fs arbitrary: s) (use process_file_labels in fastforce)+

text \<open>Only rows of the worker's own files become sessions.\<close>

lemma process_row_other:
  "st_sessions (process_row E today worker False name n row s) = st_sessions s \<and>
   st_seen (process_row E today worker False name n row s) = st_seen s"
  by (auto simp: process_row_def process_completion_def process_replacement_def result_simps add_completion_def Let_def
      split: option.splits sum.splits)

lemma process_rows_other:
  "st_sessions (process_rows E today worker False name n rows s) = st_sessions s \<and>
   st_seen (process_rows E today worker False name n rows s) = st_seen s"
  by (induction rows arbitrary: n s) (auto simp: process_row_other)

lemma fold_files_other:
  "\<forall>(f, own) \<in> set fs. \<not> own \<Longrightarrow>
     st_sessions (fold (process_file E today worker) fs s) = st_sessions s \<and> st_seen (fold (process_file E today worker) fs s) = st_seen s"
  by (induction fs arbitrary: s) (auto simp: process_file_def Let_def process_rows_other)

lemma process_rows_append:
  "process_rows E today worker own name n (xs @ ys) s =
     process_rows E today worker own name (n + length xs) ys (process_rows E today worker own name n xs s)"
  by (induction xs arbitrary: n s) auto

subsection \<open>Labels are never forgotten\<close>

lemma identity_total:
  assumes "validate_history_complete_details (hist_codecs E) d = Inr ()" "vget d ''is_partial_submission'' \<noteq> VBool True"
  shows "\<exists>i. completion_replay_identity E d = Inr i"
  using assms by (auto simp: completion_replay_identity_def validate_history_complete_details_def result_simps Let_def)

lemma add_completion_total:
  "completion_replay_identity E d = Inr i \<Longrightarrow> \<exists>s'. add_completion E own_row label t d s = Inr s'"
  by (cases i) (auto simp: add_completion_def Let_def)

lemma process_completion_valid:
  "validate_history_complete_details (hist_codecs E) d = Inr () \<Longrightarrow> text_field d ''master_label_code'' [] = Inr label \<Longrightarrow>
     process_completion E own_row t d s = add_completion E own_row label t d s"
  by (simp add: process_completion_def)

lemma completed_row_labels:
  assumes "row_event row = ''TRAY_COMPLETE''" "row_details row = Some (VDict d)" "fromisoformat (hist_iso E) (row_timestamp row) = Some t"
    "day_of t \<le> today" "validate_history_complete_details (hist_codecs E) d = Inr ()" "vget d ''master_label_code'' = VStr label"
    "vget d ''is_test_tray'' \<noteq> VBool True" "vget d ''is_partial_submission'' \<noteq> VBool True"
  shows "{label, canonical_master_label_key (hist_codecs E) label} \<subseteq> set (st_labels (process_row E today worker own name n row s))"
proof -
  have lab: "text_field d ''master_label_code'' [] = Inr label" "label \<noteq> []"
    using assms(5,6) by (auto simp: text_field_def vget_default_def vget_def validate_history_complete_details_def result_simps
        split: option.splits)
  obtain i where "completion_replay_identity E d = Inr i" using identity_total [OF assms(5,8)] by blast
  then obtain s' where "add_completion E (own \<and> sanitize_worker_name (row_worker row) = worker) label t d s = Inr s'"
    using add_completion_total by blast
  with add_completion_labels [OF this] process_completion_valid [OF assms(5) lab(1)] assms(1-4,7,8) lab(2)
  show ?thesis by (simp add: process_row_def read_events_def)
qed

lemma process_rows_row:
  assumes "row \<in> set rows" "\<And>n s. A \<subseteq> set (st_labels (process_row E today worker own name n row s))"
  shows "A \<subseteq> set (st_labels (process_rows E today worker own name n rows s))"
proof -
  obtain xs ys where "rows = xs @ row # ys" using split_list [OF assms(1)] by blast
  with assms(2) process_rows_labels show ?thesis by (simp add: process_rows_append) (meson order_trans)
qed

lemma fold_files_file:
  assumes "(f, own) \<in> set fs" "\<And>s. A \<subseteq> set (st_labels (process_file E today worker (f, own) s))"
  shows "A \<subseteq> set (st_labels (fold (process_file E today worker) fs s))"
proof -
  obtain xs ys where "fs = xs @ (f, own) # ys" using split_list [OF assms(1)] by blast
  with assms(2) fold_files_labels show ?thesis by simp (meson order_trans)
qed

lemma load_labels:
  assumes "load_session_history E broken files w today pieces lookback per_piece = Inr h"
  shows "completed_master_labels h = st_labels (read_logs E today lookback (sanitize_worker_name w) broken files)"
  using assms by (auto simp: load_session_history_def summarize_def result_simps)

lemma completed_label_known:
  assumes "load_session_history E broken files w today pieces lookback per_piece = Inr h"
    and "f \<in> set files" "select_file E today lookback (sanitize_worker_name w) f = Some (f, own)" "row \<in> set (file_rows f)"
    and "row_event row = ''TRAY_COMPLETE''" "row_details row = Some (VDict d)"
    and "fromisoformat (hist_iso E) (row_timestamp row) = Some t" "day_of t \<le> today"
    and "validate_history_complete_details (hist_codecs E) d = Inr ()" "vget d ''master_label_code'' = VStr label"
    and "vget d ''is_test_tray'' \<noteq> VBool True" "vget d ''is_partial_submission'' \<noteq> VBool True"
  shows "{label, canonical_master_label_key (hist_codecs E) label} \<subseteq> set (completed_master_labels h)"
proof -
  let ?fs = "sort_key (file_name \<circ> fst) (List.map_filter (select_file E today lookback (sanitize_worker_name w)) files)"
  have sel: "(f, own) \<in> set ?fs" using assms(2,3) by (force simp: List.map_filter_def)
  have "{label, canonical_master_label_key (hist_codecs E) label} \<subseteq>
      set (st_labels (process_file E today (sanitize_worker_name w) (f, own) s))" for s
    using process_rows_row [OF assms(4) completed_row_labels [OF assms(5-12)]]
    by (simp add: process_file_def Let_def)
  then show ?thesis
    unfolding load_labels [OF assms(1)] read_logs_def by (rule fold_files_file [OF sel])
qed

subsection \<open>A short line hides the rest of its file\<close>

lemma select_renamed:
  assumes "\<And>g. file_name (u g) = file_name g"
  shows "select_file E today lookback w (u g) = map_option (apfst u) (select_file E today lookback w g)"
  by (simp add: select_file_def assms split: bind_split prod.split)

lemma map_filter_select:
  assumes "\<And>g. file_name (u g) = file_name g"
  shows "List.map_filter (select_file E today lookback w) (map u files) =
     map (apfst u) (List.map_filter (select_file E today lookback w) files)"
  by (induction files) (auto simp: List.map_filter_simps select_renamed [OF assms] split: option.split)

lemma read_logs_map:
  assumes "\<And>g. file_name (u g) = file_name g" "\<And>g. file_rows (u g) = file_rows g" "\<And>g. file_broken (u g) = file_broken g"
  shows "read_logs E today lookback w broken (map u files) = read_logs E today lookback w broken files"
proof -
  let ?k = "file_name \<circ> fst :: log_file \<times> bool \<Rightarrow> string"
  have "process_file E today w (apfst u x) = process_file E today w x" for x
    by (cases x) (simp add: process_file_def assms cong: if_cong)
  then have "fold (process_file E today w) (map (apfst u) fs) s = fold (process_file E today w) fs s" for fs s
    by (induction fs arbitrary: s) auto
  moreover have "sort_key ?k (map (apfst u) fs) = map (apfst u) (sort_key ?k fs)" for fs
    by (rule sort_key_map) (simp add: assms(1))
  ultimately show ?thesis by (simp add: read_logs_def map_filter_select [OF assms(1)])
qed

text \<open>The lines up to the first that ends the file.\<close>

fun until_break :: "csv_line list \<Rightarrow> csv_line list" where
  "until_break [] = []"
| "until_break (l # ls) = (if breaks_off l then [l] else l # until_break ls)"

lemma until_break_readable: "readable (until_break ls) = readable ls" "list_ex breaks_off (until_break ls) = list_ex breaks_off ls"
  by (induction ls rule: readable.induct) (auto simp: breaks_off_def)


subsection \<open>What a completion writes, the history reads\<close>

definition history_keys :: "string list" where
  "history_keys = [''master_label_code'', ''item_code'', ''item_name'', ''spec'', ''tray_capacity'', ''scan_count'',
     ''barcode_count'', ''product_barcodes'', ''scanned_product_barcodes'', ''scanned_barcodes'', ''has_error_or_reset'',
     ''is_partial_submission'', ''is_restored_session'', ''is_test_tray'', ''work_time_sec'']"

definition same_for_history :: "json \<Rightarrow> json \<Rightarrow> bool" where
  "same_for_history d d' \<longleftrightarrow> (\<forall>k \<in> set history_keys. dget d k = dget d' k)"

lemma non_empty_aliases_cong:
  "\<forall>k \<in> set ks. dget d k = dget d' k \<Longrightarrow> non_empty_aliases d ks = non_empty_aliases d' ks"
  by (induction ks) (simp_all add: vget_def split: option.split)

lemma same_for_history_values:
  assumes "same_for_history d d'"
  shows "k \<in> set history_keys \<Longrightarrow> text_field d k x = text_field d' k x"
    "k \<in> set history_keys \<Longrightarrow> history_int_field d k m = history_int_field d' k m"
    "k \<in> set history_keys \<Longrightarrow> vget d k = vget d' k"
    "k \<in> set history_keys \<Longrightarrow> k \<in> set (dkeys d) \<longleftrightarrow> k \<in> set (dkeys d')"
    "k \<in> set history_keys \<Longrightarrow> vget_default d k v = vget_default d' k v"
    "product_barcodes_from_completion d = product_barcodes_from_completion d'"
proof -
  have get: "dget d k = dget d' k" if "k \<in> set history_keys" for k
    using assms that by (simp add: same_for_history_def)
  show keys: "k \<in> set (dkeys d) \<longleftrightarrow> k \<in> set (dkeys d')" if "k \<in> set history_keys"
    using get [OF that] dget_None_iff by metis
  show "text_field d k x = text_field d' k x" "vget d k = vget d' k" "vget_default d k v = vget_default d' k v"
    "history_int_field d k m = history_int_field d' k m" if "k \<in> set history_keys"
    using get [OF that] keys [OF that] by (simp_all add: text_field_def vget_default_def vget_def history_int_field_def)
  have "non_empty_aliases d barcode_aliases = non_empty_aliases d' barcode_aliases"
    by (rule non_empty_aliases_cong) (auto simp: barcode_aliases_def history_keys_def intro!: get)
  then show "product_barcodes_from_completion d = product_barcodes_from_completion d'"
    by (simp add: product_barcodes_from_completion_def)
qed

lemma validate_same:
  assumes "same_for_history d d'"
  shows "validate_history_complete_details C d = validate_history_complete_details C d'"
proof -
  note eqs = same_for_history_values [OF assms]
  have t: "text_field d k x = text_field d' k x" if "k \<in> {''master_label_code'', ''item_code'', ''item_name'', ''spec''}" for k x
    using that by (intro eqs) (auto simp: history_keys_def)
  have i: "history_int_field d k m = history_int_field d' k m" if "k \<in> {''tray_capacity'', ''scan_count'', ''barcode_count''}" for k m
    using that by (intro eqs) (auto simp: history_keys_def)
  have k: "(''tray_capacity'' \<in> set (dkeys d)) = (''tray_capacity'' \<in> set (dkeys d'))"
    by (intro eqs) (simp add: history_keys_def)
  have f: "map (\<lambda>k. ensure (k \<notin> set (dkeys d) \<or> is_VBool (vget d k)) (e k)) flag_keys =
      map (\<lambda>k. ensure (k \<notin> set (dkeys d') \<or> is_VBool (vget d' k)) (e k)) flag_keys" for e :: "string \<Rightarrow> history_error"
  proof (rule map_cong [OF refl])
    fix k
    assume "k \<in> set flag_keys"
    then have k: "k \<in> set history_keys" by (auto simp: flag_keys_def history_keys_def)
    show "ensure (k \<notin> set (dkeys d) \<or> is_VBool (vget d k)) (e k) = ensure (k \<notin> set (dkeys d') \<or> is_VBool (vget d' k)) (e k)"
      unfolding eqs(3) [OF k] eqs(4) [OF k] by (rule refl)
  qed
  show ?thesis
    unfolding validate_history_complete_details_def check_label_capacity_def f k eqs(6)
    by (simp only: rmap.simps t i insertI1 insertI2 insert_iff simp_thms)
qed

lemma add_trace_dget:
  assumes "add_inspection_trace tr d = Inr d'" "j \<notin> set trace_tag_keys" "j \<noteq> ''source_session_id''" "j \<noteq> ''inspection_trace''"
  shows "dget d' j = dget d j"
proof -
  have "j \<notin> set (dkeys (map (\<lambda>key. (key, VStr (field tr key))) (filter (\<lambda>key. key \<in> set (dkeys tr)) trace_tag_keys)))"
    using assms(2) by (auto simp: comp_def)
  with assms(1,3,4) show ?thesis
    by (auto simp: add_inspection_trace_def Let_def setdefault_def dget_dupdate_other split: if_splits option.splits)
qed

text \<open>The part of a completion detail the history reads.\<close>

definition history_view :: "tray_session \<Rightarrow> bool \<Rightarrow> json" where
  "history_view t restored =
     [(''master_label_code'', VStr (master_label_code t)), (''item_code'', VStr (item_code t)), (''item_name'', VStr (item_name t)),
      (''spec'', VStr (item_spec t)), (''scan_count'', VInt (int (length (scanned_barcodes t)))), (''tray_capacity'', VInt (tray_size t)),
      (''scanned_product_barcodes'', VList (map VStr (scanned_barcodes t))),
      (''product_barcodes'', VList (map VStr (scanned_barcodes t))), (''work_time_sec'', stopwatch_seconds t),
      (''has_error_or_reset'', VBool (has_error_or_reset t)), (''is_partial_submission'', VBool (is_partial_submission t)),
      (''is_restored_session'', VBool restored), (''is_test_tray'', VBool (is_test_tray t)),
      (''barcode_count'', VInt (int (length (scanned_barcodes t))))]"

lemma completion_history_view:
  assumes "build_tray_complete_detail C L t fs e = Inr d"
  shows "same_for_history (history_view t restored) (dset ''is_restored_session'' (VBool restored) d)"
    "distinct (scanned_barcodes t)" "0 < tray_size t" "int (length (scanned_barcodes t)) \<le> tray_size t"
    "strip (master_label_code t) \<noteq> []" "strip (item_code t) \<noteq> []" "inspection_master_item_code fs \<in> {[], item_code t}"
    "check_label_quantity fs (tray_size t) = Inr ()"
proof -
  let ?tr = "inspection_trace_from_master_label_fields C (master_label_code t) fs"
  let ?d0 = "tray_complete_fields L t fs e"
  have facts: "distinct (scanned_barcodes t)" "0 < tray_size t" "int (length (scanned_barcodes t)) \<le> tray_size t"
    "strip (master_label_code t) \<noteq> []" "strip (item_code t) \<noteq> []" "inspection_master_item_code fs \<in> {[], item_code t}"
    "check_label_quantity fs (tray_size t) = Inr ()" and d0: "add_inspection_trace ?tr ?d0 = Inr d"
    using assms unfolding build_tray_complete_detail_def
    by (simp_all add: result_simps validated_barcodes_ok require_positive_int_ok require_text_ok del: rbind_ensure)
  have v: "\<forall>k \<in> set history_keys. k \<noteq> ''is_restored_session'' \<longrightarrow> dget ?d0 k = dget (history_view t restored) k"
    unfolding history_keys_def history_view_def tray_complete_fields_def using facts(1) by (simp add: distinct_card)
  have "dget d k = dget ?d0 k" if "k \<in> set history_keys" for k
    using that by (intro add_trace_dget [OF d0]) (auto simp: history_keys_def trace_tag_keys_def)
  then show "same_for_history (history_view t restored) (dset ''is_restored_session'' (VBool restored) d)"
    using v by (simp add: same_for_history_def) (simp add: history_view_def)
  show "distinct (scanned_barcodes t)" "0 < tray_size t" "int (length (scanned_barcodes t)) \<le> tray_size t"
    "strip (master_label_code t) \<noteq> []" "strip (item_code t) \<noteq> []" "inspection_master_item_code fs \<in> {[], item_code t}"
    "check_label_quantity fs (tray_size t) = Inr ()" by (fact facts)+
qed

lemma history_view_barcodes:
  "distinct (scanned_barcodes t) \<Longrightarrow> product_barcodes_from_completion (history_view t restored) = Inr (scanned_barcodes t)"
  by (auto simp: product_barcodes_ok barcode_aliases_def history_view_def vget_def)

lemma history_view_valid:
  assumes "distinct (scanned_barcodes t)" "0 < tray_size t" "int (length (scanned_barcodes t)) \<le> tray_size t"
    "strip (master_label_code t) \<noteq> []" "strip (item_code t) \<noteq> []"
    "inspection_master_item_code (qr_fields C (master_label_code t)) \<in> {[], item_code t}"
    "check_label_quantity (qr_fields C (master_label_code t)) (tray_size t) = Inr ()"
  shows "validate_history_complete_details C (history_view t restored) = Inr ()"
proof -
  let ?d = "history_view t restored" and ?fs = "qr_fields C (master_label_code t)"
  have texts: "text_field ?d ''item_name'' [] = Inr (item_name t)" "text_field ?d ''spec'' [] = Inr (item_spec t)"
    "text_field ?d ''master_label_code'' [] = Inr (master_label_code t)" "text_field ?d ''item_code'' [] = Inr (item_code t)"
    by (simp_all add: text_field_def vget_default_def history_view_def)
  have ints: "history_int_field ?d ''tray_capacity'' 1 = Inr (Some (tray_size t))"
    "history_int_field ?d ''scan_count'' 0 = Inr (Some (int (length (scanned_barcodes t))))"
    "history_int_field ?d ''barcode_count'' 0 = Inr (Some (int (length (scanned_barcodes t))))"
    using assms(2) by (simp_all add: history_int_field_def vget_def history_view_def)
  have flags: "list_all (\<lambda>k. is_VBool (vget ?d k)) flag_keys"
    by (simp add: flag_keys_def vget_def history_view_def)
  have capacity: "check_label_capacity ?fs ?d (Some (tray_size t)) = Inr ()"
    using assms(7) by (auto simp: check_label_capacity_def check_label_quantity_def ensure_eq_Inr split: option.splits if_splits)
  have counts: "check_counts c (Some (int n)) (Some (int n)) bs = Inr ()" if "bs = [] \<or> n = length bs" for c n bs
    using that by (auto simp: check_counts_def differ_def)
  show ?thesis
    using assms flags by (simp add: validate_history_complete_details_def texts ints capacity history_view_barcodes counts Let_def
        flag_keys_def)
qed

text \<open>
  C10. What the program writes it can read back: the detail built for a completed tray, and any detail
  that agrees with it on the fields the history reads, passes the history's validation.
\<close>

theorem completion_passes_history:
  assumes "build_tray_complete_detail C L t (qr_fields C (master_label_code t)) e = Inr d"
    and "same_for_history (dset ''is_restored_session'' (VBool restored) d) d'"
  shows "validate_history_complete_details C d' = Inr ()"
proof -
  note view = completion_history_view [OF assms(1)]
  have "same_for_history (history_view t restored) d'"
    using view(1) [of restored] assms(2) by (simp add: same_for_history_def)
  from validate_same [OF this] history_view_valid [OF view(2-8)] show ?thesis by metis
qed

definition demo_history :: history_env where
  "demo_history = \<lparr>hist_codecs = no_codecs, hist_iso = demo_iso, hist_sha = (\<lambda>s. s), current_prefix = ''log'',
     legacy_prefix = ''old'', unknown_name = ''unknown'', float_of_text = (\<lambda>_. None)\<rparr>"

theorem completion_passes_history_witness:
  "\<exists>d. build_tray_complete_detail no_codecs demo_iso demo_tray [] \<lparr>wall = 20, utc_offset = None\<rparr> = Inr d \<and>
     validate_history_complete_details no_codecs (dset ''is_restored_session'' (VBool False) d) = Inr ()"
proof -
  let ?b = "build_tray_complete_detail no_codecs demo_iso demo_tray [] \<lparr>wall = 20, utc_offset = None\<rparr>"
  have "\<not> isl ?b" by code_simp
  then obtain d where d: "?b = Inr d" using Inr_if_not_isl by blast
  have "qr_fields no_codecs (master_label_code demo_tray) = []" by code_simp
  with completion_passes_history [of no_codecs demo_iso demo_tray "\<lparr>wall = 20, utc_offset = None\<rparr>" d False
      "dset ''is_restored_session'' (VBool False) d"] d
  show ?thesis by (simp add: same_for_history_def)
qed

end
