(* ===== verification/Completion_History.thy ===== *)
theory Completion_History
  imports Session_History Tray_Completion
begin

text \<open>
  The counters the program keeps while it runs against those it reads back when it starts: counting a
  completion in memory (\<open>tray_completion.py\<close>) and reloading the logs with the new row
  (\<open>session_history.py\<close>) give the same summary, the same number of trays and the same times.
\<close>

subsection \<open>Reading a log with one more row\<close>

definition log_more :: "log_file \<Rightarrow> log_row \<Rightarrow> log_file \<Rightarrow> log_file" where
  "log_more f row g = (if g = f then g\<lparr>file_lines := file_lines g @ [Line row]\<rparr> else g)"

lemma log_more_simps [simp]:
  "file_name (log_more f row g) = file_name g" "log_more f row f = f\<lparr>file_lines := file_lines f @ [Line row]\<rparr>"
  "g \<noteq> f \<Longrightarrow> log_more f row g = g"
  by (simp_all add: log_more_def)

lemma readable_append: "\<not> list_ex breaks_off ls \<Longrightarrow> readable (ls @ ls') = readable ls @ readable ls'"
  by (induction ls rule: readable.induct) (auto simp: breaks_off_def)

lemma file_rows_more: "\<not> file_broken f \<Longrightarrow> file_rows (f\<lparr>file_lines := file_lines f @ [Line row]\<rparr>) = file_rows f @ [row]"
  by (simp add: file_rows_def file_broken_def readable_append)

lemma select_file_fst: "select_file E today lookback w g = Some x \<Longrightarrow> fst x = g"
  by (auto simp: select_file_def split: bind_splits prod.splits if_splits)

lemma map_filter_mem: "x \<in> set (List.map_filter p xs) \<longleftrightarrow> (\<exists>y \<in> set xs. p y = Some x)"
  by (induction xs) (auto simp: List.map_filter_simps split: option.split)

text \<open>The selected files around the newest own one: the own files come before it.\<close>

lemma newest_own_split:
  fixes files :: "log_file list"
  assumes "f \<in> set files" "distinct (map file_name files)" "select_file E today lookback w f = Some (f, True)"
    "\<forall>g \<in> set files. g \<noteq> f \<longrightarrow> select_file E today lookback w g = Some (g, True) \<longrightarrow> file_name g < file_name f"
  obtains pre post where
    "sort_key (file_name \<circ> fst) (List.map_filter (select_file E today lookback w) files) = pre @ (f, True) # post"
    "f \<notin> fst ` set pre" "f \<notin> fst ` set post" "\<forall>(g, own) \<in> set post. \<not> own"
proof -
  let ?sel = "List.map_filter (select_file E today lookback w) files" and ?k = "file_name \<circ> fst"
  have sel: "(g, own) \<in> set ?sel \<longleftrightarrow> g \<in> set files \<and> select_file E today lookback w g = Some (g, own)" for g own
    using select_file_fst by (fastforce simp: map_filter_mem)
  have names: "distinct (map ?k ?sel)"
    using assms(2)
  proof (induction files)
    case (Cons g gs)
    have "?k x \<in> file_name ` set gs" if "x \<in> set (List.map_filter (select_file E today lookback w) gs)" for x
    proof -
      from that obtain y where "y \<in> set gs" "select_file E today lookback w y = Some x" by (auto simp: map_filter_mem)
      with select_file_fst show ?thesis by fastforce
    qed
    moreover have "fst x = g" if "select_file E today lookback w g = Some x" for x
      using that by (rule select_file_fst)
    ultimately show ?case using Cons
      by (cases "select_file E today lookback w g") (auto simp: List.map_filter_simps)
  qed (simp add: List.map_filter_simps)
  obtain pre post where sp: "sort_key ?k ?sel = pre @ (f, True) # post"
    using sel assms(1,3) by (metis set_sort split_list)
  have "distinct (map ?k (sort_key ?k ?sel))" using names by (simp add: distinct_map)
  then have d: "distinct (map ?k (pre @ (f, True) # post))" unfolding sp .
  have "sorted (map ?k (pre @ (f, True) # post))" unfolding sp [symmetric] by (rule sorted_sort_key)
  then have le: "file_name f \<le> ?k x" if "x \<in> set post" for x using that by (auto simp: sorted_append)
  have mem: "x \<in> set ?sel" if "x \<in> set (pre @ (f, True) # post)" for x using that unfolding sp [symmetric] by simp
  have fresh: "f \<notin> fst ` set pre" "f \<notin> fst ` set post" using d by (auto simp: image_iff)
  have "\<not> own" if "(g, own) \<in> set post" for g own
  proof
    assume own
    have "(g, own) \<in> set ?sel" using mem that by simp
    with \<open>own\<close> have "g \<in> set files" "select_file E today lookback w g = Some (g, True)" unfolding sel by simp_all
    moreover have "g \<noteq> f" using that fresh(2) by force
    ultimately have "file_name g < file_name f" using assms(4) by blast
    with le [OF that] show False by simp
  qed
  with sp fresh that show thesis by blast
qed

lemma process_row_session:
  assumes "row_event row = ''TRAY_COMPLETE''" "row_details row = Some (VDict d)" "fromisoformat (hist_iso E) (row_timestamp row) = Some t"
    "day_of t \<le> today" "sanitize_worker_name (row_worker row) = w" "validate_history_complete_details (hist_codecs E) d = Inr ()"
    "completion_replay_identity E d = Inr i" "\<forall>j. i = Some j \<longrightarrow> j \<notin> set (st_seen s)"
  shows "st_sessions (process_row E today w True name n row s) = st_sessions s @ [(d, t)]"
proof -
  obtain label where "text_field d ''master_label_code'' [] = Inr label"
    using assms(6) by (auto simp: validate_history_complete_details_def result_simps)
  with assms show ?thesis
    by (simp add: process_row_def read_events_def process_completion_def add_completion_def Let_def split: option.split)
qed

lemma process_file_sessions:
  "st_sessions (process_file E today w (f, own) s) = st_sessions (process_rows E today w own (file_name f) 2 (file_rows f) s)"
  "st_seen (process_file E today w (f, own) s) = st_seen (process_rows E today w own (file_name f) 2 (file_rows f) s)"
  by (simp_all add: process_file_def Let_def)

lemma fold_log_more: "f \<notin> fst ` set fs \<Longrightarrow> map (apfst (log_more f row)) fs = fs"
  by (induction fs) auto

lemma read_logs_more:
  assumes "f \<in> set files" "distinct (map file_name files)" "select_file E today lookback w f = Some (f, True)"
    "\<forall>g \<in> set files. g \<noteq> f \<longrightarrow> select_file E today lookback w g = Some (g, True) \<longrightarrow> file_name g < file_name f"
    and whole: "\<not> file_broken f"
    and row: "row_event row = ''TRAY_COMPLETE''" "row_details row = Some (VDict d)"
      "fromisoformat (hist_iso E) (row_timestamp row) = Some t" "day_of t \<le> today" "sanitize_worker_name (row_worker row) = w"
      "validate_history_complete_details (hist_codecs E) d = Inr ()" "completion_replay_identity E d = Inr i"
      "\<forall>j. i = Some j \<longrightarrow> j \<notin> set (st_seen (read_logs E today lookback w broken files))"
  shows "st_sessions (read_logs E today lookback w broken (map (log_more f row) files)) =
    st_sessions (read_logs E today lookback w broken files) @ [(d, t)]"
  using assms(1-4)
proof (rule newest_own_split)
  fix pre post
  let ?s0 = "\<lparr>st_labels = [], st_sessions = [], st_seen = [], st_errors = (if broken then [FolderError] else [])\<rparr>"
    and ?k = "file_name \<circ> fst :: log_file \<times> bool \<Rightarrow> string" and ?u = "apfst (log_more f row) :: log_file \<times> bool \<Rightarrow> log_file \<times> bool"
    and ?sel = "List.map_filter (select_file E today lookback w) files"
  define s1 where "s1 = fold (process_file E today w) pre ?s0"
  define s2 where "s2 = process_rows E today w True (file_name f) 2 (file_rows f) s1"
  assume sp: "sort_key ?k ?sel = pre @ (f, True) # post" and fresh: "f \<notin> fst ` set pre" "f \<notin> fst ` set post"
    and post: "\<forall>(g, own) \<in> set post. \<not> own"
  have "sort_key ?k (map ?u ?sel) = map ?u (sort_key ?k ?sel)"
    by (rule sort_key_map) (simp add: comp_def)
  then have sp': "sort_key ?k (map ?u ?sel) = pre @ (log_more f row f, True) # post"
    using fresh by (simp add: sp fold_log_more)
  note other = fold_files_other [OF post]
  have old: "st_sessions (read_logs E today lookback w broken files) = st_sessions s2"
    "st_seen (read_logs E today lookback w broken files) = st_seen s2"
    by (simp_all add: read_logs_def sp other process_file_sessions s1_def s2_def)
  have "st_sessions (read_logs E today lookback w broken (map (log_more f row) files)) =
      st_sessions (process_row E today w True (file_name f) (2 + length (file_rows f)) row s2)"
    by (simp add: read_logs_def map_filter_select sp' other process_file_sessions process_rows_append file_rows_more [OF whole]
        s1_def s2_def)
  also have "\<dots> = st_sessions s2 @ [(d, t)]" using row by (intro process_row_session) (auto simp: old)
  finally show ?thesis by (simp add: old)
qed

subsection \<open>The summary with one more session\<close>

lemma add_sessions_append: "add_sessions E (ds @ [d]) a = rbind (add_sessions E ds a) (add_session E d)"
proof (induction ds arbitrary: a)
  case Nil
  show ?case by (cases "add_session E d a") auto
next
  case (Cons x xs)
  show ?case by (cases "add_session E x a") (auto simp: Cons.IH)
qed

lemma valid_times_append:
  "valid_times E n q [d] = v \<Longrightarrow> valid_times E n q (ds @ [d]) =
     rbind (valid_times E n q ds) (\<lambda>(ts, es). rbind v (\<lambda>(ts', es'). Inr (ts @ ts', es @ es')))"
proof (induction ds)
  case Nil
  then show ?case by (cases v) auto
next
  case (Cons x xs)
  then show ?case
    by (cases "py_float E (vget_default x ''work_time_sec'' (VInt 0))"; cases "valid_times E n q xs"; cases v)
      (auto split: option.split prod.split)
qed

lemma view_values:
  assumes "same_for_history (history_view t restored) d"
  shows "vget d ''tray_capacity'' = VInt (tray_size t)" "vget d ''scan_count'' = VInt (int (length (scanned_barcodes t)))"
    "vget d ''work_time_sec'' = stopwatch_seconds t" "flag d ''is_test_tray'' = is_test_tray t"
    "flag d ''is_partial_submission'' = is_partial_submission t" "text_field d ''item_code'' x = Inr (item_code t)"
    "text_field d ''item_name'' x = Inr (item_name t)" "history_spec d = Inr (item_spec t)"
    "vget_default d ''work_time_sec'' v = stopwatch_seconds t" "vget_default d ''tray_capacity'' v = VInt (tray_size t)"
proof -
  have get: "dget d k = dget (history_view t restored) k" if "k \<in> set history_keys" for k
    using assms that by (simp add: same_for_history_def)
  have e: "dget d ''tray_capacity'' = Some (VInt (tray_size t))" "dget d ''scan_count'' = Some (VInt (int (length (scanned_barcodes t))))"
    "dget d ''work_time_sec'' = Some (stopwatch_seconds t)" "dget d ''is_test_tray'' = Some (VBool (is_test_tray t))"
    "dget d ''is_partial_submission'' = Some (VBool (is_partial_submission t))" "dget d ''item_code'' = Some (VStr (item_code t))"
    "dget d ''item_name'' = Some (VStr (item_name t))" "dget d ''spec'' = Some (VStr (item_spec t))"
    by (subst get, simp add: history_keys_def, simp add: history_view_def)+
  have key: "''spec'' \<in> set (dkeys d)" using e(8) dget_None_iff by (metis option.distinct(1))
  show "vget d ''tray_capacity'' = VInt (tray_size t)" "vget d ''scan_count'' = VInt (int (length (scanned_barcodes t)))"
    "vget d ''work_time_sec'' = stopwatch_seconds t" "flag d ''is_test_tray'' = is_test_tray t"
    "flag d ''is_partial_submission'' = is_partial_submission t" "text_field d ''item_code'' x = Inr (item_code t)"
    "text_field d ''item_name'' x = Inr (item_name t)" "history_spec d = Inr (item_spec t)"
    "vget_default d ''work_time_sec'' v = stopwatch_seconds t" "vget_default d ''tray_capacity'' v = VInt (tray_size t)"
    using key by (simp_all add: vget_def flag_def vget_default_def text_field_def history_spec_def e)
qed

definition bump :: "tray_session \<Rightarrow> summary \<Rightarrow> (string \<times> string) \<times> int \<times> int" where
  "bump t summary = (case dget summary (item_code t) of
       None \<Rightarrow> ((item_name t, item_spec t), if is_test_tray t then (0, 1) else (1, 0))
     | Some (names, n, tests) \<Rightarrow> (names, if is_test_tray t then (n, tests + 1) else (n + 1, tests)))"

lemma add_session_view:
  assumes "same_for_history (history_view t restored) d" "item_name t \<noteq> []" "item_code t \<noteq> []"
  shows "add_session E d (summary, count) = Inr (dset (item_code t) (bump t summary) summary,
    if \<not> is_test_tray t \<and> \<not> is_partial_submission t then count + 1 else count)"
  using assms(2,3)
  by (auto simp: add_session_def validated_history_summary_key_def summary_start_def bump_def view_values [OF assms(1)]
      split: option.split)

lemma full_plain_eligible:
  assumes "same_for_history (history_view t restored) d" "0 < tray_size t" "stopwatch_seconds t = VFloat x"
  shows "completion_time_eligible_for_best_time d \<longleftrightarrow>
    full_plain_session d pieces \<and> (\<exists>y. as_number (VFloat x) = Some y \<and> at_least (5 * of_int (tray_size t)) y)"
proof -
  have "q > 0 \<and> 5 \<le> q / of_int (tray_size t) \<longleftrightarrow> 5 * of_int (tray_size t) \<le> q" for q :: rat
    using assms(2) by (auto simp: le_divide_eq)
  then show ?thesis
    using assms(2,3) by (cases x) (auto simp: completion_time_eligible_for_best_time_def full_plain_session_def
        session_capacity_def session_scan_count_def view_values [OF assms(1)] flag_keys_def at_least_def)
qed

lemma valid_times_view:
  assumes "same_for_history (history_view t restored) d" "0 < tray_size t" "stopwatch_seconds t = VFloat x"
  shows "valid_times E pieces 5 [d] =
    Inr (if completion_time_eligible_for_best_time d then [the (as_number (VFloat x))] else [], [])"
proof -
  have "session_capacity d pieces = tray_size t"
    using assms(2) by (simp add: session_capacity_def view_values [OF assms(1)])
  then show ?thesis
    using assms(3) by (cases x) (auto simp: full_plain_eligible [OF assms, of pieces] py_float_def view_values [OF assms(1)])
qed

subsection \<open>Memory and log agree\<close>

definition counters_match :: "owner \<Rightarrow> session_history \<Rightarrow> bool" where
  "counters_match o' h \<longleftrightarrow> own_summary o' = work_summary h \<and> own_count o' = total_tray_count h \<and>
     map as_number (own_times o') = map Some (completed_tray_times h)"

lemma remember_counters [simp]:
  "own_summary (remember_completed_master_label E label o') = own_summary o'"
  "own_count (remember_completed_master_label E label o') = own_count o'"
  "own_times (remember_completed_master_label E label o') = own_times o'"
  "own_tray (remember_completed_master_label E label o') = own_tray o'"
  by (simp_all add: remember_completed_master_label_def)

lemma eligible_not_test:
  "same_for_history (history_view t restored) d \<Longrightarrow> completion_time_eligible_for_best_time d \<Longrightarrow> \<not> is_test_tray t"
  using view_values(4) [of t restored d]
  by (auto simp: completion_time_eligible_for_best_time_def flag_def vget_default_def vget_def split: option.splits)

lemma count_completion_counters:
  assumes "same_for_history (history_view (own_tray o') restored) d" "own_tray o' = t"
  shows "own_summary (fst (count_completion E False d o')) =
      dset (item_code t) (bump t (own_summary o')) (own_summary o')"
    "own_count (fst (count_completion E False d o')) =
      (if \<not> is_test_tray t \<and> \<not> is_partial_submission t then own_count o' + 1 else own_count o')"
    "own_times (fst (count_completion E False d o')) =
      own_times o' @ (if completion_time_eligible_for_best_time d then [stopwatch_seconds t] else [])"
  using assms eligible_not_test [OF assms(1)]
  by (auto simp: count_completion_def summary_entry_def bump_def Let_def view_values(3) [OF assms(1)] split: prod.split option.split)

lemma summarize_one_more:
  assumes "summarize E today pieces 5 s = Inr h" "st_sessions s' = st_sessions s @ [(d, t)]" "day_of t = today"
    "add_session E d (work_summary h, total_tray_count h) = Inr (summary', count')"
    "valid_times E pieces 5 [d] = Inr (ts', es')"
  shows "\<exists>h'. summarize E today pieces 5 s' = Inr h' \<and> work_summary h' = summary' \<and> total_tray_count h' = count' \<and>
    completed_tray_times h' = completed_tray_times h @ ts'"
proof -
  have "day_of t - day_of t mod 7 \<le> day_of t" by simp
  with assms show ?thesis
    by (auto simp: summarize_def result_simps add_sessions_append valid_times_append [OF assms(5)] Let_def split: prod.splits)
qed


definition history_tray :: tray_session where
  "history_tray = demo_tray\<lparr>tray_size := 1, stopwatch_seconds := VFloat (FFin 6 ''6.0'')\<rparr>"

definition history_owner :: owner where
  "history_owner = \<lparr>own_tray = history_tray, own_worker = ''kim'', own_contract = None, own_review = None,
     own_view = \<lparr>active_notice = None, last_normal_scan = None, completion = None\<rparr>, own_activation = None, own_parked = None, own_idle = False,
     own_last_activity = None, own_folder = ''dir'', own_log = (''dir'', ''log_kim_00010101.csv''), own_summary = [],
     own_count = 0, own_times = [], own_labels = []\<rparr>"

definition empty_log :: log_file where
  "empty_log = \<lparr>file_name = ''log_kim_00010101.csv'', file_lines = [], file_torn = False\<rparr>"


end
