(* ===== verification/Preflight_Hold.thy ===== *)
theory Preflight_Hold
  imports Py_Value Machines
begin

text \<open>
  \<open>preflight_scan_hold.py\<close>, the store: scans that arrive while a PHS2 label is being looked up
  are kept in a file, in order, and handed to the tray one by one afterwards.

  The file is \<open>hold_file\<close>: the JSON value it holds (\<open>atomic_write_json\<close> followed by
  \<open>json.loads\<close> gives the written value back; a file whose text is no JSON is
  \<open>Unreadable\<close>). The quarantine directory maps file names to such contents. \<open>sha\<close> is the
  hexadecimal SHA-256 of the UTF-8 bytes of a text, \<open>now\<close> the text of \<open>_utc_now()\<close>; both are
  arguments. The flag \<open>io\<close> of a writing operation says whether its write, rename or removal
  succeeds: a failed one raises \<open>OSError\<close> and leaves the files as they were.
  An integer that a file gives as \<open>true\<close> or \<open>false\<close> is read as 1 or 0.
\<close>

datatype hold_error =
    HoldError string
  | HoldFull
  | HoldConflict string
  | HoldValueError
  | HoldOSError

definition HOLD_SCHEMA_VERSION :: string where
  "HOLD_SCHEMA_VERSION = ''container-audit-preflight-scan-hold-v1''"
definition HOLD_LOOKUP :: string where "HOLD_LOOKUP = ''LOOKUP''"
definition HOLD_LOOKUP_FAILED :: string where "HOLD_LOOKUP_FAILED = ''LOOKUP_FAILED''"
definition HOLD_DRAINING :: string where "HOLD_DRAINING = ''DRAINING''"

lemmas hold_state_defs = HOLD_LOOKUP_def HOLD_LOOKUP_FAILED_def HOLD_DRAINING_def

definition hold_states :: "string list" where
  "hold_states = [HOLD_LOOKUP, HOLD_LOOKUP_FAILED, HOLD_DRAINING]"

subsection \<open>Held scans and snapshots\<close>

record held_scan =
  scan_id :: string
  sequence :: int
  raw_barcode :: string
  admitted_at :: string

record hold_snapshot =
  preflight_id :: string
  scan_epoch :: int
  hold_worker :: string
  master_raw :: string
  created_at :: string
  updated_at :: string
  hold_state :: string
  items :: "held_scan list"
  error_code :: string

text \<open>\<open>str(payload.get(key) or "")\<close>\<close>

definition text_of :: "(string, pyval) dict \<Rightarrow> string \<Rightarrow> string" where
  "text_of payload key = str_or_empty (vget payload key)"

definition held_scan_from_payload :: "(string, pyval) dict \<Rightarrow> hold_error + held_scan" where
  "held_scan_from_payload payload =
     (let sid = strip (text_of payload ''scan_id'');
          raw = text_of payload ''raw_barcode'';
          adm = strip (text_of payload ''admitted_at'')
      in case as_int (vget payload ''sequence'') of
           None \<Rightarrow> Inl (HoldError ''preflight hold item is invalid'')
         | Some n \<Rightarrow>
             if sid = [] \<or> raw = [] \<or> adm = [] \<or> n < 1
             then Inl (HoldError ''preflight hold item is invalid'')
             else Inr \<lparr>scan_id = sid, sequence = n, raw_barcode = raw, admitted_at = adm\<rparr>)"

definition held_scan_to_payload :: "held_scan \<Rightarrow> (string, pyval) dict" where
  "held_scan_to_payload item =
     [(''scan_id'', VStr (scan_id item)), (''sequence'', VInt (sequence item)),
      (''raw_barcode'', VStr (raw_barcode item)), (''admitted_at'', VStr (admitted_at item))]"

text \<open>
  \<open>tuple(HeldScan.from_payload(item) for item in raw_items if isinstance(item, Mapping))\<close>
  followed by the comparison of the lengths
\<close>

fun held_scans_from :: "pyval list \<Rightarrow> hold_error + held_scan list" where
  "held_scans_from [] = Inr []"
| "held_scans_from (v # vs) =
     (case as_dict v of
        None \<Rightarrow> held_scans_from vs
      | Some d \<Rightarrow> rbind (held_scan_from_payload d) (\<lambda>x. rbind (held_scans_from vs) (\<lambda>xs. Inr (x # xs))))"

definition snapshot_from_payload :: "(string, pyval) dict \<Rightarrow> hold_error + hold_snapshot" where
  "snapshot_from_payload payload =
     rbind (ensure (text_of payload ''schema_version'' = HOLD_SCHEMA_VERSION)
              (HoldError ''preflight hold schema is invalid'')) (\<lambda>_.
     let pid = strip (text_of payload ''preflight_id'');
         worker = strip (text_of payload ''worker'');
         master = text_of payload ''master_raw'';
         created = strip (text_of payload ''created_at'');
         updated = strip (text_of payload ''updated_at'');
         st = strip (text_of payload ''state'')
     in case (as_int (vget payload ''scan_epoch''), as_list (vget payload ''items'')) of
          (Some epoch, Some raw_items) \<Rightarrow>
            if pid = [] \<or> worker = [] \<or> master = [] \<or> created = [] \<or> updated = []
               \<or> st \<notin> set hold_states \<or> epoch < 0
            then Inl (HoldError ''preflight hold snapshot is invalid'')
            else rbind (held_scans_from raw_items) (\<lambda>xs.
              rbind (ensure (length xs = length raw_items) (HoldError ''preflight hold items are invalid'')) (\<lambda>_.
              rbind (ensure (sorted (map sequence xs) \<and> distinct (map sequence xs))
                       (HoldError ''preflight hold FIFO sequence is invalid'')) (\<lambda>_.
              Inr \<lparr>preflight_id = pid, scan_epoch = epoch, hold_worker = worker, master_raw = master,
                   created_at = created, updated_at = updated, hold_state = st, items = xs,
                   error_code = strip (text_of payload ''error_code'')\<rparr>)))
        | _ \<Rightarrow> Inl (HoldError ''preflight hold snapshot is invalid''))"

definition snapshot_to_payload :: "hold_snapshot \<Rightarrow> (string, pyval) dict" where
  "snapshot_to_payload s =
     [(''schema_version'', VStr HOLD_SCHEMA_VERSION), (''preflight_id'', VStr (preflight_id s)),
      (''scan_epoch'', VInt (scan_epoch s)), (''worker'', VStr (hold_worker s)),
      (''master_raw'', VStr (master_raw s)), (''created_at'', VStr (created_at s)),
      (''updated_at'', VStr (updated_at s)), (''state'', VStr (hold_state s)),
      (''items'', VList (map (\<lambda>x. VDict (held_scan_to_payload x)) (items s))),
      (''error_code'', VStr (error_code s))]"

subsection \<open>The store\<close>

datatype file_content = Content pyval | Unreadable

record hold_fs =
  hold_file :: "file_content option"
  quarantine_dir :: "(string, file_content) dict"

fun load_content :: "file_content option \<Rightarrow> hold_error + hold_snapshot" where
  "load_content None = Inl (HoldError ''preflight hold cannot be read'')"
| "load_content (Some Unreadable) = Inl (HoldError ''preflight hold cannot be read'')"
| "load_content (Some (Content v)) =
     (case as_dict v of
        None \<Rightarrow> Inl (HoldError ''preflight hold must be an object'')
      | Some payload \<Rightarrow> snapshot_from_payload payload)"

definition load_hold :: "hold_fs \<Rightarrow> hold_error + hold_snapshot" where
  "load_hold fs = load_content (hold_file fs)"

definition hash_payload :: "(string \<Rightarrow> string) \<Rightarrow> (string, pyval) dict \<Rightarrow> string" where
  "hash_payload sha payload = sha (dumps (VDict payload))"

definition snapshot_hash :: "(string \<Rightarrow> string) \<Rightarrow> hold_snapshot \<Rightarrow> string" where
  "snapshot_hash sha s = hash_payload sha (snapshot_to_payload s)"

text \<open>Every operation returns the result or the exception together with the file system.\<close>

type_synonym 'a hold_op = "hold_fs \<Rightarrow> (hold_error + 'a) \<times> hold_fs"

definition write_hold :: "(string \<Rightarrow> string) \<Rightarrow> bool \<Rightarrow> hold_snapshot \<Rightarrow> hold_snapshot hold_op" where
  "write_hold sha io s fs =
     (if \<not> io then (Inl HoldOSError, fs)
      else let fs' = fs\<lparr>hold_file := Some (Content (VDict (snapshot_to_payload s)))\<rparr>
           in (rbind (load_hold fs') (\<lambda>loaded.
                 rbind (ensure (snapshot_hash sha loaded = snapshot_hash sha s)
                          (HoldError ''preflight hold readback mismatch'')) (\<lambda>_. Inr loaded)), fs'))"

definition start_hold ::
  "(string \<Rightarrow> string) \<Rightarrow> bool \<Rightarrow> string \<Rightarrow> string \<Rightarrow> string \<Rightarrow> int \<Rightarrow> hold_snapshot hold_op" where
  "start_hold sha io now worker master epoch fs =
     (let normalized_worker = strip worker in
      if normalized_worker = [] \<or> master = [] then (Inl HoldValueError, fs)
      else if hold_file fs \<noteq> None then
        (case load_hold fs of
           Inl e \<Rightarrow> (Inl e, fs)
         | Inr existing \<Rightarrow>
             if hold_worker existing = normalized_worker \<and> master_raw existing = master
             then (Inr existing, fs)
             else (Inl (HoldConflict ''another preflight hold is already active''), fs))
      else
        write_hold sha io
          \<lparr>preflight_id = ''preflight-'' @ take 32 (hash_payload sha
             [(''worker'', VStr normalized_worker), (''master_raw'', VStr master),
              (''scan_epoch'', VInt epoch), (''created_at'', VStr now)]),
           scan_epoch = max 0 epoch, hold_worker = normalized_worker, master_raw = master,
           created_at = now, updated_at = now, hold_state = HOLD_LOOKUP, items = [], error_code = []\<rparr> fs)"

definition next_hold_sequence :: "held_scan list \<Rightarrow> int" where
  "next_hold_sequence xs = (if xs = [] then 1 else sequence (last xs) + 1)"

definition append_hold ::
  "(string \<Rightarrow> string) \<Rightarrow> nat \<Rightarrow> bool \<Rightarrow> string \<Rightarrow> string \<Rightarrow> held_scan hold_op" where
  "append_hold sha capacity io now raw fs =
     (if raw = [] then (Inl HoldValueError, fs)
      else case load_hold fs of
        Inl e \<Rightarrow> (Inl e, fs)
      | Inr s \<Rightarrow>
          if hold_state s \<noteq> HOLD_LOOKUP
          then (Inl (HoldConflict ''preflight hold is not accepting scans''), fs)
          else if capacity \<le> length (items s) then (Inl HoldFull, fs)
          else
            let n = next_hold_sequence (items s);
                item = \<lparr>scan_id = ''held-scan-'' @ take 32 (sha (preflight_id s @ '':'' @ show_int n)),
                        sequence = n, raw_barcode = raw, admitted_at = now\<rparr>;
                (written, fs') = write_hold sha io (s\<lparr>updated_at := now, items := items s @ [item]\<rparr>) fs
            in (rbind written (\<lambda>_. Inr item), fs'))"

definition default_code :: "string \<Rightarrow> string \<Rightarrow> string" where
  "default_code code fallback = strip (if code = [] then fallback else code)"

definition mark_offline :: "(string \<Rightarrow> string) \<Rightarrow> bool \<Rightarrow> string \<Rightarrow> string \<Rightarrow> hold_snapshot hold_op" where
  "mark_offline sha io now code fs =
     (case load_hold fs of
        Inl e \<Rightarrow> (Inl e, fs)
      | Inr s \<Rightarrow>
          if hold_state s \<noteq> HOLD_LOOKUP
          then (Inl (HoldConflict ''preflight hold is not awaiting lookup''), fs)
          else write_hold sha io (s\<lparr>updated_at := now,
                 error_code := default_code code ''PHS2_PREFLIGHT_UNAVAILABLE''\<rparr>) fs)"

definition mark_failed :: "(string \<Rightarrow> string) \<Rightarrow> bool \<Rightarrow> string \<Rightarrow> string \<Rightarrow> hold_snapshot hold_op" where
  "mark_failed sha io now code fs =
     (case load_hold fs of
        Inl e \<Rightarrow> (Inl e, fs)
      | Inr s \<Rightarrow>
          write_hold sha io (s\<lparr>updated_at := now, hold_state := HOLD_LOOKUP_FAILED,
            error_code := default_code code ''PHS2_PREFLIGHT_FAILED''\<rparr>) fs)"

definition resume_hold ::
  "(string \<Rightarrow> string) \<Rightarrow> bool \<Rightarrow> string \<Rightarrow> string \<Rightarrow> string \<Rightarrow> hold_snapshot hold_op" where
  "resume_hold sha io now master worker fs =
     (case load_hold fs of
        Inl e \<Rightarrow> (Inl e, fs)
      | Inr s \<Rightarrow>
          if master_raw s \<noteq> master \<or> hold_worker s \<noteq> strip worker
          then (Inl (HoldConflict ''preflight retry context does not match the hold''), fs)
          else write_hold sha io (s\<lparr>updated_at := now, hold_state := HOLD_LOOKUP, error_code := []\<rparr>) fs)"

definition mark_draining :: "(string \<Rightarrow> string) \<Rightarrow> bool \<Rightarrow> string \<Rightarrow> hold_snapshot option hold_op" where
  "mark_draining sha io now fs =
     (case load_hold fs of
        Inl e \<Rightarrow> (Inl e, fs)
      | Inr s \<Rightarrow>
          if hold_state s \<noteq> HOLD_LOOKUP
          then (Inl (HoldConflict ''preflight hold is not ready to drain''), fs)
          else if items s = [] then
            (if io then (Inr None, fs\<lparr>hold_file := None\<rparr>) else (Inl HoldOSError, fs))
          else let (written, fs') = write_hold sha io (s\<lparr>updated_at := now, hold_state := HOLD_DRAINING\<rparr>) fs
               in (rbind written (\<lambda>w. Inr (Some w)), fs'))"

definition ack_head :: "(string \<Rightarrow> string) \<Rightarrow> bool \<Rightarrow> string \<Rightarrow> string \<Rightarrow> hold_snapshot option hold_op" where
  "ack_head sha io now sid fs =
     (case load_hold fs of
        Inl e \<Rightarrow> (Inl e, fs)
      | Inr s \<Rightarrow>
          (case items s of
             [] \<Rightarrow> (Inl (HoldConflict ''preflight hold has no drainable head''), fs)
           | x # xs \<Rightarrow>
               if hold_state s \<noteq> HOLD_DRAINING
               then (Inl (HoldConflict ''preflight hold has no drainable head''), fs)
               else if scan_id x \<noteq> sid
               then (Inl (HoldConflict ''preflight hold head identity mismatch''), fs)
               else if xs = [] then
                 (if io then (Inr None, fs\<lparr>hold_file := None\<rparr>) else (Inl HoldOSError, fs))
               else let (written, fs') = write_hold sha io (s\<lparr>updated_at := now, items := xs\<rparr>) fs
                    in (rbind written (\<lambda>w. Inr (Some w)), fs')))"

subsection \<open>Quarantine\<close>

definition is_alnum_ascii :: "char \<Rightarrow> bool" where
  "is_alnum_ascii c \<longleftrightarrow> is_digit c \<or> (65 \<le> ord c \<and> ord c \<le> 90) \<or> (97 \<le> ord c \<and> ord c \<le> 122)"

definition quarantine_name :: "(string \<Rightarrow> string) \<Rightarrow> hold_snapshot \<Rightarrow> string" where
  "quarantine_name sha s =
     ''preflight_hold_'' @ preflight_id s @ ''_'' @ take 15 (filter is_alnum_ascii (updated_at s)) @ ''_''
     @ take 16 (snapshot_hash sha s) @ ''.json''"

text \<open>
  The PIN move journal of the caller is the argument \<open>move\<close>: given the target name and the
  expected digest it returns the name it moved the file to, or raises.
\<close>

type_synonym pin_move = "string \<Rightarrow> string \<Rightarrow> string hold_op"

definition move_to_quarantine ::
  "(string \<Rightarrow> string) \<Rightarrow> bool \<Rightarrow> string \<Rightarrow> string \<Rightarrow> unit hold_op" where
  "move_to_quarantine sha io target h fs =
     (case dget (quarantine_dir fs) target of
        Some content \<Rightarrow>
          (case load_content (Some content) of
             Inl e \<Rightarrow> (Inl e, fs)
           | Inr existing \<Rightarrow>
               if snapshot_hash sha existing \<noteq> h
               then (Inl (HoldConflict ''preflight quarantine identity collision''), fs)
               else if io then (Inr (), fs\<lparr>hold_file := None\<rparr>) else (Inl HoldOSError, fs))
      | None \<Rightarrow>
          (case hold_file fs of
             Some content \<Rightarrow>
               if io then (Inr (), fs\<lparr>hold_file := None, quarantine_dir := dset target content (quarantine_dir fs)\<rparr>)
               else (Inl HoldOSError, fs)
           | None \<Rightarrow> (Inl HoldOSError, fs)))"

definition quarantine_hold :: "(string \<Rightarrow> string) \<Rightarrow> bool \<Rightarrow> string option \<Rightarrow> pin_move option \<Rightarrow>
    (string \<times> hold_snapshot \<times> string) hold_op" where
  "quarantine_hold sha io expected_sha256 move fs =
     (case load_hold fs of
        Inl e \<Rightarrow> (Inl e, fs)
      | Inr s \<Rightarrow>
          let h = snapshot_hash sha s;
              target = quarantine_name sha s;
              moved = (case expected_sha256 of
                  Some expected \<Rightarrow>
                    (case move of
                       None \<Rightarrow> (Inl (HoldError ''PIN move journal is required''), fs)
                     | Some mv \<Rightarrow> mv target expected fs)
                | None \<Rightarrow> (case move_to_quarantine sha io target h fs of (r, fs') \<Rightarrow> (rbind r (\<lambda>_. Inr target), fs')))
          in (case moved of
                (Inl e, fs') \<Rightarrow> (Inl e, fs')
              | (Inr target', fs') \<Rightarrow>
                  (rbind (load_content (dget (quarantine_dir fs') target')) (\<lambda>readback.
                     rbind (ensure (snapshot_hash sha readback = h)
                              (HoldError ''preflight quarantine readback mismatch'')) (\<lambda>_.
                     Inr (target', readback, h))), fs')))"

definition restore_quarantined :: "(string \<Rightarrow> string) \<Rightarrow> bool \<Rightarrow> string \<Rightarrow> hold_snapshot hold_op" where
  "restore_quarantined sha io source fs =
     (case load_content (dget (quarantine_dir fs) source) of
        Inl e \<Rightarrow> (Inl e, fs)
      | Inr s \<Rightarrow>
          let h = snapshot_hash sha s;
              restored = (if hold_file fs \<noteq> None then
                  (case load_hold fs of
                     Inl e \<Rightarrow> (Inl e, fs)
                   | Inr existing \<Rightarrow>
                       if snapshot_hash sha existing \<noteq> h
                       then (Inl (HoldConflict ''another preflight hold is already active''), fs)
                       else if io then (Inr (), fs\<lparr>quarantine_dir := dremove source (quarantine_dir fs)\<rparr>)
                       else (Inl HoldOSError, fs))
                else if io then (Inr (), fs\<lparr>hold_file := dget (quarantine_dir fs) source,
                                quarantine_dir := dremove source (quarantine_dir fs)\<rparr>)
                else (Inl HoldOSError, fs))
          in (case restored of
                (Inl e, fs') \<Rightarrow> (Inl e, fs')
              | (Inr _, fs') \<Rightarrow>
                  (rbind (load_hold fs') (\<lambda>readback.
                     rbind (ensure (snapshot_hash sha readback = h)
                              (HoldError ''restored preflight hold readback mismatch'')) (\<lambda>_.
                     Inr readback)), fs')))"

text \<open>\<open>list_quarantined\<close>: the readable \<open>preflight_hold_*.json\<close> files in the order of their names.\<close>

definition is_quarantine_file :: "string \<Rightarrow> bool" where
  "is_quarantine_file name \<longleftrightarrow> prefix ''preflight_hold_'' name \<and> suffix ''.json'' name \<and>
     length ''preflight_hold_'' + length ''.json'' \<le> length name"

definition list_quarantined ::
  "(string \<Rightarrow> string) \<Rightarrow> hold_fs \<Rightarrow> (string \<times> hold_snapshot \<times> string) list" where
  "list_quarantined sha fs =
     concat (map (\<lambda>(name, content). case load_content (Some content) of
         Inl e \<Rightarrow> []
       | Inr s \<Rightarrow> [(name, s, snapshot_hash sha s)])
       (sort_key fst (filter (\<lambda>(name, content). is_quarantine_file name) (quarantine_dir fs))))"

subsection \<open>Well-formed snapshots survive the file\<close>

definition clean_text :: "string \<Rightarrow> bool" where
  "clean_text t \<longleftrightarrow> t \<noteq> [] \<and> strip t = t"

definition wf_held :: "held_scan \<Rightarrow> bool" where
  "wf_held x \<longleftrightarrow> clean_text (scan_id x) \<and> raw_barcode x \<noteq> [] \<and> clean_text (admitted_at x) \<and> 1 \<le> sequence x"

definition wf_snapshot :: "hold_snapshot \<Rightarrow> bool" where
  "wf_snapshot s \<longleftrightarrow> clean_text (preflight_id s) \<and> clean_text (hold_worker s) \<and> master_raw s \<noteq> [] \<and>
     clean_text (created_at s) \<and> clean_text (updated_at s) \<and> hold_state s \<in> set hold_states \<and>
     0 \<le> scan_epoch s \<and> list_all wf_held (items s) \<and>
     sorted (map sequence (items s)) \<and> distinct (map sequence (items s)) \<and>
     strip (error_code s) = error_code s"

lemma clean_text_strip [simp]: "clean_text (strip t) \<longleftrightarrow> strip t \<noteq> []"
  by (simp add: clean_text_def)

lemma clean_textD: "clean_text t \<Longrightarrow> strip t = t" "clean_text t \<Longrightarrow> t \<noteq> []"
  by (simp_all add: clean_text_def)

lemma strip_hold_state [simp]: "st \<in> set hold_states \<Longrightarrow> strip st = st"
  by (auto simp: hold_states_def hold_state_defs intro!: strip_idI simp: is_space_def)

lemma held_scan_round_trip: "wf_held x \<Longrightarrow> held_scan_from_payload (held_scan_to_payload x) = Inr x"
  by (simp add: held_scan_from_payload_def held_scan_to_payload_def text_of_def wf_held_def clean_textD)

lemma held_scans_round_trip:
  "list_all wf_held xs \<Longrightarrow> held_scans_from (map (\<lambda>x. VDict (held_scan_to_payload x)) xs) = Inr xs"
  by (induction xs) (simp_all add: held_scan_round_trip)

lemma snapshot_round_trip:
  assumes "wf_snapshot s"
  shows "snapshot_from_payload (snapshot_to_payload s) = Inr s"
proof -
  have "held_scans_from (map (\<lambda>x. VDict (held_scan_to_payload x)) (items s)) = Inr (items s)"
    using assms by (intro held_scans_round_trip) (simp add: wf_snapshot_def)
  with assms show ?thesis
    by (simp add: snapshot_from_payload_def snapshot_to_payload_def text_of_def wf_snapshot_def
        clean_textD not_less)
qed

lemma held_scan_from_payload_wf: "held_scan_from_payload d = Inr x \<Longrightarrow> wf_held x"
  by (auto simp: held_scan_from_payload_def Let_def wf_held_def split: option.splits if_splits)

lemma held_scans_from_wf: "held_scans_from vs = Inr xs \<Longrightarrow> list_all wf_held xs"
  by (induction vs arbitrary: xs)
     (auto simp: result_simps dest: held_scan_from_payload_wf split: option.splits)

lemma snapshot_from_payload_wf: "snapshot_from_payload d = Inr s \<Longrightarrow> wf_snapshot s"
  by (auto simp: snapshot_from_payload_def result_simps Let_def wf_snapshot_def
      dest: held_scans_from_wf split: option.splits if_splits)

lemma load_hold_wf: "load_hold fs = Inr s \<Longrightarrow> wf_snapshot s"
  unfolding load_hold_def
  by (cases "hold_file fs" rule: load_content.cases)
     (auto dest: snapshot_from_payload_wf split: option.splits)

lemma write_hold_wf:
  assumes "wf_snapshot s"
  shows "write_hold sha True s fs =
     (Inr s, fs\<lparr>hold_file := Some (Content (VDict (snapshot_to_payload s)))\<rparr>)"
    and "load_hold (fs\<lparr>hold_file := Some (Content (VDict (snapshot_to_payload s)))\<rparr>) = Inr s"
  using assms by (simp_all add: write_hold_def load_hold_def snapshot_round_trip)

lemma write_hold_io [simp]: "write_hold sha False s fs = (Inl HoldOSError, fs)"
  by (simp add: write_hold_def)

subsection \<open>Commands and the conservation of scans\<close>

text \<open>What the application asks of the store, with the clock text and the outcome of the write.\<close>

datatype hold_request =
    ReqStart string string int
  | ReqAppend string
  | ReqOffline string
  | ReqFailed string
  | ReqResume string string
  | ReqDraining
  | ReqAck string

type_synonym hold_cmd = "bool \<times> string \<times> hold_request"

definition held :: "hold_fs \<Rightarrow> held_scan list" where
  "held fs = (case load_hold fs of Inl e \<Rightarrow> [] | Inr s \<Rightarrow> items s)"

text \<open>The new file system, the scan admitted and the scan released by a command.\<close>

fun run_hold :: "(string \<Rightarrow> string) \<Rightarrow> nat \<Rightarrow> hold_cmd \<Rightarrow> hold_fs \<Rightarrow>
    hold_fs \<times> held_scan list \<times> held_scan list" where
  "run_hold sha cap (io, now, ReqStart w m e) fs = (snd (start_hold sha io now w m e fs), [], [])"
| "run_hold sha cap (io, now, ReqAppend raw) fs =
     (case append_hold sha cap io now raw fs of
        (Inr x, fs') \<Rightarrow> (fs', [x], []) | (Inl e, fs') \<Rightarrow> (fs', [], []))"
| "run_hold sha cap (io, now, ReqOffline c) fs = (snd (mark_offline sha io now c fs), [], [])"
| "run_hold sha cap (io, now, ReqFailed c) fs = (snd (mark_failed sha io now c fs), [], [])"
| "run_hold sha cap (io, now, ReqResume m w) fs = (snd (resume_hold sha io now m w fs), [], [])"
| "run_hold sha cap (io, now, ReqDraining) fs = (snd (mark_draining sha io now fs), [], [])"
| "run_hold sha cap (io, now, ReqAck sid) fs =
     (case ack_head sha io now sid fs of
        (Inr r, fs') \<Rightarrow> (fs', [], take 1 (held fs)) | (Inl e, fs') \<Rightarrow> (fs', [], []))"

text \<open>The file is absent or readable.\<close>

definition hold_ok :: "hold_fs \<Rightarrow> bool" where
  "hold_ok fs \<longleftrightarrow> hold_file fs = None \<or> (\<exists>s. load_hold fs = Inr s)"

text \<open>The clock never yields an empty or padded text.\<close>

definition clock_ok :: "hold_cmd \<Rightarrow> bool" where
  "clock_ok c \<longleftrightarrow> clean_text (fst (snd c))"

lemma held_load: "load_hold fs = Inr s \<Longrightarrow> held fs = items s"
  by (simp add: held_def)

lemma held_no_file [simp]: "hold_file fs = None \<Longrightarrow> held fs = []"
  by (simp add: held_def load_hold_def)

text \<open>A write of a well-formed snapshot whose items are \<open>xs\<close>, whatever the outcome.\<close>

lemma write_hold_effect:
  assumes "wf_snapshot s" "hold_ok fs"
  shows "hold_ok (snd (write_hold sha io s fs))"
    and "held (snd (write_hold sha io s fs)) = (if io then items s else held fs)"
  using assms write_hold_wf [OF assms(1)]
  by (cases io; auto simp: hold_ok_def held_load)+

lemma snapshot_update_wf:
  assumes "wf_snapshot s" "clean_text now"
  shows "wf_snapshot (s\<lparr>updated_at := now\<rparr>)"
    "strip c = c \<Longrightarrow> wf_snapshot (s\<lparr>updated_at := now, error_code := c\<rparr>)"
    "strip c = c \<Longrightarrow> st \<in> set hold_states \<Longrightarrow>
       wf_snapshot (s\<lparr>updated_at := now, hold_state := st, error_code := c\<rparr>)"
    "st \<in> set hold_states \<Longrightarrow> wf_snapshot (s\<lparr>updated_at := now, hold_state := st\<rparr>)"
  using assms by (simp_all add: wf_snapshot_def)

lemma strip_default_code [simp]: "strip (default_code c d) = default_code c d"
  by (simp add: default_code_def)

lemma hold_state_in [simp]:
  "HOLD_LOOKUP \<in> set hold_states" "HOLD_LOOKUP_FAILED \<in> set hold_states" "HOLD_DRAINING \<in> set hold_states"
  by (simp_all add: hold_states_def)

lemma last_sequence_max:
  assumes "sorted (map sequence xs)" "xs \<noteq> []" "x \<in> set xs"
  shows "sequence x \<le> sequence (last xs)"
  using assms
proof (induction xs)
  case (Cons y ys)
  then show ?case by (cases "ys = []") auto
qed simp

lemma wf_append:
  assumes wf: "wf_snapshot s" and now: "clean_text now" and raw: "raw \<noteq> []" and sid: "clean_text i"
  shows "wf_snapshot (s\<lparr>updated_at := now, items := items s @
     [\<lparr>scan_id = i, sequence = next_hold_sequence (items s), raw_barcode = raw, admitted_at = now\<rparr>]\<rparr>)"
proof -
  have srt: "sorted (map sequence (items s))" and dst: "distinct (map sequence (items s))"
    and items: "list_all wf_held (items s)"
    using wf by (auto simp: wf_snapshot_def)
  have lt: "sequence x < next_hold_sequence (items s)" if "x \<in> set (items s)" for x
    using last_sequence_max [OF srt _ that] that by (auto simp: next_hold_sequence_def)
  have "1 \<le> next_hold_sequence (items s)"
    using items by (cases "items s" rule: rev_cases) (auto simp: next_hold_sequence_def wf_held_def)
  with wf now raw sid srt dst items lt show ?thesis
    by (fastforce simp: wf_snapshot_def wf_held_def sorted_append intro: less_imp_le)
qed

lemma last_take_in: "last (take n xs) \<in> set xs" if "take n xs \<noteq> []"
  using that by (meson in_set_takeD last_in_set)

lemma scan_id_clean:
  assumes "hex_digest sha"
  shows "clean_text (''held-scan-'' @ take 32 (sha t))" "clean_text (''preflight-'' @ take 32 (sha t))"
proof -
  have "take 32 (sha t) \<noteq> []" using assms by (simp add: hex_digest_def) (metis length_0_conv zero_neq_numeral)
  moreover from last_take_in [OF this] have "\<not> is_space (last (take 32 (sha t)))"
    using assms lower_hex_not_space by (auto simp: hex_digest_def)
  ultimately show "clean_text (''held-scan-'' @ take 32 (sha t))" "clean_text (''preflight-'' @ take 32 (sha t))"
    by (auto simp: clean_text_def is_space_def intro!: strip_idI)
qed

text \<open>Each request keeps the file readable and conserves the scans.\<close>

definition hold_step :: "(string \<Rightarrow> string) \<times> nat \<times> hold_cmd \<Rightarrow> hold_fs \<Rightarrow>
    hold_fs \<times> held_scan list \<times> held_scan list" where
  "hold_step = (\<lambda>(sha, cap, c). run_hold sha cap c)"

definition hold_admissible :: "(string \<Rightarrow> string) \<times> nat \<times> hold_cmd \<Rightarrow> bool" where
  "hold_admissible = (\<lambda>(sha, cap, c). hex_digest sha \<and> clock_ok c)"

lemma start_hold_effect:
  assumes "hex_digest sha" "clean_text now" "hold_ok fs"
  shows "hold_ok (snd (start_hold sha io now w m e fs))" "held (snd (start_hold sha io now w m e fs)) = held fs"
proof -
  let ?s = "\<lparr>preflight_id = ''preflight-'' @ take 32 (hash_payload sha
             [(''worker'', VStr (strip w)), (''master_raw'', VStr m),
              (''scan_epoch'', VInt e), (''created_at'', VStr now)]),
           scan_epoch = max 0 e, hold_worker = strip w, master_raw = m,
           created_at = now, updated_at = now, hold_state = HOLD_LOOKUP, items = [], error_code = []\<rparr>"
  have wf: "strip w \<noteq> [] \<Longrightarrow> m \<noteq> [] \<Longrightarrow> wf_snapshot ?s"
    using assms by (simp add: wf_snapshot_def hash_payload_def scan_id_clean del: append.simps)
  consider "strip w = [] \<or> m = []" | "strip w \<noteq> []" "m \<noteq> []" "hold_file fs \<noteq> None"
    | "strip w \<noteq> []" "m \<noteq> []" "hold_file fs = None" by blast
  then have "hold_ok (snd (start_hold sha io now w m e fs)) \<and> held (snd (start_hold sha io now w m e fs)) = held fs"
  proof cases
    case 3
    then have "start_hold sha io now w m e fs = write_hold sha io ?s fs"
      by (simp add: start_hold_def Let_def)
    with 3 write_hold_effect [OF wf [OF 3(1,2)] assms(3)] show ?thesis by simp
  qed (use assms(3) in \<open>auto simp: start_hold_def Let_def split: sum.splits\<close>)
  then show "hold_ok (snd (start_hold sha io now w m e fs))"
    "held (snd (start_hold sha io now w m e fs)) = held fs" by blast+
qed

lemma status_effect:
  assumes "clean_text now" "hold_ok fs"
  shows "hold_ok (snd (mark_offline sha io now c fs)) \<and> held (snd (mark_offline sha io now c fs)) = held fs"
    "hold_ok (snd (mark_failed sha io now c fs)) \<and> held (snd (mark_failed sha io now c fs)) = held fs"
    "hold_ok (snd (resume_hold sha io now m w fs)) \<and> held (snd (resume_hold sha io now m w fs)) = held fs"
proof -
  have wf: "wf_snapshot s" if "load_hold fs = Inr s" for s using that by (rule load_hold_wf)
  have eff: "hold_ok (snd (write_hold sha io s' fs)) \<and> held (snd (write_hold sha io s' fs)) = held fs"
    if "load_hold fs = Inr s" "wf_snapshot s'" "items s' = items s" for s s'
    using write_hold_effect [OF that(2) assms(2)] held_load [OF that(1)] that(3) by simp
  show "hold_ok (snd (mark_offline sha io now c fs)) \<and> held (snd (mark_offline sha io now c fs)) = held fs"
    using assms wf eff snapshot_update_wf(2) by (simp add: mark_offline_def split: sum.split)
  show "hold_ok (snd (mark_failed sha io now c fs)) \<and> held (snd (mark_failed sha io now c fs)) = held fs"
    using assms wf eff snapshot_update_wf(3) by (simp add: mark_failed_def split: sum.split)
  show "hold_ok (snd (resume_hold sha io now m w fs)) \<and> held (snd (resume_hold sha io now m w fs)) = held fs"
    using assms wf eff snapshot_update_wf(3) by (simp add: resume_hold_def split: sum.split)
qed

lemma hold_ok_removed [simp]: "hold_ok (fs\<lparr>hold_file := None\<rparr>)"
  by (simp add: hold_ok_def)

lemma draining_effect:
  assumes "clean_text now" "hold_ok fs"
  shows "hold_ok (snd (mark_draining sha io now fs)) \<and> held (snd (mark_draining sha io now fs)) = held fs"
proof (cases "load_hold fs")
  case (Inr s)
  have wf: "wf_snapshot (s\<lparr>updated_at := now, hold_state := HOLD_DRAINING\<rparr>)"
    using load_hold_wf [OF Inr] assms(1) by (simp add: snapshot_update_wf(4))
  show ?thesis
    using Inr write_hold_effect [OF wf assms(2)] assms(2)
    by (simp add: mark_draining_def held_load case_prod_unfold Let_def)
qed (use assms in \<open>simp add: mark_draining_def\<close>)

lemma append_effect:
  assumes "hex_digest sha" "clean_text now" "hold_ok fs" "append_hold sha cap io now raw fs = (r, fs')"
  shows "hold_ok fs'"
    and "case r of Inl e \<Rightarrow> held fs' = held fs
         | Inr x \<Rightarrow> held fs' = held fs @ [x] \<and> raw_barcode x = raw \<and> sequence x = next_hold_sequence (held fs) \<and>
             length (held fs') \<le> cap"
proof -
  have "hold_ok fs' \<and> (case r of Inl e \<Rightarrow> held fs' = held fs
         | Inr x \<Rightarrow> held fs' = held fs @ [x] \<and> raw_barcode x = raw \<and> sequence x = next_hold_sequence (held fs) \<and>
             length (held fs') \<le> cap)"
  proof (cases "load_hold fs")
    case (Inl e)
    with assms(3,4) show ?thesis by (auto simp: append_hold_def split: if_splits)
  next
    case (Inr s)
    show ?thesis
    proof (cases "raw = [] \<or> hold_state s \<noteq> HOLD_LOOKUP \<or> cap \<le> length (items s)")
      case True
      with Inr assms(3,4) show ?thesis by (auto simp: append_hold_def split: if_splits)
    next
      case False
      define x where "x = \<lparr>scan_id = ''held-scan-'' @ take 32 (sha (preflight_id s @ '':'' @ show_int (next_hold_sequence (items s)))),
        sequence = next_hold_sequence (items s), raw_barcode = raw, admitted_at = now\<rparr>"
      define s' where "s' = s\<lparr>updated_at := now, items := items s @ [x]\<rparr>"
      have wf: "wf_snapshot s'"
        unfolding s'_def x_def using False assms(1,2)
        by (intro wf_append load_hold_wf [OF Inr] scan_id_clean) simp_all
      have ap: "append_hold sha cap io now raw fs =
          (rbind (fst (write_hold sha io s' fs)) (\<lambda>_. Inr x), snd (write_hold sha io s' fs))"
        using False Inr by (simp add: append_hold_def Let_def x_def s'_def case_prod_unfold)
      show ?thesis
      proof (cases io)
        case True
        with ap assms(4) write_hold_wf [OF wf] have "r = Inr x" and "load_hold fs' = Inr s'" by auto
        with False Inr show ?thesis by (simp add: held_load hold_ok_def s'_def x_def)
      next
        case no: False
        with ap assms(3,4) show ?thesis by auto
      qed
    qed
  qed
  then show "hold_ok fs'" and "case r of Inl e \<Rightarrow> held fs' = held fs
         | Inr x \<Rightarrow> held fs' = held fs @ [x] \<and> raw_barcode x = raw \<and> sequence x = next_hold_sequence (held fs) \<and>
             length (held fs') \<le> cap" by blast+
qed

lemma ack_effect:
  assumes "clean_text now" "hold_ok fs" "ack_head sha io now sid fs = (r, fs')"
  shows "hold_ok fs'"
    and "case r of Inl e \<Rightarrow> held fs' = held fs
         | Inr w \<Rightarrow> \<exists>x. held fs = x # held fs' \<and> scan_id x = sid"
proof -
  have "hold_ok fs' \<and> (case r of Inl e \<Rightarrow> held fs' = held fs
         | Inr w \<Rightarrow> \<exists>x. held fs = x # held fs' \<and> scan_id x = sid)"
  proof (cases "load_hold fs")
    case (Inl e)
    with assms(2,3) show ?thesis by (auto simp: ack_head_def)
  next
    case (Inr s)
    show ?thesis
    proof (cases "items s")
      case Nil
      with Inr assms(2,3) show ?thesis by (auto simp: ack_head_def)
    next
      case (Cons x xs)
      show ?thesis
      proof (cases "hold_state s \<noteq> HOLD_DRAINING \<or> scan_id x \<noteq> sid \<or> xs = []")
        case True
        with Inr Cons assms(2,3) show ?thesis
          by (auto simp: ack_head_def held_load split: if_splits)
      next
        case False
        let ?s = "s\<lparr>updated_at := now, items := xs\<rparr>"
        have "wf_snapshot s" using Inr by (rule load_hold_wf)
        with Cons assms(1) have wf: "wf_snapshot ?s"
          by (simp add: wf_snapshot_def)
        show ?thesis
        proof (cases io)
          case True
          with False Inr Cons assms(3) write_hold_wf [OF wf]
          have "r = Inr (Some ?s)" and "load_hold fs' = Inr ?s" by (auto simp: ack_head_def)
          with False Inr Cons show ?thesis by (simp add: held_load hold_ok_def)
        next
          case no: False
          with False Inr Cons assms(2,3) show ?thesis by (auto simp: ack_head_def)
        qed
      qed
    qed
  qed
  then show "hold_ok fs'" and "case r of Inl e \<Rightarrow> held fs' = held fs
         | Inr w \<Rightarrow> \<exists>x. held fs = x # held fs' \<and> scan_id x = sid" by blast+
qed

lemma run_hold_effect:
  assumes "hex_digest sha" "clock_ok c" "hold_ok fs" "run_hold sha cap c fs = (fs', adm, rel)"
  shows "hold_ok fs' \<and> held fs @ adm = rel @ held fs'"
proof -
  obtain io now req where c: "c = (io, now, req)" by (metis prod_cases3)
  with assms(2) have now: "clean_text now" by (simp add: clock_ok_def)
  show ?thesis
  proof (cases req)
    case (ReqStart w m e)
    with c assms now start_hold_effect [OF assms(1) now assms(3)] show ?thesis by auto
  next
    case (ReqAppend raw)
    with c assms(4) append_effect [OF assms(1) now assms(3), of cap io raw] show ?thesis
      by (auto split: prod.splits sum.splits)
  next
    case (ReqAck sid)
    with c assms(4) ack_effect [OF now assms(3), of sha io sid] show ?thesis
      by (fastforce split: prod.splits sum.splits)
  qed (use c assms now status_effect [OF now assms(3)] draining_effect [OF now assms(3)] in auto)
qed

interpretation hold: conserving_store hold_step held hold_ok hold_admissible
  by unfold_locales
     (auto simp: hold_step_def hold_admissible_def dest: run_hold_effect split: prod.splits)

subsection \<open>Properties\<close>

lemma run_steps_hold:
  "run_steps hold_step (map (\<lambda>c. (sha, cap, c)) cs) fs = run_steps (run_hold sha cap) cs fs"
  by (induction cs arbitrary: fs) (simp_all add: hold_step_def)

definition demo_digest :: "string \<Rightarrow> string" where
  "demo_digest t = replicate 64 (CHR ''0'')"

lemma demo_digest_hex: "hex_digest demo_digest"
  using hex_digest_const by (simp add: demo_digest_def [abs_def])

definition empty_hold :: hold_fs where
  "empty_hold = \<lparr>hold_file = None, quarantine_dir = []\<rparr>"

definition demo_snapshot :: hold_snapshot where
  "demo_snapshot = \<lparr>preflight_id = ''p1'', scan_epoch = 1, hold_worker = ''kim'', master_raw = ''PHS=2'',
     created_at = ''t0'', updated_at = ''t1'', hold_state = HOLD_DRAINING,
     items = [\<lparr>scan_id = ''s1'', sequence = 1, raw_barcode = ''A1'', admitted_at = ''t1''\<rparr>,
              \<lparr>scan_id = ''s2'', sequence = 4, raw_barcode = ''A2'', admitted_at = ''t1''\<rparr>],
     error_code = []\<rparr>"

lemma demo_snapshot_wf: "wf_snapshot demo_snapshot"
  by (simp add: demo_snapshot_def wf_snapshot_def wf_held_def clean_text_def strip_def lstrip_def
      rstrip_def is_space_def)

definition demo_hold :: hold_fs where
  "demo_hold = empty_hold\<lparr>hold_file := Some (Content (VDict (snapshot_to_payload demo_snapshot)))\<rparr>"

lemma demo_hold_load: "load_hold demo_hold = Inr demo_snapshot"
  unfolding demo_hold_def by (rule write_hold_wf(2) [OF demo_snapshot_wf])

lemma demo_hold_ok: "hold_ok demo_hold"
  by (simp add: hold_ok_def demo_hold_load)

lemma demo_time_clean: "clean_text ''t2''"
  by (simp add: clean_text_def strip_def lstrip_def rstrip_def is_space_def)

lemma demo_ack:
  "ack_head demo_digest True ''t2'' ''s1'' demo_hold = (Inr (Some (demo_snapshot\<lparr>updated_at := ''t2'', items := tl (items demo_snapshot)\<rparr>)),
     demo_hold\<lparr>hold_file := Some (Content (VDict (snapshot_to_payload
       (demo_snapshot\<lparr>updated_at := ''t2'', items := tl (items demo_snapshot)\<rparr>))))\<rparr>)"
proof -
  have "wf_snapshot (demo_snapshot\<lparr>updated_at := ''t2'', items := tl (items demo_snapshot)\<rparr>)"
    using demo_snapshot_wf demo_time_clean by (simp add: demo_snapshot_def wf_snapshot_def)
  from write_hold_wf(1) [OF this] show ?thesis
    by (simp add: ack_head_def demo_hold_load demo_snapshot_def)
qed

text \<open>
  C22. Held scans are conserved: through any sequence of requests, failed writes included, what
  the hold file contained followed by what was admitted is what was released followed by what
  the file contains now, in the same order. No scan is lost, repeated or overtaken, and the file
  stays readable.
\<close>

theorem hold_fifo_conservation:
  assumes "hex_digest sha" "list_all clock_ok cs" "hold_ok fs"
    "run_steps (run_hold sha cap) cs fs = (fs', adm, rel)"
  shows "hold_ok fs' \<and> held fs @ adm = rel @ held fs'"
proof -
  have "list_all hold_admissible (map (\<lambda>c. (sha, cap, c)) cs)"
    using assms(1,2) by (simp add: list_all_iff hold_admissible_def)
  moreover have "run_steps hold_step (map (\<lambda>c. (sha, cap, c)) cs) fs = (fs', adm, rel)"
    using assms(4) by (simp add: run_steps_hold)
  ultimately show ?thesis using hold.run_conserves [OF assms(3)] by blast
qed

theorem hold_fifo_conservation_witness:
  "map scan_id (snd (snd (run_steps (run_hold demo_digest 5)
      [(False, ''t2'', ReqAck ''s1''), (True, ''t2'', ReqAck ''s1'')] demo_hold))) = [''s1''] \<and>
   map scan_id (held (fst (run_steps (run_hold demo_digest 5)
      [(False, ''t2'', ReqAck ''s1''), (True, ''t2'', ReqAck ''s1'')] demo_hold))) = [''s2'']"
proof -
  let ?cs = "[(False, ''t2'', ReqAck ''s1''), (True, ''t2'', ReqAck ''s1'')]"
  let ?r = "run_steps (run_hold demo_digest 5) ?cs demo_hold"
  have h: "held demo_hold = items demo_snapshot" by (rule held_load [OF demo_hold_load])
  have "ack_head demo_digest False ''t2'' ''s1'' demo_hold = (Inl HoldOSError, demo_hold)"
    by (simp add: ack_head_def demo_hold_load demo_snapshot_def)
  then have r: "fst (snd ?r) = []" "snd (snd ?r) = take 1 (items demo_snapshot)"
    by (simp_all add: demo_ack h)
  have "list_all clock_ok ?cs" by (simp add: clock_ok_def demo_time_clean)
  from hold_fifo_conservation [OF demo_digest_hex this demo_hold_ok, of 5 "fst ?r" "fst (snd ?r)" "snd (snd ?r)"]
  have "held demo_hold @ fst (snd ?r) = snd (snd ?r) @ held (fst ?r)" by simp
  then have "items demo_snapshot = take 1 (items demo_snapshot) @ held (fst ?r)"
    unfolding r h by simp
  then have "held (fst ?r) = drop 1 (items demo_snapshot)"
    by (metis append_take_drop_id same_append_eq)
  with r(2) show ?thesis by (simp add: demo_snapshot_def)
qed

text \<open>
  C28. A well-formed snapshot written to the hold file is read back unchanged, and everything
  that can be read from a hold file is well formed: its items have increasing distinct sequence
  numbers, non-empty barcodes and clean identifiers.
\<close>

theorem hold_snapshot_round_trip:
  "(wf_snapshot s \<longrightarrow> fst (write_hold sha True s fs) = Inr s \<and>
      load_hold (snd (write_hold sha True s fs)) = Inr s) \<and>
   (load_hold fs = Inr t \<longrightarrow> wf_snapshot t)"
  using write_hold_wf [of s] load_hold_wf [of fs t] by simp

theorem hold_snapshot_round_trip_witness:
  "load_hold (snd (write_hold demo_digest True demo_snapshot empty_hold)) = Inr demo_snapshot \<and>
   load_hold demo_hold = Inr demo_snapshot \<and> wf_snapshot demo_snapshot"
  using hold_snapshot_round_trip [where s = demo_snapshot and fs = empty_hold and sha = demo_digest]
    hold_snapshot_round_trip [where fs = demo_hold and t = demo_snapshot]
    demo_snapshot_wf demo_hold_load by blast

text \<open>
  When its write goes through, a scan is admitted exactly when it is non-empty, the hold is
  waiting for the label lookup and has room; it then goes to the end of the queue with the next
  sequence number, and the capacity is never exceeded. A refused scan changes nothing.
\<close>

theorem append_hold_spec:
  assumes "hex_digest sha" "clean_text now" "load_hold fs = Inr s"
  shows "(if raw \<noteq> [] \<and> hold_state s = HOLD_LOOKUP \<and> length (items s) < cap
     then \<exists>x fs'. append_hold sha cap True now raw fs = (Inr x, fs') \<and> raw_barcode x = raw \<and>
       sequence x = next_hold_sequence (items s) \<and>
       load_hold fs' = Inr (s\<lparr>updated_at := now, items := items s @ [x]\<rparr>)
     else \<exists>e. append_hold sha cap True now raw fs = (Inl e, fs))"
proof (cases "raw \<noteq> [] \<and> hold_state s = HOLD_LOOKUP \<and> length (items s) < cap")
  case True
  define x where "x = \<lparr>scan_id = ''held-scan-'' @ take 32 (sha (preflight_id s @ '':'' @ show_int (next_hold_sequence (items s)))),
        sequence = next_hold_sequence (items s), raw_barcode = raw, admitted_at = now\<rparr>"
  have wf: "wf_snapshot (s\<lparr>updated_at := now, items := items s @ [x]\<rparr>)"
    unfolding x_def using True assms(1,2)
    by (intro wf_append load_hold_wf [OF assms(3)] scan_id_clean) simp_all
  have "append_hold sha cap True now raw fs = (Inr x, fs\<lparr>hold_file :=
      Some (Content (VDict (snapshot_to_payload (s\<lparr>updated_at := now, items := items s @ [x]\<rparr>))))\<rparr>)"
    using True assms(3) write_hold_wf(1) [OF wf, of sha fs]
    by (simp add: append_hold_def Let_def x_def)
  with True write_hold_wf(2) [OF wf] show ?thesis by (auto simp: x_def)
next
  case False
  with assms(3) show ?thesis by (auto simp: append_hold_def)
qed

theorem append_hold_spec_witness:
  "\<exists>x fs'. append_hold demo_digest 5 True ''t2'' ''A3''
      (empty_hold\<lparr>hold_file := Some (Content (VDict (snapshot_to_payload (demo_snapshot\<lparr>hold_state := HOLD_LOOKUP\<rparr>))))\<rparr>)
      = (Inr x, fs') \<and> raw_barcode x = ''A3'' \<and> sequence x = 5"
proof -
  have "wf_snapshot (demo_snapshot\<lparr>hold_state := HOLD_LOOKUP\<rparr>)"
    using demo_snapshot_wf by (simp add: wf_snapshot_def)
  from append_hold_spec [OF demo_digest_hex demo_time_clean write_hold_wf(2) [OF this], where raw = "''A3''" and cap = 5]
  show ?thesis by (fastforce simp: demo_snapshot_def next_hold_sequence_def)
qed

text \<open>
  Acknowledging releases exactly the oldest scan, and only when the hold is draining and the
  caller names that scan; otherwise, and when the write fails, the held scans stay as they were.
\<close>

theorem ack_head_releases_head:
  assumes "clean_text now" "hold_ok fs" "ack_head sha io now sid fs = (r, fs')"
  shows "hold_ok fs' \<and> (case r of Inl e \<Rightarrow> held fs' = held fs
     | Inr w \<Rightarrow> \<exists>x. held fs = x # held fs' \<and> scan_id x = sid)"
  using ack_effect [OF assms] by blast

theorem ack_head_releases_head_witness:
  "map scan_id (held (snd (ack_head demo_digest True ''t2'' ''s1'' demo_hold))) = [''s2'']"
  using ack_head_releases_head [OF demo_time_clean demo_hold_ok demo_ack] held_load [OF demo_hold_load]
  by (auto simp: demo_ack demo_snapshot_def)

text \<open>
  Moving a hold into quarantine and restoring it brings back the same scans and leaves the
  quarantine as it was; in between no hold is active, and the quarantined file is reported with
  its snapshot.
\<close>

theorem quarantine_restore_round_trip:
  assumes "load_hold fs = Inr s" "quarantine_name sha s \<notin> set (dkeys (quarantine_dir fs))"
  shows "\<exists>fs'. quarantine_hold sha True None mv fs = (Inr (quarantine_name sha s, s, snapshot_hash sha s), fs') \<and>
    hold_file fs' = None \<and> (quarantine_name sha s, s, snapshot_hash sha s) \<in> set (list_quarantined sha fs') \<and>
    restore_quarantined sha True (quarantine_name sha s) fs' = (Inr s, fs)"
proof -
  let ?n = "quarantine_name sha s"
  obtain c where c: "hold_file fs = Some c" and l: "load_content (Some c) = Inr s"
    using assms(1) by (cases "hold_file fs") (auto simp: load_hold_def)
  let ?fs' = "fs\<lparr>hold_file := None, quarantine_dir := dset ?n c (quarantine_dir fs)\<rparr>"
  have "dget (quarantine_dir fs) ?n = None" using assms(2) by (simp add: dget_None_iff)
  with assms c l have q: "quarantine_hold sha True None mv fs = (Inr (?n, s, snapshot_hash sha s), ?fs')"
    by (simp add: quarantine_hold_def move_to_quarantine_def Let_def dict_simps)
  have "is_quarantine_file ?n" by (simp add: is_quarantine_file_def quarantine_name_def suffix_def)
  moreover have "(?n, c) \<in> set (dset ?n c (quarantine_dir fs))"
    by (rule map_of_SomeD) (simp add: dict_simps)
  ultimately have lq: "(?n, s, snapshot_hash sha s) \<in> set (list_quarantined sha ?fs')"
    using l by (force simp: list_quarantined_def)
  have "restore_quarantined sha True ?n ?fs' = (Inr s, fs)"
    using l c assms(2)
    by (simp add: restore_quarantined_def Let_def dict_simps load_hold_def dremove_dset)
  with q lq show ?thesis by auto
qed

theorem quarantine_restore_round_trip_witness:
  "\<exists>fs'. fst (restore_quarantined demo_digest True (quarantine_name demo_digest demo_snapshot) fs') = Inr demo_snapshot \<and>
     hold_file fs' = None"
proof -
  have "quarantine_name demo_digest demo_snapshot \<notin> set (dkeys (quarantine_dir demo_hold))"
    by (simp add: demo_hold_def empty_hold_def)
  from quarantine_restore_round_trip [OF demo_hold_load this, of None] show ?thesis by (metis fst_conv)
qed

end
