(* ===== verification/Scan_Flow.thy ===== *)
theory Scan_Flow
  imports Tray_Completion Preflight_Hold
begin

text \<open>
  What a scan does: \<open>_process_barcode_steps\<close> of \<open>Container_Audit.py\<close> with the methods around it, and the
  drain of the scans held while the central check of a label was pending.

  The code is a generator; its yielded operations are the constructors of \<open>scan_steps\<close>, with the rest of
  the generator for every outcome. Saving the state returns whether it was saved, and whether the window
  moved to another tray in the meantime. An event is logged at once (\<open>synchronous\<close>) or queued.
  Routes that start another workflow end the generator; their decision is modelled. Texts shown to the
  operator are the argument \<open>warning_notice\<close>.
\<close>

subsection \<open>Generators\<close>

datatype 'r scan_steps =
    Return 'r
  | SaveState json "bool \<times> bool \<Rightarrow> 'r scan_steps"
  | LogScan bool log_request "bool \<Rightarrow> 'r scan_steps"
  | DeleteState "bool \<Rightarrow> 'r scan_steps"
  | AckHead string "hold_error + hold_snapshot option \<Rightarrow> 'r scan_steps"

primrec scan_then :: "'a scan_steps \<Rightarrow> ('a \<Rightarrow> 'b scan_steps) \<Rightarrow> 'b scan_steps" where
  "scan_then (Return x) f = f x"
| "scan_then (SaveState st k) f = SaveState st (\<lambda>b. scan_then (k b) f)"
| "scan_then (LogScan sync r k) f = LogScan sync r (\<lambda>b. scan_then (k b) f)"
| "scan_then (DeleteState k) f = DeleteState (\<lambda>b. scan_then (k b) f)"
| "scan_then (AckHead i k) f = AckHead i (\<lambda>b. scan_then (k b) f)"

datatype scan_warning =
    FormatWarning scan_decision | MismatchWarning string | DuplicateWarning string | FullWarning | AmbiguousWarning
  | HeldWarning scan_decision held_scan

record scan_env =
  window :: completion_env
  code_length :: int
  catalog :: item_catalog
  contract_version :: string
  warning_notice :: "scan_warning \<Rightarrow> notice"

subsection \<open>Helpers of the window\<close>

definition show_fullscreen_warning :: "scan_env \<Rightarrow> scan_warning \<Rightarrow> owner \<Rightarrow> owner" where
  "show_fullscreen_warning E w o' =
     o'\<lparr>own_view := snd (present ((warning_notice E w)\<lparr>severity := ERROR, blocking := True\<rparr>) (own_view o'))\<rparr>"

text \<open>The request of \<open>_log_event(event, detail, idempotency_key, deduplicate)\<close>.\<close>

definition scan_request :: "scan_env \<Rightarrow> dt \<Rightarrow> string \<Rightarrow> json \<Rightarrow> string \<Rightarrow> bool \<Rightarrow> owner \<Rightarrow> log_request" where
  "scan_request E now event detail key once o' =
     \<lparr>req_event = event, req_detail = detail, req_canonical = None, req_key = key,
      req_time = isoformat (iso (window E)) now, req_log = own_log o', req_dedup = once, req_worker = own_worker o',
      req_test_tray = is_test_tray (own_tray o')\<rparr>"

definition save_scan :: "scan_env \<Rightarrow> dt \<Rightarrow> owner \<Rightarrow> 'r scan_steps \<Rightarrow> 'r scan_steps" where
  "save_scan E now o' rest =
     (if master_label_code (own_tray o') = [] then rest
      else SaveState (current_tray_state_snapshot (window E) now o') (\<lambda>_. rest))"

definition seconds_between :: "dt \<Rightarrow> dt \<Rightarrow> rat" where
  "seconds_between a b = of_int (micros_between a b) / 1000000"

definition format_seconds :: "rat \<Rightarrow> string" where
  "format_seconds q = (if q < 0 then ''-'' @ format_2f (- q) else format_2f q)"

definition wakeup_steps :: "scan_env \<Rightarrow> bool \<Rightarrow> dt \<Rightarrow> owner \<Rightarrow> owner scan_steps" where
  "wakeup_steps E context_blocks now o' =
     (if \<not> own_idle o' \<or> context_blocks then Return o'
      else let o1 = o'\<lparr>own_idle := False\<rparr> in
        if master_label_code (own_tray o1) = [] then Return (o1\<lparr>own_last_activity := Some now\<rparr>)
        else (case own_last_activity o1 of
            None \<Rightarrow> Return (o1\<lparr>own_last_activity := Some now\<rparr>)
          | Some t \<Rightarrow>
              let tr = own_tray o1;
                  o2 = o1\<lparr>own_tray := tr\<lparr>total_idle_seconds := add_idle (window E) (total_idle_seconds tr) (micros_between now t)\<rparr>\<rparr>
              in LogScan False (scan_request E now ''IDLE_END''
                     [(''duration_sec'', VStr (format_seconds (seconds_between now t)))] [] False o2)
                   (\<lambda>_. save_scan E now o2 (Return (o2\<lparr>own_last_activity := Some now\<rparr>)))))"

definition activity_steps :: "scan_env \<Rightarrow> bool \<Rightarrow> dt \<Rightarrow> owner \<Rightarrow> owner scan_steps" where
  "activity_steps E context_blocks now o' =
     scan_then (wakeup_steps E context_blocks now o') (\<lambda>o1. Return (o1\<lparr>own_last_activity := Some now\<rparr>))"

definition held_receipts :: "owner \<Rightarrow> owner" where
  "held_receipts o' = o'\<lparr>own_tray := (own_tray o')\<lparr>preflight_scan_receipts := live_receipts (own_tray o')\<rparr>\<rparr>"

definition add_scanned_barcode :: "string \<Rightarrow> dt \<Rightarrow> owner \<Rightarrow> owner" where
  "add_scanned_barcode barcode t o' =
     o'\<lparr>own_tray := (own_tray o')\<lparr>scanned_barcodes := scanned_barcodes (own_tray o') @ [barcode],
                                scan_times := scan_times (own_tray o') @ [t]\<rparr>\<rparr>"

definition count_error :: "owner \<Rightarrow> owner" where
  "count_error o' = o'\<lparr>own_tray := (own_tray o')\<lparr>mismatch_error_count := mismatch_error_count (own_tray o') + 1,
     has_error_or_reset := True\<rparr>\<rparr>"

subsection \<open>A product scan\<close>

definition product_decision :: "scan_env \<Rightarrow> string \<Rightarrow> tray_session \<Rightarrow> py_exception + scan_decision" where
  "product_decision E raw tr = decide_product_admission (sha256 (window E)) raw (item_code tr)
     (VList (map VStr (scanned_barcodes tr))) (VInt (tray_size tr)) (VInt (code_length E))"

definition catalog_decision :: "scan_env \<Rightarrow> string \<Rightarrow> tray_session \<Rightarrow> scan_decision" where
  "catalog_decision E raw tr = decide_catalog_product_match (item_code tr) raw (matching_codes_in_barcode (catalog E) raw)"

datatype scan_result = ScanRefused | ScanRaised | ScanDone bool

text \<open>A refused scan: a warning, the queued event, the saved error count.\<close>

definition refuse_scan :: "scan_env \<Rightarrow> dt \<Rightarrow> scan_warning \<Rightarrow> scan_decision \<Rightarrow> owner \<Rightarrow> (scan_result \<times> owner) scan_steps" where
  "refuse_scan E now w d o' =
     (let o1 = show_fullscreen_warning E w o'
      in LogScan False (scan_request E now (event_name d) (event_detail d) [] False o1)
           (\<lambda>_. save_scan E now o1 (Return (ScanRefused, o1))))"

definition append_at :: "string \<Rightarrow> pyval \<Rightarrow> json \<Rightarrow> json" where
  "append_at k v d = (case vget d k of VList vs \<Rightarrow> dset k (VList (vs @ [v])) d | _ \<Rightarrow> d)"

definition set_receipt :: "string \<Rightarrow> string \<Rightarrow> json \<Rightarrow> json" where
  "set_receipt barcode sid d = (case vget_default d ''preflight_scan_receipts'' (VDict []) of
       VDict r \<Rightarrow> dset ''preflight_scan_receipts'' (VDict (dset barcode (VStr sid) r)) d
     | _ \<Rightarrow> d)"

text \<open>The state that is made durable before the tray changes.\<close>

definition state_with_scan :: "scan_env \<Rightarrow> dt \<Rightarrow> string \<Rightarrow> string \<Rightarrow> owner \<Rightarrow> json" where
  "state_with_scan E now raw sid o' =
     (let st = append_at ''scan_times'' (VStr (isoformat (iso (window E)) now))
                 (append_at ''scanned_barcodes'' (VStr raw) (current_tray_state_snapshot (window E) now o'))
      in if sid = [] then st else set_receipt raw sid st)"

definition interval_of :: "dt \<Rightarrow> tray_session \<Rightarrow> rat" where
  "interval_of now tr = (if scan_times tr = [] then 0 else max 0 (seconds_between now (last (scan_times tr))))"

text \<open>The tray after an accepted scan, and the notice area.\<close>

definition owner_with_scan :: "dt \<Rightarrow> string \<Rightarrow> string \<Rightarrow> owner \<Rightarrow> owner" where
  "owner_with_scan now raw sid o' =
     (let o1 = o'\<lparr>own_view := snd (clear_notice (snd (record_normal_scan raw (own_view o'))))\<rparr>;
          o2 = add_scanned_barcode raw now o1
      in if sid = [] then o2
         else let o3 = held_receipts o2
           in o3\<lparr>own_tray := (own_tray o3)\<lparr>preflight_scan_receipts := dset raw sid (preflight_scan_receipts (own_tray o3))\<rparr>\<rparr>)"

definition scan_ok_detail :: "scan_env \<Rightarrow> string \<Rightarrow> rat \<Rightarrow> int \<Rightarrow> payload_error + json" where
  "scan_ok_detail E raw interval position =
     build_scan_ok_detail raw (VFloat (FFin interval [])) position (contract_version E)"

definition held_scan_key :: "string \<Rightarrow> string" where
  "held_scan_key sid = (if sid = [] then [] else ''preflight-held-scan:'' @ sid)"

definition accept_scan :: "scan_env \<Rightarrow> dt \<Rightarrow> bool \<Rightarrow> string \<Rightarrow> string \<Rightarrow> owner \<Rightarrow> (scan_result \<times> owner) scan_steps" where
  "accept_scan E now durable_log sid raw o' =
     SaveState (state_with_scan E now raw sid o') (\<lambda>(saved, stale).
       if stale \<or> \<not> saved then Return (ScanDone False, o')
       else let o1 = owner_with_scan now raw sid o'
         in (case scan_ok_detail E raw (interval_of now (own_tray o')) (int (length (scanned_barcodes (own_tray o1)))) of
               Inl e \<Rightarrow> Return (ScanRaised, o1)
             | Inr detail \<Rightarrow> LogScan durable_log (scan_request E now ''SCAN_OK'' detail (held_scan_key sid) (sid \<noteq> []) o1)
                 (\<lambda>audit. Return (ScanDone audit, o1))))"

text \<open>\<open>given\<close> is the catalog decision a held scan brings along.\<close>

definition product_scan_steps ::
  "scan_env \<Rightarrow> dt \<Rightarrow> bool \<Rightarrow> string \<Rightarrow> scan_decision option \<Rightarrow> string \<Rightarrow> owner \<Rightarrow> (scan_result \<times> owner) scan_steps" where
  "product_scan_steps E now durable_log sid given raw o' =
     (case product_decision E raw (own_tray o') of
        Inl e \<Rightarrow> Return (ScanRaised, o')
      | Inr d \<Rightarrow>
          if status d = SCAN_FORMAT_ERROR then
            (let o1 = show_fullscreen_warning E (FormatWarning d) o'
             in if event_name d = [] then Return (ScanRefused, o1)
                else LogScan False (scan_request E now (event_name d) (event_detail d) [] False o') (\<lambda>_. Return (ScanRefused, o1)))
          else if status d = SCAN_MISMATCH then
            refuse_scan E now (MismatchWarning (item_code (own_tray o'))) d (count_error o')
          else if status d = SCAN_DUPLICATE then refuse_scan E now (DuplicateWarning raw) d (count_error o')
          else if status d = SCAN_TRAY_FULL then refuse_scan E now FullWarning d o'
          else let c = (case given of None \<Rightarrow> catalog_decision E raw (own_tray o') | Some c \<Rightarrow> c)
            in if \<not> accepted c then
                 refuse_scan E now (if event_name c = ''SCAN_FAIL_AMBIGUOUS_ITEM_CODE'' then AmbiguousWarning
                   else MismatchWarning (item_code (own_tray o'))) c (count_error o')
               else accept_scan E now durable_log sid raw o')"

subsection \<open>Where a scan goes\<close>

record scan_flags =
  closing :: bool
  switch_pending :: bool
  preflight_pending :: bool
  offline_switch :: bool
  replacing :: bool
  test_command :: bool
  reconciles :: bool
  context_blocks :: bool

datatype scan_route =
    RouteEmpty | RouteClosing | RouteSwitching | RouteHold | RouteLookupFailed | RouteBlocked | RouteReplacement
  | RouteTest | RouteReconcile | RoutePhsLabel | RouteLabel | RouteProduct

definition lookup_failed_other :: "qr_codecs \<Rightarrow> string \<Rightarrow> hold_snapshot option \<Rightarrow> owner \<Rightarrow> bool" where
  "lookup_failed_other C raw hold o' \<longleftrightarrow> master_label_code (own_tray o') = [] \<and>
     (case hold of None \<Rightarrow> False
      | Some s \<Rightarrow> hold_state s = HOLD_LOOKUP_FAILED \<and>
          normalize_master_label_input C raw \<noteq> normalize_master_label_input C (master_raw s))"

text \<open>The gates before the activity is noted.\<close>

definition early_route :: "scan_env \<Rightarrow> scan_flags \<Rightarrow> string \<Rightarrow> hold_snapshot option \<Rightarrow> owner \<Rightarrow> scan_route option" where
  "early_route E f raw hold o' =
     (if raw = [] then Some RouteEmpty
      else if closing f then Some RouteClosing
      else if switch_pending f then Some RouteSwitching
      else if preflight_pending f \<and> \<not> offline_switch f then Some RouteHold
      else if lookup_failed_other (codecs (window E)) raw hold o' then Some RouteLookupFailed
      else if is_blocking (own_view o') then Some RouteBlocked
      else if replacing f then Some RouteReplacement
      else None)"

definition is_phs2_label :: "qr_codecs \<Rightarrow> string \<Rightarrow> bool" where
  "is_phs2_label C raw \<longleftrightarrow> is_phs2 (qr_fields C (normalize_master_label_input C raw))"

definition late_route :: "scan_env \<Rightarrow> scan_flags \<Rightarrow> string \<Rightarrow> owner \<Rightarrow> scan_route" where
  "late_route E f raw o' =
     (if test_command f then RouteTest
      else if reconciles f then RouteReconcile
      else if master_label_code (own_tray o') \<noteq> [] \<and> is_phs2_label (codecs (window E)) raw then RoutePhsLabel
      else if master_label_code (own_tray o') = [] then RouteLabel
      else RouteProduct)"

datatype barcode_result = Routed scan_route | Scanned scan_result

definition process_barcode_steps ::
  "scan_env \<Rightarrow> scan_flags \<Rightarrow> dt \<Rightarrow> hold_snapshot option \<Rightarrow> bool \<Rightarrow> string \<Rightarrow> scan_decision option \<Rightarrow> string \<Rightarrow> owner \<Rightarrow>
     (barcode_result \<times> owner) scan_steps" where
  "process_barcode_steps E f now hold durable_log sid given raw o' =
     (case early_route E f raw hold o' of
        Some r \<Rightarrow> Return (Routed r, o')
      | None \<Rightarrow> scan_then (activity_steps E (context_blocks f) now o') (\<lambda>o1.
          case late_route E f raw o1 of
            RouteProduct \<Rightarrow> scan_then (product_scan_steps E now durable_log sid given raw o1) (\<lambda>(r, o2). Return (Scanned r, o2))
          | r \<Rightarrow> Return (Routed r, o1)))"

subsection \<open>A label scan\<close>

text \<open>
  What the stores answer about a label: the waiting offline holds, whether a pair of originals blocks it,
  the parked work bound to it (\<open>ParkedWork\<close> with whether it needs the administrator and its worker).
\<close>

datatype parked_lookup = ParkedUnreadable | ParkedNone | ParkedWork bool string

record label_lookup =
  waiting_holds :: "hold_snapshot list"
  pair_blocks :: "bool \<Rightarrow> bool"
  parked_work :: parked_lookup
  restore_confirmed :: bool
  compact_valid :: "fields \<Rightarrow> bool"
  default_quantity :: int

datatype label_outcome =
    AlreadyCompleted | PairHeld | ParkedEvidenceUnreadable | ParkedNeedsAdmin | ParkedByOther string
  | RestoreParked | RestoreDeclined | NoItemCode | UnknownItem string | HoldOfOther | LabelError | QueueOffline
  | RestoreHold | BeginPreflight catalog_row | BadQuantity | BadStartCode | Activate string string int catalog_row

definition is_completed_master_label :: "qr_codecs \<Rightarrow> string list \<Rightarrow> string \<Rightarrow> bool" where
  "is_completed_master_label C completed label \<longleftrightarrow> label \<noteq> [] \<and>
     (label \<in> set completed \<or> canonical_master_label_key C label \<in> set completed \<or>
      list_ex (\<lambda>l. canonical_master_label_key C l = canonical_master_label_key C label) completed)"

definition waiting_hold :: "qr_codecs \<Rightarrow> string \<Rightarrow> hold_snapshot list \<Rightarrow> hold_snapshot option" where
  "waiting_hold C barcode holds =
     (case filter (\<lambda>h. canonical_master_label_key C (master_raw h) = canonical_master_label_key C barcode) holds of
        [h] \<Rightarrow> Some h
      | _ \<Rightarrow> None)"

text \<open>The part inside the \<open>try\<close>, for a label with fields.\<close>

definition start_label :: "scan_env \<Rightarrow> scan_flags \<Rightarrow> label_lookup \<Rightarrow> hold_snapshot option \<Rightarrow> string \<Rightarrow> fields \<Rightarrow> owner \<Rightarrow> label_outcome" where
  "start_label E f L hold barcode fs o' =
     (let item = inspection_master_item_code fs;
          me = persistent_operator_name (admin_display (writer (window E))) (own_worker o')
      in if item = [] then NoItemCode
         else case find_by_code (catalog E) item of
             None \<Rightarrow> UnknownItem item
           | Some row \<Rightarrow>
               if (case hold of None \<Rightarrow> False | Some h \<Rightarrow> hold_worker h \<noteq> me) then HoldOfOther
               else if offline_switch f then
                 (if (if is_phs2 fs then compact_valid L fs
                      else parse_positive_quantity fs (Some (default_quantity L)) \<noteq> None) then QueueOffline else LabelError)
               else if hold \<noteq> None then RestoreHold
               else if is_phs2 fs then BeginPreflight row
               else case parse_positive_quantity fs (Some (default_quantity L)) of
                   None \<Rightarrow> BadQuantity
                 | Some n \<Rightarrow> Activate barcode item n row)"

definition label_scan :: "scan_env \<Rightarrow> scan_flags \<Rightarrow> label_lookup \<Rightarrow> string \<Rightarrow> owner \<Rightarrow> label_outcome" where
  "label_scan E f L raw o' =
     (let C = codecs (window E); barcode = normalize_master_label_input C raw; fs = qr_fields C barcode;
          me = persistent_operator_name (admin_display (writer (window E))) (own_worker o')
      in if fs \<noteq> [] then
           (if is_completed_master_label C (own_labels o') barcode then AlreadyCompleted
            else let hold = waiting_hold C barcode (waiting_holds L)
              in if pair_blocks L (hold \<noteq> None) then PairHeld
                 else (case parked_work L of
                     ParkedUnreadable \<Rightarrow> ParkedEvidenceUnreadable
                   | ParkedWork admin worker \<Rightarrow>
                       if admin then ParkedNeedsAdmin
                       else if worker \<noteq> [] \<and> worker \<noteq> me then ParkedByOther worker
                       else if restore_confirmed L then RestoreParked else RestoreDeclined
                   | ParkedNone \<Rightarrow> start_label E f L hold barcode fs o'))
         else if \<not> is_start_item_code barcode (code_length E) then BadStartCode
         else case find_by_code (catalog E) barcode of
             None \<Rightarrow> UnknownItem barcode
           | Some row \<Rightarrow> Activate barcode barcode (default_quantity L) row)"

subsection \<open>Draining the held scans\<close>

definition preflight_held_scan_decision :: "scan_env \<Rightarrow> string \<Rightarrow> tray_session \<Rightarrow> py_exception + scan_decision" where
  "preflight_held_scan_decision E raw tr =
     (if qr_fields (codecs (window E)) raw \<noteq> []
      then Inr \<lparr>status = SCAN_FORMAT_ERROR, event_name = ''SCAN_FAIL_FORMAT'',
             event_detail = [(''raw_barcode'', VStr raw), (''reason'', VStr ''master_label_scanned_as_product''),
               (''item_code_length'', VInt (code_length E))]\<rparr>
      else rbind (product_decision E raw tr) (\<lambda>d.
        if status d \<noteq> SCAN_ACCEPTED then Inr d else Inr (catalog_decision E raw tr)))"

definition held_reject_key :: "string \<Rightarrow> string" where
  "held_reject_key sid = ''preflight-held-reject:'' @ sid"

definition durably_reject_preflight_hold_head ::
  "scan_env \<Rightarrow> dt \<Rightarrow> held_scan \<Rightarrow> scan_decision \<Rightarrow> owner \<Rightarrow> (bool \<times> owner) scan_steps" where
  "durably_reject_preflight_hold_head E now head d o' =
     (let o1 = show_fullscreen_warning E (HeldWarning d head) o'
      in if event_name d = [] then Return (False, o1)
         else LogScan True (scan_request E now (event_name d) (event_detail d) (held_reject_key (scan_id head)) True o1)
           (\<lambda>durable. Return (durable, o1)))"

text \<open>\<open>current_barcodes.index(raw)\<close>\<close>

definition position_of :: "string \<Rightarrow> string list \<Rightarrow> nat" where
  "position_of b bs = length (takeWhile (\<lambda>x. x \<noteq> b) bs)"

definition persist_existing_held_scan_audit ::
  "scan_env \<Rightarrow> dt \<Rightarrow> string \<Rightarrow> string \<Rightarrow> owner \<Rightarrow> (scan_result \<times> owner) scan_steps" where
  "persist_existing_held_scan_audit E now raw sid o' =
     (let tr = own_tray o'; i = position_of raw (scanned_barcodes tr);
          interval = (if 0 < i \<and> i < length (scan_times tr)
            then max 0 (seconds_between (scan_times tr ! i) (scan_times tr ! (i - 1))) else 0)
      in case scan_ok_detail E raw interval (int i + 1) of
           Inl e \<Rightarrow> Return (ScanRaised, o')
         | Inr detail \<Rightarrow> LogScan True (scan_request E now ''SCAN_OK'' detail (held_scan_key sid) True o')
             (\<lambda>ok. Return (ScanDone ok, o')))"

definition is_counted :: "held_scan \<Rightarrow> tray_session \<Rightarrow> bool" where
  "is_counted x tr \<longleftrightarrow> raw_barcode x \<in> set (scanned_barcodes tr) \<and> dget (live_receipts tr) (raw_barcode x) = Some (scan_id x)"

text \<open>The head is counted, refused or left; the flag says whether it may be acknowledged.\<close>

definition settle_head :: "scan_env \<Rightarrow> scan_flags \<Rightarrow> dt \<Rightarrow> hold_snapshot \<Rightarrow> held_scan \<Rightarrow> owner \<Rightarrow> (bool \<times> owner) scan_steps" where
  "settle_head E f now s head o' =
     (if is_counted head (own_tray o') then
        scan_then (persist_existing_held_scan_audit E now (raw_barcode head) (scan_id head) (held_receipts o'))
          (\<lambda>(r, o1). Return (r = ScanDone True, o1))
      else let o1 = held_receipts o' in
        (case preflight_held_scan_decision E (raw_barcode head) (own_tray o1) of
           Inl e \<Rightarrow> Return (False, o1)
         | Inr d \<Rightarrow>
             if status d \<noteq> SCAN_ACCEPTED then durably_reject_preflight_hold_head E now head d o1
             else scan_then (process_barcode_steps E (f\<lparr>context_blocks := True\<rparr>) now (Some s) True (scan_id head) (Some d) (raw_barcode head) o1)
               (\<lambda>(r, o2). let bs = scanned_barcodes (own_tray o2) in
                  Return (r = Scanned (ScanDone True) \<and> length bs = length (scanned_barcodes (own_tray o1)) + 1 \<and>
                      last bs = raw_barcode head \<and> is_counted head (own_tray o2), held_receipts o2))))"

datatype drain_result = Drained | Advanced | Stopped

definition drain_preflight_hold_steps ::
  "scan_env \<Rightarrow> scan_flags \<Rightarrow> dt \<Rightarrow> owner \<times> hold_snapshot option \<Rightarrow> (drain_result \<times> owner \<times> hold_snapshot option) scan_steps" where
  "drain_preflight_hold_steps E f now = (\<lambda>(o', hold).
     case hold of
       None \<Rightarrow> Return (Drained, o', hold)
     | Some s \<Rightarrow> (case items s of
           [] \<Rightarrow> Return (Drained, o', hold)
         | head # rest \<Rightarrow>
             if hold_state s \<noteq> HOLD_DRAINING \<or> is_blocking (own_view o') then Return (Stopped, o', hold)
             else scan_then (settle_head E f now s head o') (\<lambda>(ok, o1).
               if \<not> ok then Return (Stopped, o1, hold)
               else AckHead (scan_id head) (\<lambda>r. case r of
                   Inl e \<Rightarrow> Return (Stopped, o1, hold)
                 | Inr updated \<Rightarrow> Return (Advanced, o1, updated)))))"

subsection \<open>Undoing a scan, starting over\<close>

definition without_last_scan :: "owner \<Rightarrow> owner" where
  "without_last_scan o' = o'\<lparr>own_tray := (own_tray o')\<lparr>scanned_barcodes := butlast (scanned_barcodes (own_tray o')),
     scan_times := butlast (scan_times (own_tray o'))\<rparr>\<rparr>"

definition sync_last_normal_scan :: "bool \<Rightarrow> owner \<Rightarrow> owner" where
  "sync_last_normal_scan clear_when_inactive o' =
     (if master_label_code (own_tray o') = [] then
        (if clear_when_inactive then o'\<lparr>own_view := snd (clear_last_normal_scan (own_view o'))\<rparr> else o')
      else let v = snd (clear_last_normal_scan (own_view o')); bs = scanned_barcodes (own_tray o')
        in o'\<lparr>own_view := (if bs = [] then v else snd (record_normal_scan (last bs) v))\<rparr>)"

lemma sync_last_normal_scan_tray [simp]: "own_tray (sync_last_normal_scan b o') = own_tray o'"
  by (simp add: sync_last_normal_scan_def Let_def)

text \<open>The guards shared by the two actions: a hold, a blocking completion, a member exchange.\<close>

definition action_blocked :: "scan_flags \<Rightarrow> bool \<Rightarrow> owner \<Rightarrow> bool" where
  "action_blocked f exchange_blocks o' \<longleftrightarrow> context_blocks f \<or> operator_review_blocks_mutation o' \<or> exchange_blocks"

text \<open>\<open>True\<close> when the scan was taken back; a save without a label is a save that failed.\<close>

definition undo_last_scan :: "scan_env \<Rightarrow> scan_flags \<Rightarrow> bool \<Rightarrow> dt \<Rightarrow> owner \<Rightarrow> (bool \<times> owner) scan_steps" where
  "undo_last_scan E f exchange_blocks now o' =
     (if action_blocked f exchange_blocks o' then Return (False, o')
      else scan_then (activity_steps E (context_blocks f) now o') (\<lambda>o1.
        if scanned_barcodes (own_tray o1) = [] then Return (False, o1)
        else let o2 = without_last_scan o1 in
          if master_label_code (own_tray o2) = [] then Return (False, o1)
          else SaveState (current_tray_state_snapshot (window E) now o2) (\<lambda>(saved, _).
            if \<not> saved then Return (False, o1)
            else LogScan True (scan_request E now ''SCAN_UNDO''
                   [(''undone_barcode'', VStr (last (scanned_barcodes (own_tray o1))))] [] False o2) (\<lambda>logged.
              if logged then Return (True, sync_last_normal_scan False o2)
              else SaveState (current_tray_state_snapshot (window E) now o1) (\<lambda>_. Return (False, o1))))))"

definition reset_detail :: "owner \<Rightarrow> json" where
  "reset_detail o' = [(''master_label_code'', VStr (master_label_code (own_tray o'))),
     (''scan_count_at_reset'', VInt (int (length (scanned_barcodes (own_tray o')))))]"

definition reset_current_work ::
  "scan_env \<Rightarrow> scan_flags \<Rightarrow> bool \<Rightarrow> bool \<Rightarrow> bool \<Rightarrow> dt \<Rightarrow> owner \<Rightarrow> (bool \<times> owner) scan_steps" where
  "reset_current_work E f exchanging_label exchange_blocks confirmed now o' =
     (if exchanging_label \<or> action_blocked f exchange_blocks o' then Return (False, o')
      else scan_then (activity_steps E (context_blocks f) now o') (\<lambda>o1.
        if master_label_code (own_tray o1) = [] \<or> \<not> confirmed then Return (False, o1)
        else DeleteState (\<lambda>deleted.
          if \<not> deleted then LogScan False (scan_request E now ''TRAY_RESET_STATE_DELETE_FAILED'' (reset_detail o1) [] False o1)
            (\<lambda>_. Return (False, o1))
          else LogScan True (scan_request E now ''TRAY_RESET'' (reset_detail o1) [] False o1) (\<lambda>logged.
            if logged then Return (True, (sync_last_normal_scan True (o1\<lparr>own_tray := fresh_tray\<rparr>))\<lparr>own_idle := True\<rparr>)
            else SaveState (current_tray_state_snapshot (window E) now o1) (\<lambda>_. Return (False, o1))))))"

end
