(* ===== verification/Hold_Drain.thy ===== *)
theory Hold_Drain
  imports Scan_Flow
begin

text \<open>
  Runs of the drain of \<open>Scan_Flow\<close>: every operation with every outcome, the program stopping at any yield,
  restarts from the tray state file and the hold file. Every held scan is settled: counted in the
  tray with one event, or refused with one event, before it leaves the hold.
\<close>

subsection \<open>Running a generator\<close>

text \<open>What survives the program.\<close>

record station =
  state_file :: "json option"
  hold_store :: hold_fs
  event_logs :: log_files

text \<open>
  A window that moved on to another tray while the state was saved does not continue the drain: for it
  this is a stop of the program.
\<close>

inductive scan_exec :: "scan_env \<Rightarrow> (string \<Rightarrow> string) \<Rightarrow> 'r scan_steps \<Rightarrow> station \<Rightarrow> 'r scan_steps \<Rightarrow> station \<Rightarrow> bool"
  for E sha where
  saved: "scan_exec E sha (SaveState st k) w (k (True, False)) (w\<lparr>state_file := Some st\<rparr>)"
| not_saved: "scan_exec E sha (SaveState st k) w (k (False, False)) w"
| logged: "log_event_sync (writer (window E)) flushed out r (event_logs w) = ((ok, found), files) \<Longrightarrow>
    scan_exec E sha (LogScan True r k) w (k ok) (w\<lparr>event_logs := files\<rparr>)"
| queued: "scan_exec E sha (LogScan False r k) w (k b) w"
| deleted: "scan_exec E sha (DeleteState k) w (k True) (w\<lparr>state_file := None\<rparr>)"
| not_deleted: "scan_exec E sha (DeleteState k) w (k False) w"
| acked: "clean_text stamp \<Longrightarrow> ack_head sha io stamp sid (hold_store w) = (r, fs) \<Longrightarrow>
    scan_exec E sha (AckHead sid k) w (k r) (w\<lparr>hold_store := fs\<rparr>)"

inductive scan_execs :: "scan_env \<Rightarrow> (string \<Rightarrow> string) \<Rightarrow> 'r scan_steps \<Rightarrow> station \<Rightarrow> 'r scan_steps \<Rightarrow> station \<Rightarrow> bool"
  for E sha where
  here: "scan_execs E sha p w p w"
| more: "scan_execs E sha p w p1 w1 \<Longrightarrow> scan_exec E sha p1 w1 p2 w2 \<Longrightarrow> scan_execs E sha p w p2 w2"

text \<open>
  \<open>always E sha I Q p w\<close>: whatever the outcomes, \<open>I\<close> holds of the station at every yield of \<open>p\<close> started
  in \<open>w\<close>, and \<open>Q\<close> of the result.
\<close>

primrec always :: "scan_env \<Rightarrow> (string \<Rightarrow> string) \<Rightarrow> (station \<Rightarrow> bool) \<Rightarrow> ('r \<Rightarrow> station \<Rightarrow> bool) \<Rightarrow> 'r scan_steps \<Rightarrow> station \<Rightarrow> bool" where
  "always E sha I Q (Return x) = (\<lambda>w. I w \<and> Q x w)"
| "always E sha I Q (SaveState st k) = (\<lambda>w. I w \<and> always E sha I Q (k (False, False)) w \<and>
     always E sha I Q (k (True, False)) (w\<lparr>state_file := Some st\<rparr>))"
| "always E sha I Q (LogScan sync r k) = (\<lambda>w. I w \<and>
     (if sync then \<forall>flushed out ok found files.
        log_event_sync (writer (window E)) flushed out r (event_logs w) = ((ok, found), files) \<longrightarrow>
        always E sha I Q (k ok) (w\<lparr>event_logs := files\<rparr>)
      else \<forall>b. always E sha I Q (k b) w))"
| "always E sha I Q (DeleteState k) = (\<lambda>w. I w \<and> always E sha I Q (k False) w \<and> always E sha I Q (k True) (w\<lparr>state_file := None\<rparr>))"
| "always E sha I Q (AckHead sid k) = (\<lambda>w. I w \<and> (\<forall>io stamp r fs. clean_text stamp \<longrightarrow>
     ack_head sha io stamp sid (hold_store w) = (r, fs) \<longrightarrow> always E sha I Q (k r) (w\<lparr>hold_store := fs\<rparr>)))"

lemma always_now: "always E sha I Q p w \<Longrightarrow> I w"
  by (cases p) auto

lemma always_exec: "scan_exec E sha p w p' w' \<Longrightarrow> always E sha I Q p w \<Longrightarrow> always E sha I Q p' w'"
  by (induction rule: scan_exec.induct) auto

lemma always_execs: "scan_execs E sha p w p' w' \<Longrightarrow> always E sha I Q p w \<Longrightarrow> always E sha I Q p' w'"
  by (induction rule: scan_execs.induct) (auto dest: always_exec)

lemma always_then:
  "always E sha I (\<lambda>x w. always E sha I Q (f x) w) m w \<Longrightarrow> always E sha I Q (scan_then m f) w"
  by (induction m arbitrary: w) (auto split: if_splits)

lemma always_mono: "always E sha I Q p w \<Longrightarrow> (\<And>x w. Q x w \<Longrightarrow> I w \<Longrightarrow> Q' x w) \<Longrightarrow> always E sha I Q' p w"
  by (induction p arbitrary: w) (auto split: if_splits)

subsection \<open>Events under a key\<close>

definition rows_of :: "log_files \<Rightarrow> string \<Rightarrow> string \<Rightarrow> string \<Rightarrow> nat" where
  "rows_of files path ev key = length (matching ev key (rows_at files path))"

text \<open>A call that looks for its key first: no key gets a second row, and success leaves one.\<close>

lemma row_match_iff:
  "row_match ev key row = Some d \<longleftrightarrow> strip (row_event row) = ev \<and> row_details row = Some (VDict d) \<and> details_key d = key"
  by (auto simp: row_match_def split: option.splits bind_splits if_splits)

lemma keyed_log_rows:
  assumes "log_event_sync W flushed out r files = ((ok, found), files')" "strip (req_key r) \<noteq> []" "req_dedup r"
    "rows_of files path ev key \<le> 1"
  shows "rows_of files' path ev key \<le> 1 \<and> rows_of files path ev key \<le> rows_of files' path ev key"
proof (cases "files' = files")
  case False
  let ?path = "path_text (target_log W r)" and ?ev = "strip (redact_protected_admin_identity (req_event r))"
  from False log_event_effect [OF assms(1)] assms(2,3) obtain row d where
    row: "event_row W r = Some row" "files' = put_row ?path row files" "matching ?ev (strip (req_key r)) (rows_at files ?path) = []"
      "row_details row = Some (VDict d)" "details_key d = strip (req_key r)"
    by auto
  have ev: "strip (row_event row) = ?ev" using event_row_key [OF row(1) assms(2)] by simp
  show ?thesis
  proof (cases "path = ?path \<and> ev = ?ev \<and> key = strip (req_key r)")
    case True
    with row show ?thesis by (simp add: rows_of_def) (simp add: matching_def)
  next
    case no: False
    then have "path \<noteq> ?path \<or> row_match ev key row = None"
      using row(4,5) ev by (auto simp: row_match_def)
    with assms(4) row(2) show ?thesis by (auto simp: rows_of_def matching_def)
  qed
qed (use assms in simp)

lemma keyed_log_written:
  assumes "log_event_sync W flushed out r files = ((True, found), files')" "strip (req_key r) \<noteq> []" "req_dedup r"
  shows "0 < rows_of files' (path_text (target_log W r)) (strip (redact_protected_admin_identity (req_event r))) (strip (req_key r))"
proof -
  let ?path = "path_text (target_log W r)" and ?ev = "redact_protected_admin_identity (req_event r)"
  from assms obtain row b where row: "event_row W r = Some row"
    "append_event_log_entry_idempotent out ?path row ?ev (req_key r) files = (Inr b, files')"
    by (auto simp: log_event_sync_def split: option.splits if_splits prod.splits sum.splits)
  then obtain d where "check_idempotent_entry (strip ?ev) (strip (req_key r)) row = Inr d"
    by (auto simp: append_event_log_entry_idempotent_def Let_def split: sum.splits)
  from checked_entry_matches [OF this] row(2)
  have "\<exists>x \<in> set (rows_at files' ?path). row_match (strip ?ev) (strip (req_key r)) x \<noteq> None"
    by (auto simp: append_event_log_entry_idempotent_def Let_def append_unlocked_eq rows_at_def put_row_def with_row_def
        split: option.splits sum.splits bool.splits if_splits dest!: find_projection_True)
  then show ?thesis by (auto simp: rows_of_def matching_def filter_empty_conv)
qed

subsection \<open>What is saved before a scan is counted\<close>

definition tray_keys :: "string list" where
  "tray_keys = [''master_label_code'', ''active_label_qr_payload'', ''canonical_input_tag_qr'', ''active_label_id'',
     ''active_label_business_date'', ''active_label_worker_code'', ''operation_lease_id'', ''item_code'', ''item_name'',
     ''item_spec'', ''scanned_barcodes'', ''scan_times'', ''preflight_scan_receipts'', ''tray_size'', ''mismatch_error_count'',
     ''start_time'', ''has_error_or_reset'', ''is_test_tray'', ''is_partial_submission'']"

definition untimed :: "tray_session \<Rightarrow> tray_session" where
  "untimed t = t\<lparr>total_idle_seconds := VNone, stopwatch_seconds := VNone\<rparr>"

lemma from_state_cong:
  assumes "\<And>k. k \<in> set tray_keys \<Longrightarrow> dget s k = dget s' k"
  shows "map_option untimed (tray_session_from_state C L n s) = map_option untimed (tray_session_from_state C L n s')"
proof -
  have v: "vget s k = vget s' k" "vget_default s k d = vget_default s' k d" if "k \<in> set tray_keys" for k d
    using assms [OF that] by (simp_all add: vget_def vget_default_def)
  have keys: "k \<in> set (dkeys s) \<longleftrightarrow> k \<in> set (dkeys s')" if "k \<in> set tray_keys" for k
    using assms [OF that] dget_None_iff by metis
  have start: "restored_start L s = restored_start L s'"
    using v [of "''start_time''"] keys [of "''start_time''"] by (simp add: restored_start_def tray_keys_def)
  have e: "\<And>d. vget_default s ''active_label_qr_payload'' d = vget_default s' ''active_label_qr_payload'' d"
    "\<And>d. vget_default s ''canonical_input_tag_qr'' d = vget_default s' ''canonical_input_tag_qr'' d"
    "\<And>d. vget_default s ''active_label_id'' d = vget_default s' ''active_label_id'' d"
    "\<And>d. vget_default s ''active_label_business_date'' d = vget_default s' ''active_label_business_date'' d"
    "\<And>d. vget_default s ''active_label_worker_code'' d = vget_default s' ''active_label_worker_code'' d"
    "\<And>d. vget_default s ''operation_lease_id'' d = vget_default s' ''operation_lease_id'' d"
    "\<And>d. vget_default s ''item_code'' d = vget_default s' ''item_code'' d"
    "\<And>d. vget_default s ''item_name'' d = vget_default s' ''item_name'' d"
    "\<And>d. vget_default s ''item_spec'' d = vget_default s' ''item_spec'' d"
    "\<And>d. vget_default s ''preflight_scan_receipts'' d = vget_default s' ''preflight_scan_receipts'' d"
    "\<And>d. vget_default s ''tray_size'' d = vget_default s' ''tray_size'' d"
    "\<And>d. vget_default s ''mismatch_error_count'' d = vget_default s' ''mismatch_error_count'' d"
    "\<And>d. vget_default s ''has_error_or_reset'' d = vget_default s' ''has_error_or_reset'' d"
    "\<And>d. vget_default s ''is_test_tray'' d = vget_default s' ''is_test_tray'' d"
    "\<And>d. vget_default s ''is_partial_submission'' d = vget_default s' ''is_partial_submission'' d"
    "vget s ''master_label_code'' = vget s' ''master_label_code''" "vget s ''scanned_barcodes'' = vget s' ''scanned_barcodes''"
    "vget s ''scan_times'' = vget s' ''scan_times''"
    by (intro v, simp add: tray_keys_def)+
  show ?thesis
    unfolding tray_session_from_state_def start list.map prod.case e
    by (simp add: untimed_def split: option.splits list.splits prod.splits)
qed

text \<open>The same work on the same tray: label, product, scans, receipts.\<close>

definition same_work :: "tray_session \<Rightarrow> tray_session \<Rightarrow> bool" where
  "same_work a b \<longleftrightarrow> master_label_code a = master_label_code b \<and> item_code a = item_code b \<and> tray_size a = tray_size b \<and>
     scanned_barcodes a = scanned_barcodes b \<and> scan_times a = scan_times b \<and> start_time a = start_time b \<and>
     is_test_tray a = is_test_tray b \<and> dget (live_receipts a) = dget (live_receipts b)"

lemma same_work_refl [simp]: "same_work t t"
  by (simp add: same_work_def)

lemma same_work_sym: "same_work a b \<Longrightarrow> same_work b a"
  by (simp add: same_work_def)

lemma same_work_trans: "same_work a b \<Longrightarrow> same_work b c \<Longrightarrow> same_work a c"
  by (simp add: same_work_def)

lemma live_idem: "live_receipts (t\<lparr>preflight_scan_receipts := live_receipts t\<rparr>) = live_receipts t"
  by (simp add: live_receipts_def)

lemma same_work_restored: "same_work (restored_tray C t) t"
proof -
  have "live_receipts (restored_tray C t) = live_receipts t"
    by (simp add: restored_tray_def Let_def live_receipts_def)
  then show ?thesis by (simp add: same_work_def restored_tray_def Let_def)
qed

lemma same_work_untimed: "untimed a = untimed b \<Longrightarrow> same_work a b"
proof -
  assume eq: "untimed a = untimed b"
  have "same_work t (untimed t)" for t by (simp add: same_work_def untimed_def live_receipts_def)
  with eq show ?thesis by (metis same_work_trans same_work_sym)
qed

lemma same_work_held: "same_work (own_tray (held_receipts o')) (own_tray o')"
  by (simp add: same_work_def held_receipts_def live_idem)

text \<open>A document that agrees with the one of a tray restores to the same work.\<close>

lemma restores_same_work:
  assumes "\<And>k. k \<in> set tray_keys \<Longrightarrow> dget st k = dget (tray_session_to_state L adm w t) k" "iso_faithful L (tray_timeline t)"
  shows "\<exists>tr. tray_session_from_state C L n st = Some tr \<and> same_work tr t"
proof -
  have "map_option untimed (tray_session_from_state C L n st) = Some (untimed (restored_tray C t))"
    using from_state_cong [OF assms(1)] saved_tray_restores [OF assms(2)] by simp
  then obtain tr where "tray_session_from_state C L n st = Some tr" "untimed tr = untimed (restored_tray C t)" by auto
  with same_work_untimed same_work_restored same_work_trans show ?thesis by blast
qed

lemma snapshot_dget:
  "k \<in> set tray_keys \<Longrightarrow> dget (current_tray_state_snapshot W now o') k =
     dget (tray_session_to_state (iso W) (admin_display (writer W)) (own_worker o') (own_tray o')) k"
proof -
  assume "k \<in> set tray_keys"
  then have k: "k \<notin> {''pending_operator_review'', ''pending_completion_event'', ''pending_parked_restore'',
      ''pending_activation_event'', ''total_idle_seconds''}"
    by (auto simp: tray_keys_def)
  have p: "dget (set_pending key c s) k = dget s k" if "k \<noteq> key" for key c s
    using that by (simp add: set_pending_def split: option.split)
  show ?thesis using k by (simp add: current_tray_state_snapshot_def Let_def p split: option.split)
qed

definition with_held_scan :: "dt \<Rightarrow> string \<Rightarrow> string \<Rightarrow> tray_session \<Rightarrow> tray_session" where
  "with_held_scan now raw sid t = t\<lparr>scanned_barcodes := scanned_barcodes t @ [raw], scan_times := scan_times t @ [now],
     preflight_scan_receipts := dset raw sid (live_receipts t)\<rparr>"

lemma with_held_scan_simps [simp]:
  "master_label_code (with_held_scan now raw sid t) = master_label_code t" "item_code (with_held_scan now raw sid t) = item_code t"
  "item_name (with_held_scan now raw sid t) = item_name t" "item_spec (with_held_scan now raw sid t) = item_spec t"
  "scanned_barcodes (with_held_scan now raw sid t) = scanned_barcodes t @ [raw]"
  "scan_times (with_held_scan now raw sid t) = scan_times t @ [now]"
  "tray_size (with_held_scan now raw sid t) = tray_size t"
  "mismatch_error_count (with_held_scan now raw sid t) = mismatch_error_count t"
  "start_time (with_held_scan now raw sid t) = start_time t" "has_error_or_reset (with_held_scan now raw sid t) = has_error_or_reset t"
  "is_test_tray (with_held_scan now raw sid t) = is_test_tray t"
  "is_partial_submission (with_held_scan now raw sid t) = is_partial_submission t"
  "canonical_input_tag_qr (with_held_scan now raw sid t) = canonical_input_tag_qr t"
  "active_label_qr_payload (with_held_scan now raw sid t) = active_label_qr_payload t"
  "active_label_id (with_held_scan now raw sid t) = active_label_id t"
  "active_label_business_date (with_held_scan now raw sid t) = active_label_business_date t"
  "active_label_worker_code (with_held_scan now raw sid t) = active_label_worker_code t"
  "operation_lease_id (with_held_scan now raw sid t) = operation_lease_id t"
  by (simp_all add: with_held_scan_def)

lemma filter_dset: "(\<And>x. x \<in> set d \<Longrightarrow> P x) \<Longrightarrow> P (k, v) \<Longrightarrow> filter P (dset k v d) = dset k v d"
  by (induction d) (auto simp: filter_id_conv split: if_splits)

lemma live_with_held_scan:
  "strip sid \<noteq> [] \<Longrightarrow> live_receipts (with_held_scan now raw sid t) = dset raw sid (live_receipts t)"
  unfolding with_held_scan_def by (simp add: live_receipts_def) (rule filter_dset; auto)

lemma fields_value_dset: "fields_value (dset k v f) = VDict (dset k (VStr v) (map (\<lambda>(k, v). (k, VStr v)) f))"
proof -
  have "map (\<lambda>(k, v). (k, VStr v)) (dset k v f) = dset k (VStr v) (map (\<lambda>(k, v). (k, VStr v)) f)"
    by (induction f) auto
  then show ?thesis by (simp add: fields_value_def)
qed

lemma append_at_dget:
  "vget d k = VList vs \<Longrightarrow> dget (append_at k v d) j = (if j = k then Some (VList (vs @ [v])) else dget d j)"
  by (simp add: append_at_def)

lemma set_receipt_dget:
  assumes "vget_default d ''preflight_scan_receipts'' (VDict []) = fields_value f"
  shows "dget (set_receipt b i d) j = (if j = ''preflight_scan_receipts'' then Some (fields_value (dset b i f)) else dget d j)"
proof -
  have "fields_value f = VDict (map (\<lambda>(k, v). (k, VStr v)) f)" by (simp add: fields_value_def)
  with assms show ?thesis by (simp add: set_receipt_def fields_value_dset)
qed

lemma state_with_scan_dget:
  assumes "sid \<noteq> []" "strip sid \<noteq> []" "k \<in> set tray_keys"
  shows "dget (state_with_scan E now raw sid o') k = dget (tray_session_to_state (iso (window E)) (admin_display (writer (window E)))
    (own_worker o') (with_held_scan now raw sid (own_tray o'))) k"
proof -
  let ?W = "window E" and ?t = "own_tray o'" and ?st = "current_tray_state_snapshot (window E) now o'"
  let ?saved = "tray_session_to_state (iso ?W) (admin_display (writer ?W)) (own_worker o')"
  have in_keys: "''scanned_barcodes'' \<in> set tray_keys" "''scan_times'' \<in> set tray_keys" "''preflight_scan_receipts'' \<in> set tray_keys"
    by (simp_all add: tray_keys_def)
  have bs: "vget ?st ''scanned_barcodes'' = VList (map VStr (scanned_barcodes ?t))"
    unfolding vget_def snapshot_dget [OF in_keys(1)] by (simp add: tray_session_to_state_def Let_def)
  have ts: "vget ?st ''scan_times'' = VList (map (\<lambda>x. VStr (isoformat (iso ?W) x)) (scan_times ?t))"
    unfolding vget_def snapshot_dget [OF in_keys(2)] by (simp add: tray_session_to_state_def Let_def)
  let ?s1 = "append_at ''scanned_barcodes'' (VStr raw) ?st"
  let ?s2 = "append_at ''scan_times'' (VStr (isoformat (iso ?W) now)) ?s1"
  have d1: "dget ?s1 j = (if j = ''scanned_barcodes'' then Some (VList (map VStr (scanned_barcodes ?t @ [raw]))) else dget ?st j)" for j
    by (simp add: append_at_dget [OF bs])
  have "vget ?s1 ''scan_times'' = vget ?st ''scan_times''" by (simp add: vget_def d1)
  from append_at_dget [OF trans [OF this ts]]
  have d2: "dget ?s2 j = (if j = ''scan_times'' then Some (VList (map (\<lambda>x. VStr (isoformat (iso ?W) x)) (scan_times ?t @ [now])))
      else dget ?s1 j)" for j by simp
  have "vget_default ?s2 ''preflight_scan_receipts'' (VDict []) = vget_default (?saved ?t) ''preflight_scan_receipts'' (VDict [])"
    by (simp add: vget_default_def d1 d2 snapshot_dget [OF in_keys(3)])
  then have r: "vget_default ?s2 ''preflight_scan_receipts'' (VDict []) = fields_value (live_receipts ?t)"
    by (simp add: saved_receipts)
  have get: "dget (state_with_scan E now raw sid o') k =
      (if k = ''preflight_scan_receipts'' then Some (fields_value (dset raw sid (live_receipts ?t)))
       else if k = ''scan_times'' then Some (VList (map (\<lambda>x. VStr (isoformat (iso ?W) x)) (scan_times ?t @ [now])))
       else if k = ''scanned_barcodes'' then Some (VList (map VStr (scanned_barcodes ?t @ [raw])))
       else dget (?saved ?t) k)"
    using assms(1) by (simp add: state_with_scan_def Let_def set_receipt_dget [OF r] d1 d2 snapshot_dget [OF assms(3)])
  have ne: "dset raw sid (live_receipts ?t) \<noteq> []" by (cases "live_receipts ?t") (auto split: if_splits)
  have live: "live_receipts (with_held_scan now raw sid ?t) = dset raw sid (live_receipts ?t)"
    by (rule live_with_held_scan [OF assms(2)])
  show ?thesis
    using assms(3) unfolding get tray_keys_def list.set insert_iff empty_iff
    by (elim disjE; simp add: tray_session_to_state_def Let_def live ne)
qed

lemma dget_filter_cong: "(\<And>i. P (k, i) = P' (k, i)) \<Longrightarrow> dget (filter P r) k = dget (filter P' r) k"
  by (induction r) auto

text \<open>The tray in memory after the scan is the tray that was made durable before.\<close>

lemma owner_with_scan_same:
  assumes "sid \<noteq> []" "strip sid \<noteq> []"
  shows "same_work (own_tray (owner_with_scan now raw sid o')) (with_held_scan now raw sid (own_tray o'))"
proof -
  let ?t = "own_tray o'" and ?t' = "own_tray (owner_with_scan now raw sid o')"
  let ?P = "\<lambda>(b, i). b \<in> set (scanned_barcodes ?t @ [raw]) \<and> strip i \<noteq> []"
  have t': "?t' = ?t\<lparr>scanned_barcodes := scanned_barcodes ?t @ [raw], scan_times := scan_times ?t @ [now],
      preflight_scan_receipts := dset raw sid (filter ?P (preflight_scan_receipts ?t))\<rparr>"
    using assms(1) by (simp add: owner_with_scan_def Let_def held_receipts_def add_scanned_barcode_def live_receipts_def)
  have "live_receipts ?t' = filter ?P (dset raw sid (filter ?P (preflight_scan_receipts ?t)))"
    by (simp add: t' live_receipts_def)
  also have "\<dots> = dset raw sid (filter ?P (preflight_scan_receipts ?t))"
    by (rule filter_dset) (use assms in auto)
  finally have l: "live_receipts ?t' = dset raw sid (filter ?P (preflight_scan_receipts ?t))" .
  have other: "dget (filter ?P (preflight_scan_receipts ?t)) k = dget (live_receipts ?t) k" if "k \<noteq> raw" for k
    unfolding live_receipts_def by (rule dget_filter_cong) (use that in auto)
  have "dget (live_receipts ?t') k = dget (live_receipts (with_held_scan now raw sid ?t)) k" for k
    using other by (cases "k = raw") (simp_all add: l live_with_held_scan [OF assms(2)])
  then have "dget (live_receipts ?t') = dget (live_receipts (with_held_scan now raw sid ?t))" by blast
  then show ?thesis by (simp add: same_work_def t' with_held_scan_def)
qed

lemma state_with_scan_restores:
  assumes "sid \<noteq> []" "strip sid \<noteq> []" "iso_faithful (iso (window E)) (now # tray_timeline (own_tray o'))"
  shows "\<exists>tr. tray_session_from_state C (iso (window E)) n (state_with_scan E now raw sid o') = Some tr \<and>
    same_work tr (own_tray (owner_with_scan now raw sid o'))"
proof -
  have "iso_faithful (iso (window E)) (tray_timeline (with_held_scan now raw sid (own_tray o')))"
    using assms(3) by (auto simp: iso_faithful_def tray_timeline_def with_held_scan_def)
  from restores_same_work [OF state_with_scan_dget [OF assms(1,2)] this]
  show ?thesis using owner_with_scan_same [OF assms(1,2)] same_work_sym same_work_trans by blast
qed

subsection \<open>The invariant of the drain\<close>

text \<open>What a drain starts from: the scans in the tray, the held scans, where events go, the times met.\<close>

record drain_plan =
  plan_default :: int
  plan_base :: "string list"
  plan_held :: "held_scan list"
  plan_log :: log_path
  plan_test :: bool
  plan_times :: "dt set"

definition plan_ok :: "scan_env \<Rightarrow> drain_plan \<Rightarrow> bool" where
  "plan_ok E P \<longleftrightarrow> distinct (map scan_id (plan_held P)) \<and> (\<forall>x \<in> set (plan_held P). clean_text (scan_id x)) \<and>
     fromisoformat (iso (window E)) [] = None \<and>
     (\<forall>t \<in> plan_times P. fromisoformat (iso (window E)) (isoformat (iso (window E)) t) = Some t)"

definition scan_path :: "scan_env \<Rightarrow> log_path \<Rightarrow> bool \<Rightarrow> string \<Rightarrow> string" where
  "scan_path E p test ev =
     path_text (if strip ev \<in> set LOCAL_ONLY_EVENT_TYPES \<or> test then local_only_event_log_path (writer (window E)) p else p)"

text \<open>A settled scan has one event: that it was counted, or why it was refused.\<close>

definition settled :: "scan_env \<Rightarrow> drain_plan \<Rightarrow> tray_session \<Rightarrow> log_files \<Rightarrow> held_scan \<Rightarrow> bool" where
  "settled E P tr files x \<longleftrightarrow>
     (if is_counted x tr
      then rows_of files (scan_path E (plan_log P) (plan_test P) ''SCAN_OK'') ''SCAN_OK'' (held_scan_key (scan_id x)) = 1
      else \<exists>path ev. rows_of files path ev (held_reject_key (scan_id x)) = 1)"

definition durable_tray :: "scan_env \<Rightarrow> drain_plan \<Rightarrow> station \<Rightarrow> tray_session option" where
  "durable_tray E P w = Option.bind (state_file w) (tray_session_from_state (codecs (window E)) (iso (window E)) (plan_default P))"

definition tray_inv :: "drain_plan \<Rightarrow> tray_session \<Rightarrow> bool" where
  "tray_inv P tr \<longleftrightarrow> scanned_barcodes tr = plan_base P @ map raw_barcode (filter (\<lambda>x. is_counted x tr) (plan_held P)) \<and>
     distinct (scanned_barcodes tr) \<and> is_test_tray tr = plan_test P \<and> set (tray_timeline tr) \<subseteq> plan_times P"

definition log_inv :: "drain_plan \<Rightarrow> log_files \<Rightarrow> bool" where
  "log_inv P files \<longleftrightarrow> (\<forall>x \<in> set (plan_held P). \<forall>path ev.
     rows_of files path ev (held_scan_key (scan_id x)) \<le> 1 \<and> rows_of files path ev (held_reject_key (scan_id x)) \<le> 1)"

definition drain_inv :: "scan_env \<Rightarrow> drain_plan \<Rightarrow> station \<Rightarrow> bool" where
  "drain_inv E P w \<longleftrightarrow> hold_ok (hold_store w) \<and> log_inv P (event_logs w) \<and>
     (\<exists>left tr. plan_held P = left @ held (hold_store w) \<and> durable_tray E P w = Some tr \<and> tray_inv P tr \<and>
        (\<forall>x \<in> set left. settled E P tr (event_logs w) x) \<and> (\<forall>x \<in> set (tl (held (hold_store w))). \<not> is_counted x tr))"

text \<open>The window shows what is durable.\<close>

definition window_inv :: "scan_env \<Rightarrow> drain_plan \<Rightarrow> owner \<times> hold_snapshot option \<Rightarrow> station \<Rightarrow> bool" where
  "window_inv E P = (\<lambda>(o', h) w. own_log o' = plan_log P \<and>
     (\<exists>tr. durable_tray E P w = Some tr \<and> same_work (own_tray o') tr) \<and>
     (case h of None \<Rightarrow> held (hold_store w) = [] | Some s \<Rightarrow> items s = held (hold_store w)))"

lemma counted_same: "same_work a b \<Longrightarrow> is_counted x a = is_counted x b"
  by (simp add: is_counted_def same_work_def)

lemma tray_inv_same: "same_work a b \<Longrightarrow> tray_inv P a = tray_inv P b"
  by (simp add: tray_inv_def counted_same [of a b]) (simp add: same_work_def tray_timeline_def)

lemma settled_same: "same_work a b \<Longrightarrow> settled E P a files x = settled E P b files x"
  by (simp add: settled_def counted_same [of a b])

lemma durable_tray_simps [simp]:
  "durable_tray E P (w\<lparr>event_logs := files\<rparr>) = durable_tray E P w" "durable_tray E P (w\<lparr>hold_store := fs\<rparr>) = durable_tray E P w"
  by (simp_all add: durable_tray_def)

lemma strip_prefixed: "clean_text i \<Longrightarrow> p \<noteq> [] \<Longrightarrow> \<not> is_space (hd p) \<Longrightarrow> strip (p @ i) = p @ i"
  by (rule strip_idI) (use strip_last [of i] in \<open>auto simp: clean_text_def\<close>)

lemma held_keys:
  assumes "clean_text i"
  shows "strip (held_scan_key i) = held_scan_key i" "strip (held_reject_key i) = held_reject_key i"
    "held_scan_key i \<noteq> []" "held_reject_key i \<noteq> []"
proof -
  have "i \<noteq> []" using assms by (simp add: clean_text_def)
  with strip_prefixed [OF assms, of "''preflight-held-scan:''"] strip_prefixed [OF assms, of "''preflight-held-reject:''"]
  show "strip (held_scan_key i) = held_scan_key i" "strip (held_reject_key i) = held_reject_key i"
    "held_scan_key i \<noteq> []" "held_reject_key i \<noteq> []"
    unfolding held_scan_key_def held_reject_key_def by (simp_all add: is_space_def)
qed

lemma scan_request_path:
  "path_text (target_log (writer (window E)) (scan_request E now ev d k once o')) =
     scan_path E (own_log o') (is_test_tray (own_tray o')) ev"
  by (simp add: target_log_def is_local_only_def scan_request_def scan_path_def)

lemma drain_inv_log:
  assumes "drain_inv E P w" "log_event_sync (writer (window E)) flushed out r (event_logs w) = ((ok, found), files)"
    "strip (req_key r) \<noteq> []" "req_dedup r"
  shows "drain_inv E P (w\<lparr>event_logs := files\<rparr>)"
proof -
  have rows: "rows_of files path ev k \<le> 1 \<and> rows_of (event_logs w) path ev k \<le> rows_of files path ev k"
    if "x \<in> set (plan_held P)" "k \<in> {held_scan_key (scan_id x), held_reject_key (scan_id x)}" for x path ev k
    using that assms(1) by (intro keyed_log_rows [OF assms(2-4)]) (auto simp: drain_inv_def log_inv_def)
  have one: "rows_of files path ev k = 1"
    if "x \<in> set (plan_held P)" "k \<in> {held_scan_key (scan_id x), held_reject_key (scan_id x)}" "rows_of (event_logs w) path ev k = 1"
    for x path ev k using rows [OF that(1,2), of path ev] that(3) by simp
  have "settled E P tr files x" if "settled E P tr (event_logs w) x" "x \<in> set (plan_held P)" for tr x
    using that one [OF that(2)] unfolding settled_def by (metis insertI1 insertI2)
  with assms(1) rows show ?thesis
    by (fastforce simp: drain_inv_def log_inv_def)
qed

lemma window_inv_log: "window_inv E P m w \<Longrightarrow> window_inv E P m (w\<lparr>event_logs := files\<rparr>)"
  by (auto simp: window_inv_def split: prod.splits option.splits)

text \<open>A logged step of the drain: whatever the outcome the station stays in order.\<close>

lemma always_keyed_log:
  assumes "drain_inv E P w" "strip (req_key r) \<noteq> []" "req_dedup r"
    "\<And>files. drain_inv E P (w\<lparr>event_logs := files\<rparr>) \<Longrightarrow> Q False (w\<lparr>event_logs := files\<rparr>)"
    "\<And>files. drain_inv E P (w\<lparr>event_logs := files\<rparr>) \<Longrightarrow>
       0 < rows_of files (path_text (target_log (writer (window E)) r)) (strip (redact_protected_admin_identity (req_event r))) (strip (req_key r)) \<Longrightarrow>
       Q True (w\<lparr>event_logs := files\<rparr>)"
  shows "always E sha (drain_inv E P) Q (LogScan True r Return) w"
proof -
  have "drain_inv E P (w\<lparr>event_logs := files\<rparr>) \<and> Q ok (w\<lparr>event_logs := files\<rparr>)"
    if "log_event_sync (writer (window E)) flushed out r (event_logs w) = ((ok, found), files)" for flushed out ok found files
  proof -
    have inv: "drain_inv E P (w\<lparr>event_logs := files\<rparr>)" by (rule drain_inv_log [OF assms(1) that assms(2,3)])
    show ?thesis
    proof (cases ok)
      case True
      with keyed_log_written [OF _ assms(2,3), of "writer (window E)" flushed out "event_logs w" found files] that inv assms(5) show ?thesis by simp
    next
      case False
      with inv assms(4) show ?thesis by auto
    qed
  qed
  with assms(1) show ?thesis by auto
qed

lemma log_then: "LogScan sync r k = scan_then (LogScan sync r Return) k"
  by simp

subsection \<open>Settling the head\<close>

text \<open>The tray with the head counted.\<close>

lemma counted_with_held_scan:
  assumes "plan_held P = left @ head # rest" "distinct (map scan_id (plan_held P))" "x \<in> set (plan_held P)"
    "strip (scan_id head) \<noteq> []" "raw_barcode head \<notin> set (scanned_barcodes t)"
  shows "is_counted x (with_held_scan now (raw_barcode head) (scan_id head) t) \<longleftrightarrow> x = head \<or> is_counted x t"
proof -
  have inj: "x = head" if "scan_id x = scan_id head"
    using that assms(1-3) by (metis distinct_map in_set_conv_decomp inj_on_def)
  show ?thesis
  proof (cases "raw_barcode x = raw_barcode head")
    case True
    with assms(4,5) inj show ?thesis by (auto simp: is_counted_def live_with_held_scan)
  qed (use assms(4) in \<open>auto simp: is_counted_def live_with_held_scan\<close>)
qed

lemma tray_inv_with_held_scan:
  assumes "plan_held P = left @ head # rest" "distinct (map scan_id (plan_held P))" "strip (scan_id head) \<noteq> []"
    "raw_barcode head \<notin> set (scanned_barcodes t)" "tray_inv P t" "\<forall>x \<in> set rest. \<not> is_counted x t" "now \<in> plan_times P"
  shows "tray_inv P (with_held_scan now (raw_barcode head) (scan_id head) t)"
proof -
  let ?t = "with_held_scan now (raw_barcode head) (scan_id head) t"
  note counted = counted_with_held_scan [OF assms(1,2) _ assms(3,4), of _ now]
  have ids: "head \<notin> set left \<union> set rest" using assms(1,2) by auto
  have head: "\<not> is_counted head t" using assms(4) by (simp add: is_counted_def)
  have l: "filter (\<lambda>x. is_counted x ?t) left = filter (\<lambda>x. is_counted x t) left"
    using ids assms(1) by (intro filter_cong) (auto simp: counted)
  have r: "filter (\<lambda>x. is_counted x ?t) rest = []" "filter (\<lambda>x. is_counted x t) rest = []"
    using ids assms(1,6) by (auto simp: filter_empty_conv counted)
  have "filter (\<lambda>x. is_counted x ?t) (plan_held P) = filter (\<lambda>x. is_counted x t) (plan_held P) @ [head]"
    using l r head counted [of head] assms(1) by simp
  moreover have t: "distinct (scanned_barcodes t)" "is_test_tray t = plan_test P" "set (tray_timeline t) \<subseteq> plan_times P"
    "scanned_barcodes t = plan_base P @ map raw_barcode (filter (\<lambda>x. is_counted x t) (plan_held P))"
    using assms(5) unfolding tray_inv_def by blast+
  moreover have "distinct (scanned_barcodes ?t)" using t(1) assms(4) by simp
  moreover have "set (tray_timeline ?t) \<subseteq> plan_times P" using t(3) assms(7) by (simp add: tray_timeline_def)
  ultimately show ?thesis unfolding tray_inv_def by simp
qed

lemma settled_with_held_scan:
  assumes "plan_held P = left @ head # rest" "distinct (map scan_id (plan_held P))" "strip (scan_id head) \<noteq> []"
    "raw_barcode head \<notin> set (scanned_barcodes t)" "x \<in> set left" "settled E P t files x"
  shows "settled E P (with_held_scan now (raw_barcode head) (scan_id head) t) files x"
proof -
  have "x \<noteq> head" using assms(1,2,5) by auto
  with counted_with_held_scan [OF assms(1,2) _ assms(3,4), of x now] assms(1,5,6) show ?thesis by (simp add: settled_def)
qed

text \<open>The state saved for an accepted head.\<close>

lemma drain_inv_counted:
  assumes "plan_ok E P" "drain_inv E P w" "window_inv E P (o', Some s) w" "items s = head # rest" "now \<in> plan_times P"
    "raw_barcode head \<notin> set (scanned_barcodes (own_tray o'))"
  shows "drain_inv E P (w\<lparr>state_file := Some (state_with_scan E now (raw_barcode head) (scan_id head) o')\<rparr>)"
    "window_inv E P (owner_with_scan now (raw_barcode head) (scan_id head) o', Some s)
       (w\<lparr>state_file := Some (state_with_scan E now (raw_barcode head) (scan_id head) o')\<rparr>)"
proof -
  let ?raw = "raw_barcode head" and ?id = "scan_id head"
  let ?w = "w\<lparr>state_file := Some (state_with_scan E now ?raw ?id o')\<rparr>" and ?o = "owner_with_scan now ?raw ?id o'"
  from assms(2) obtain left tr where inv: "hold_ok (hold_store w)" "log_inv P (event_logs w)"
    "plan_held P = left @ held (hold_store w)" "durable_tray E P w = Some tr" "tray_inv P tr"
    "\<forall>x \<in> set left. settled E P tr (event_logs w) x" "\<forall>x \<in> set (tl (held (hold_store w))). \<not> is_counted x tr"
    by (auto simp: drain_inv_def)
  have held: "held (hold_store w) = head # rest" and log: "own_log o' = plan_log P" and same: "same_work (own_tray o') tr"
    using assms(3,4) inv(4) by (auto simp: window_inv_def)
  have H: "plan_held P = left @ head # rest" using inv(3) held by simp
  have id: "clean_text ?id" "distinct (map scan_id (plan_held P))" using assms(1) H by (auto simp: plan_ok_def)
  then have ne: "?id \<noteq> []" "strip ?id \<noteq> []" by (auto simp: clean_text_def)
  note eqs = counted_same [OF same] tray_inv_same [OF same] settled_same [OF same]
  let ?t = "with_held_scan now ?raw ?id (own_tray o')"
  have "iso_faithful (iso (window E)) (now # tray_timeline (own_tray o'))"
    using assms(1,5) inv(5) [folded eqs(2)] by (auto simp: plan_ok_def iso_faithful_def tray_inv_def)
  from state_with_scan_restores [OF ne this, of "codecs (window E)" "plan_default P" ?raw]
  obtain tr' where tr': "durable_tray E P ?w = Some tr'" "same_work tr' (own_tray ?o)" by (auto simp: durable_tray_def)
  have same': "same_work tr' ?t" using tr'(2) owner_with_scan_same [OF ne] same_work_trans by blast
  have rest: "\<forall>x \<in> set rest. \<not> is_counted x (own_tray o')" using inv(7) held eqs(1) by simp
  have "tray_inv P tr'"
    using tray_inv_with_held_scan [OF H id(2) ne(2) assms(6) _ rest assms(5)] inv(5) eqs(2) tray_inv_same [OF same'] by simp
  moreover have "\<forall>x \<in> set left. settled E P tr' (event_logs w) x"
    using settled_with_held_scan [OF H id(2) ne(2) assms(6)] inv(6) eqs(3) settled_same [OF same'] by simp
  moreover have "\<not> is_counted x tr'" if "x \<in> set rest" for x
  proof -
    have "x \<noteq> head" using that H id(2) by auto
    with counted_with_held_scan [OF H id(2) _ ne(2) assms(6), of x now] that rest H counted_same [OF same'] show ?thesis by simp
  qed
  ultimately show "drain_inv E P ?w"
    using inv(1-3) tr'(1) held unfolding drain_inv_def by (simp; blast)
  have "own_log ?o = plan_log P"
    using log by (simp add: owner_with_scan_def Let_def add_scanned_barcode_def held_receipts_def)
  then show "window_inv E P (?o, Some s) ?w"
    using tr' same_work_sym assms(4) held by (auto simp: window_inv_def)
qed

abbreviation head_done :: "scan_env \<Rightarrow> drain_plan \<Rightarrow> hold_snapshot \<Rightarrow> held_scan \<Rightarrow> bool \<times> owner \<Rightarrow> station \<Rightarrow> bool" where
  "head_done E P s head \<equiv> \<lambda>(ok, o1) w. window_inv E P (o1, Some s) w \<and> (ok \<longrightarrow> settled E P (own_tray o1) (event_logs w) head)"

text \<open>The event of the head, under its key.\<close>

lemma always_head_log:
  assumes "plan_ok E P" "drain_inv E P w" "window_inv E P (o1, Some s) w" "head \<in> set (plan_held P)"
    "key = (if is_counted head (own_tray o1) then held_scan_key (scan_id head) else held_reject_key (scan_id head))"
    "is_counted head (own_tray o1) \<longrightarrow> ev = ''SCAN_OK''"
  shows "always E sha (drain_inv E P) (\<lambda>b. head_done E P s head (b, o1)) (LogScan True (scan_request E now ev d key True o1) Return) w"
proof (rule always_keyed_log [OF assms(2)])
  let ?r = "scan_request E now ev d key True o1"
  have key: "strip key = key" "key \<noteq> []" using held_keys assms(1,4,5) by (auto simp: plan_ok_def)
  then show "strip (req_key ?r) \<noteq> []" "req_dedup ?r" by (simp_all add: scan_request_def)
  show "head_done E P s head (False, o1) (w\<lparr>event_logs := files\<rparr>)" for files
    using window_inv_log [OF assms(3)] by simp
  fix files
  assume inv: "drain_inv E P (w\<lparr>event_logs := files\<rparr>)"
    and rows: "0 < rows_of files (path_text (target_log (writer (window E)) ?r)) (strip (redact_protected_admin_identity (req_event ?r))) (strip (req_key ?r))"
  have "rows_of files path e key \<le> 1" for path e
    using inv assms(4,5) by (auto simp: drain_inv_def log_inv_def)
  then have one: "rows_of files (scan_path E (own_log o1) (is_test_tray (own_tray o1)) ev) (strip (redact_protected_admin_identity ev)) key = 1"
    using rows key(1) unfolding scan_request_path by (simp add: scan_request_def le_antisym Suc_leI)
  have place: "own_log o1 = plan_log P" "is_test_tray (own_tray o1) = plan_test P"
    using assms(2,3) by (auto simp: window_inv_def drain_inv_def tray_inv_def same_work_def)
  have "settled E P (own_tray o1) files head"
  proof (cases "is_counted head (own_tray o1)")
    case True
    have "strip (redact_protected_admin_identity ''SCAN_OK'') = ''SCAN_OK''"
      by (simp add: redact_short strip_idI is_space_def)
    with True one place assms(5,6) show ?thesis by (simp add: settled_def)
  next
    case False
    with one assms(5) show ?thesis by (auto simp: settled_def)
  qed
  then show "head_done E P s head (True, o1) (w\<lparr>event_logs := files\<rparr>)" using window_inv_log [OF assms(3)] by simp
qed

lemma always_accept:
  assumes "plan_ok E P" "drain_inv E P w" "window_inv E P (o', Some s) w" "items s = head # rest" "now \<in> plan_times P"
    "raw_barcode head \<notin> set (scanned_barcodes (own_tray o'))"
  shows "always E sha (drain_inv E P) (\<lambda>(r, o1). head_done E P s head (r = ScanDone True, o1))
    (accept_scan E now True (scan_id head) (raw_barcode head) o') w"
proof -
  let ?raw = "raw_barcode head" and ?id = "scan_id head"
  let ?o = "owner_with_scan now ?raw ?id o'" and ?w = "w\<lparr>state_file := Some (state_with_scan E now ?raw ?id o')\<rparr>"
  let ?Q = "\<lambda>(r, o1). head_done E P s head (r = ScanDone True, o1)"
  note inv = drain_inv_counted [OF assms]
  from assms(2-4) obtain left where H: "plan_held P = left @ head # rest" by (auto simp: drain_inv_def window_inv_def)
  then have id: "clean_text ?id" "distinct (map scan_id (plan_held P))" using assms(1) by (auto simp: plan_ok_def)
  then have ne: "?id \<noteq> []" "strip ?id \<noteq> []" by (auto simp: clean_text_def)
  have counted: "is_counted head (own_tray ?o)"
    using counted_same [OF owner_with_scan_same [OF ne]] counted_with_held_scan [OF H id(2) _ ne(2) assms(6)] H by simp
  have log: "always E sha (drain_inv E P) ?Q (LogScan True (scan_request E now ''SCAN_OK'' d (held_scan_key ?id) True ?o)
      (\<lambda>audit. Return (ScanDone audit, ?o))) ?w" for d
    unfolding log_then [of True _ "\<lambda>audit. Return (ScanDone audit, ?o)"]
    by (rule always_then, rule always_mono, rule always_head_log [OF assms(1) inv]) (use H counted in auto)
  have quiet: "always E sha (drain_inv E P) ?Q (Return (ScanDone False, o')) w" "always E sha (drain_inv E P) ?Q (Return (ScanRaised, ?o)) ?w"
    using assms(2,3) inv by simp_all
  show ?thesis
    unfolding accept_scan_def Let_def using assms(2) quiet log ne(1)
    by (simp add: case_prod_unfold split: sum.split del: always.simps(3))
qed

lemma held_decision_accepted:
  assumes "preflight_held_scan_decision E raw tr = Inr d" "status d = SCAN_ACCEPTED"
  shows "\<exists>d0. product_decision E raw tr = Inr d0 \<and> status d0 = SCAN_ACCEPTED" "raw \<notin> set (scanned_barcodes tr)"
proof -
  have "qr_fields (codecs (window E)) raw = []"
    using assms by (auto simp: preflight_held_scan_decision_def SCAN_ACCEPTED_def SCAN_FORMAT_ERROR_def split: if_splits)
  with assms obtain d0 where d0: "product_decision E raw tr = Inr d0" "status d0 = SCAN_ACCEPTED"
    by (auto simp: preflight_held_scan_decision_def result_simps split: if_splits)
  then show "\<exists>d0. product_decision E raw tr = Inr d0 \<and> status d0 = SCAN_ACCEPTED" by blast
  from d0 have "\<exists>d. decide_product_admission (sha256 (window E)) raw (item_code tr) (VList (map VStr (scanned_barcodes tr)))
      (VInt (tray_size tr)) (VInt (code_length E)) = Inr d \<and> accepted d"
    by (simp add: product_decision_def accepted_def)
  then obtain ss where ss: "VList (map VStr (scanned_barcodes tr)) = VList (map VStr ss)" "raw \<notin> set ss"
    unfolding admission_accepted_iff by blast
  from ss(1) have "as_texts (map VStr (scanned_barcodes tr)) = as_texts (map VStr ss)" by simp
  then have "scanned_barcodes tr = ss" by (simp add: as_texts_map)
  with ss(2) show "raw \<notin> set (scanned_barcodes tr)" by simp
qed

lemma window_inv_same:
  "window_inv E P (o1, h) w \<Longrightarrow> same_work (own_tray o2) (own_tray o1) \<Longrightarrow> own_log o2 = own_log o1 \<Longrightarrow> window_inv E P (o2, h) w"
  using same_work_trans by (fastforce simp: window_inv_def)

lemma window_inv_held [intro]: "window_inv E P (o1, h) w \<Longrightarrow> window_inv E P (held_receipts o1, h) w"
  by (rule window_inv_same [OF _ same_work_held]) (auto simp: held_receipts_def)

text \<open>While the scans are held the activity is only noted.\<close>

lemma activity_held [simp]: "activity_steps E True now o' = Return (o'\<lparr>own_last_activity := Some now\<rparr>)"
  by (simp add: activity_steps_def wakeup_steps_def)

lemma product_scan_accepted:
  "product_decision E raw (own_tray o') = Inr d0 \<Longrightarrow> status d0 = SCAN_ACCEPTED \<Longrightarrow> status d = SCAN_ACCEPTED \<Longrightarrow>
     product_scan_steps E now durable_log sid (Some d) raw o' = accept_scan E now durable_log sid raw o'"
  by (simp add: product_scan_steps_def accepted_def SCAN_ACCEPTED_def SCAN_FORMAT_ERROR_def SCAN_MISMATCH_def
      SCAN_DUPLICATE_def SCAN_TRAY_FULL_def)

lemma always_held_scan:
  assumes "plan_ok E P" "drain_inv E P w" "window_inv E P (o1, Some s) w" "items s = head # rest" "now \<in> plan_times P"
    "preflight_held_scan_decision E (raw_barcode head) (own_tray o1) = Inr d" "status d = SCAN_ACCEPTED"
  shows "always E sha (drain_inv E P) (\<lambda>(r, o2). head_done E P s head (r = Scanned (ScanDone True), o2))
    (process_barcode_steps E (f\<lparr>context_blocks := True\<rparr>) now (Some s) True (scan_id head) (Some d) (raw_barcode head) o1) w"
proof -
  let ?Q = "\<lambda>(r, o2). head_done E P s head (r = Scanned (ScanDone True), o2)"
  let ?o = "o1\<lparr>own_last_activity := Some now\<rparr>"
  from held_decision_accepted [OF assms(6,7)] obtain d0 where
    d0: "product_decision E (raw_barcode head) (own_tray ?o) = Inr d0" "status d0 = SCAN_ACCEPTED"
    and fresh: "raw_barcode head \<notin> set (scanned_barcodes (own_tray ?o))" by auto
  have win: "window_inv E P (?o, Some s) w" by (rule window_inv_same [OF assms(3)]) simp_all
  have "always E sha (drain_inv E P) ?Q
      (scan_then (product_scan_steps E now True (scan_id head) (Some d) (raw_barcode head) ?o) (\<lambda>(r, o2). Return (Scanned r, o2))) w"
    unfolding product_scan_accepted [OF d0 assms(7)]
    by (rule always_then, rule always_mono, rule always_accept [OF assms(1,2) win assms(4,5) fresh]) auto
  moreover have "always E sha (drain_inv E P) ?Q (Return (Routed r, o2)) w" if "window_inv E P (o2, Some s) w" for r o2
    using assms(2) that by simp
  ultimately show ?thesis
    unfolding process_barcode_steps_def using win assms(3)
    by (simp split: option.split scan_route.split del: always.simps)
qed

lemma always_settle_head:
  assumes "plan_ok E P" "drain_inv E P w" "window_inv E P (o', Some s) w" "items s = head # rest" "now \<in> plan_times P"
  shows "always E sha (drain_inv E P) (head_done E P s head) (settle_head E f now s head o') w"
proof -
  let ?A = "\<lambda>Q. always E sha (drain_inv E P) Q" and ?o = "held_receipts o'"
  have win: "window_inv E P (?o, Some s) w" using assms(3) ..
  have "held (hold_store w) = head # rest" using assms(3,4) by (simp add: window_inv_def)
  then have mem: "head \<in> set (plan_held P)" using assms(2) by (auto simp: drain_inv_def)
  have stop: "?A (head_done E P s head) (Return (False, o1)) w" if "window_inv E P (o1, Some s) w" for o1
    using assms(2) that by simp
  have cnt: "is_counted head (own_tray ?o) = is_counted head (own_tray o')" by (rule counted_same [OF same_work_held])
  show ?thesis
  proof (cases "is_counted head (own_tray o')")
    case True
    have log: "?A (\<lambda>b. head_done E P s head (b, ?o)) (LogScan True (scan_request E now ''SCAN_OK'' d (held_scan_key (scan_id head)) True ?o) Return) w" for d
      by (rule always_head_log [OF assms(1,2) win mem]) (use True cnt in auto)
    have "?A (head_done E P s head) (LogScan True (scan_request E now ''SCAN_OK'' d (held_scan_key (scan_id head)) True ?o)
        (\<lambda>ok. Return (ok, ?o))) w" for d
      unfolding log_then [of True _ "\<lambda>ok. Return (ok, ?o)"]
      by (rule always_then, rule always_mono, rule log) auto
    with True stop [OF win] show ?thesis
      by (simp add: settle_head_def persist_existing_held_scan_audit_def Let_def del: always.simps split: sum.split)
  next
    case False
    show ?thesis
    proof (cases "preflight_held_scan_decision E (raw_barcode head) (own_tray ?o)")
      case (Inl e)
      with False stop [OF win] show ?thesis by (simp add: settle_head_def Let_def del: always.simps)
    next
      case (Inr d)
      show ?thesis
      proof (cases "status d = SCAN_ACCEPTED")
        case True
        have "?A (head_done E P s head) (scan_then (process_barcode_steps E (f\<lparr>context_blocks := True\<rparr>) now (Some s) True (scan_id head)
            (Some d) (raw_barcode head) ?o) (\<lambda>(r, o2). let bs = scanned_barcodes (own_tray o2) in
                  Return (r = Scanned (ScanDone True) \<and> length bs = length (scanned_barcodes (own_tray ?o)) + 1 \<and>
                      last bs = raw_barcode head \<and> is_counted head (own_tray o2), held_receipts o2))) w"
          by (rule always_then, rule always_mono, rule always_held_scan [OF assms(1,2) win assms(4,5) Inr True])
             (auto simp: Let_def settled_same [OF same_work_held])
        with False Inr True show ?thesis by (simp add: settle_head_def Let_def del: always.simps)
      next
        case no: False
        let ?w = "show_fullscreen_warning E (HeldWarning d head) ?o"
        have same: "own_tray ?w = own_tray ?o" "own_log ?w = own_log ?o" by (simp_all add: show_fullscreen_warning_def)
        have win': "window_inv E P (?w, Some s) w" by (rule window_inv_same [OF win]) (simp_all add: same)
        have "?A (head_done E P s head) (LogScan True (scan_request E now (event_name d) (event_detail d) (held_reject_key (scan_id head)) True ?w)
            (\<lambda>durable. Return (durable, ?w))) w"
          unfolding log_then [of True _ "\<lambda>durable. Return (durable, ?w)"]
          by (rule always_then, rule always_mono, rule always_head_log [OF assms(1,2) win' mem]) (use False cnt same in auto)
        with False Inr no stop [OF win'] show ?thesis
          by (simp add: settle_head_def durably_reject_preflight_hold_head_def Let_def del: always.simps)
      qed
    qed
  qed
qed

subsection \<open>The drain\<close>

lemma ack_returns:
  assumes "clean_text stamp" "ack_head sha io stamp sid fs = (Inr u, fs')"
  shows "case u of None \<Rightarrow> held fs' = [] | Some s \<Rightarrow> items s = held fs'"
proof -
  obtain s x xs where s: "load_hold fs = Inr s" "items s = x # xs"
    using assms(2) by (auto simp: ack_head_def split: sum.splits list.splits)
  let ?s = "s\<lparr>updated_at := stamp, items := xs\<rparr>"
  have wf: "wf_snapshot ?s" using load_hold_wf [OF s(1)] s(2) assms(1) by (simp add: wf_snapshot_def)
  show ?thesis
    using assms(2) s write_hold_wf [OF wf] held_load
    by (cases io) (auto simp: ack_head_def split: if_splits)
qed

lemma drain_inv_acked:
  assumes "drain_inv E P w" "window_inv E P (o1, Some s) w" "settled E P (own_tray o1) (event_logs w) head" "items s = head # rest"
    "clean_text stamp" "ack_head sha io stamp (scan_id head) (hold_store w) = (r, fs)"
  shows "drain_inv E P (w\<lparr>hold_store := fs\<rparr>) \<and>
    (case r of Inl e \<Rightarrow> window_inv E P (o1, Some s) (w\<lparr>hold_store := fs\<rparr>) | Inr u \<Rightarrow> window_inv E P (o1, u) (w\<lparr>hold_store := fs\<rparr>))"
proof -
  from assms(1) obtain left tr where inv: "hold_ok (hold_store w)" "log_inv P (event_logs w)"
    "plan_held P = left @ held (hold_store w)" "durable_tray E P w = Some tr" "tray_inv P tr"
    "\<forall>x \<in> set left. settled E P tr (event_logs w) x" "\<forall>x \<in> set (tl (held (hold_store w))). \<not> is_counted x tr"
    by (auto simp: drain_inv_def)
  have held: "held (hold_store w) = head # rest" and win: "own_log o1 = plan_log P" "same_work (own_tray o1) tr"
    using assms(2,4) inv(4) by (auto simp: window_inv_def)
  note ack = ack_effect [OF assms(5) inv(1) assms(6)]
  show ?thesis
  proof (cases r)
    case (Inl e)
    with ack inv assms(1,2) held show ?thesis by (auto simp: drain_inv_def window_inv_def)
  next
    case (Inr u)
    with ack(2) held have rest: "held fs = rest" by simp
    have "settled E P tr (event_logs w) head" using assms(3) settled_same [OF win(2)] by simp
    moreover have "set (tl rest) \<subseteq> set rest" by (cases rest) auto
    ultimately have "drain_inv E P (w\<lparr>hold_store := fs\<rparr>)"
      unfolding drain_inv_def
      using ack(1) inv held rest by (intro conjI exI [of _ "left @ [head]"] exI [of _ tr]) auto
    moreover have "window_inv E P (o1, u) (w\<lparr>hold_store := fs\<rparr>)"
      using win inv(4) ack_returns [OF assms(5), of sha io "scan_id head" "hold_store w" u fs] assms(6) Inr
      by (auto simp: window_inv_def split: option.splits)
    ultimately show ?thesis using Inr by simp
  qed
qed

lemma always_drain:
  assumes "plan_ok E P" "drain_inv E P w" "window_inv E P m w" "now \<in> plan_times P"
  shows "always E sha (drain_inv E P) (\<lambda>(r, m'). window_inv E P m') (drain_preflight_hold_steps E f now m) w"
proof -
  obtain o' hold where m: "m = (o', hold)" by (cases m)
  let ?A = "always E sha (drain_inv E P) (\<lambda>(r, m'). window_inv E P m')"
  have stop: "?A (Return (r, o1, h)) w1" if "drain_inv E P w1" "window_inv E P (o1, h) w1" for r o1 h w1 using that by simp
  show ?thesis
  proof (cases "\<exists>s head rest. hold = Some s \<and> items s = head # rest \<and> hold_state s = HOLD_DRAINING \<and> \<not> is_blocking (own_view o')")
    case True
    then obtain s head rest where s: "hold = Some s" "items s = head # rest" "hold_state s = HOLD_DRAINING" "\<not> is_blocking (own_view o')"
      by blast
    have after: "?A (if \<not> ok then Return (Stopped, o1, Some s) else AckHead (scan_id head) (\<lambda>r. case r of
            Inl e \<Rightarrow> Return (Stopped, o1, Some s) | Inr updated \<Rightarrow> Return (Advanced, o1, updated))) w1"
      if "head_done E P s head (ok, o1) w1" "drain_inv E P w1" for ok o1 w1
      using that drain_inv_acked [OF that(2) _ _ s(2)] by (fastforce split: sum.splits)
    have "?A (scan_then (settle_head E f now s head o') (\<lambda>(ok, o1). if \<not> ok then Return (Stopped, o1, Some s)
        else AckHead (scan_id head) (\<lambda>r. case r of
            Inl e \<Rightarrow> Return (Stopped, o1, Some s) | Inr updated \<Rightarrow> Return (Advanced, o1, updated)))) w"
      by (rule always_then, rule always_mono, rule always_settle_head [OF assms(1,2) assms(3) [unfolded m s(1)] s(2) assms(4)])
         (use after in \<open>auto simp del: always.simps\<close>)
    with m s show ?thesis by (simp add: drain_preflight_hold_steps_def del: always.simps)
  next
    case False
    with m stop [OF assms(2) assms(3) [unfolded m]] show ?thesis
      by (auto simp: drain_preflight_hold_steps_def simp del: always.simps split: option.split list.split)
  qed
qed

text \<open>
  The life of a drain: attempts, with the operator clearing notices between them, the program
  stopping at any yield, and restarts from the two files.
\<close>

inductive draining :: "scan_env \<Rightarrow> (string \<Rightarrow> string) \<Rightarrow> drain_plan \<Rightarrow> (owner \<times> hold_snapshot option) option \<Rightarrow> station \<Rightarrow>
    (owner \<times> hold_snapshot option) option \<Rightarrow> station \<Rightarrow> bool" for E sha P where
  begin_drain: "draining E sha P m w m w"
| attempt: "draining E sha P m0 w0 (Some m) w \<Longrightarrow> now \<in> plan_times P \<Longrightarrow>
    scan_execs E sha (drain_preflight_hold_steps E f now m) w (Return (r, m')) w' \<Longrightarrow> draining E sha P m0 w0 (Some m') w'"
| noticed: "draining E sha P m0 w0 (Some (o', h)) w \<Longrightarrow> draining E sha P m0 w0 (Some (o'\<lparr>own_view := v\<rparr>, h)) w"
| stop: "draining E sha P m0 w0 (Some m) w \<Longrightarrow> now \<in> plan_times P \<Longrightarrow>
    scan_execs E sha (drain_preflight_hold_steps E f now m) w p w' \<Longrightarrow> draining E sha P m0 w0 None w'"
| restart: "draining E sha P m0 w0 None w \<Longrightarrow> durable_tray E P w = Some tr \<Longrightarrow> own_tray o' = tr \<Longrightarrow> own_log o' = plan_log P \<Longrightarrow>
    (case load_hold (hold_store w) of Inl e \<Rightarrow> h = None | Inr s \<Rightarrow> h = Some s) \<Longrightarrow> draining E sha P m0 w0 (Some (o', h)) w"

lemma draining_inv:
  assumes "draining E sha P m0 w0 m w" "plan_ok E P" "drain_inv E P w0" "case m0 of None \<Rightarrow> True | Some x \<Rightarrow> window_inv E P x w0"
  shows "drain_inv E P w \<and> (case m of None \<Rightarrow> True | Some x \<Rightarrow> window_inv E P x w)"
  using assms
proof (induction rule: draining.induct)
  case (attempt m0 w0 m w now f r m' w')
  then have "drain_inv E P w" "window_inv E P m w" by auto
  from always_execs [OF attempt(3) always_drain [OF attempt(5) this attempt(2)]] show ?case by simp
next
  case (noticed m0 w0 o' h w v)
  then show ?case using window_inv_same [of E P o' h w "o'\<lparr>own_view := v\<rparr>"] by simp
next
  case (stop m0 w0 m w now f p w')
  then have "drain_inv E P w" "window_inv E P m w" by auto
  from always_now [OF always_execs [OF stop(3) always_drain [OF stop(5) this stop(2)]]] show ?case by simp
next
  case (restart m0 w0 w tr o' h)
  then show ?case by (auto simp: window_inv_def held_def split: sum.splits)
qed auto

subsection \<open>Properties\<close>

text \<open>The start of a drain: nothing of the hold is counted or logged yet.\<close>

definition drain_start :: "scan_env \<Rightarrow> drain_plan \<Rightarrow> station \<Rightarrow> bool" where
  "drain_start E P w \<longleftrightarrow> hold_ok (hold_store w) \<and> held (hold_store w) = plan_held P \<and>
     (\<forall>x \<in> set (plan_held P). \<forall>path ev. rows_of (event_logs w) path ev (held_scan_key (scan_id x)) = 0 \<and>
        rows_of (event_logs w) path ev (held_reject_key (scan_id x)) = 0) \<and>
     (\<exists>tr. durable_tray E P w = Some tr \<and> scanned_barcodes tr = plan_base P \<and> distinct (plan_base P) \<and>
        is_test_tray tr = plan_test P \<and> set (tray_timeline tr) \<subseteq> plan_times P \<and> (\<forall>x \<in> set (plan_held P). \<not> is_counted x tr))"

lemma drain_start_inv: "drain_start E P w \<Longrightarrow> drain_inv E P w"
proof -
  assume st: "drain_start E P w"
  then obtain tr where tr: "durable_tray E P w = Some tr" "scanned_barcodes tr = plan_base P" "distinct (plan_base P)"
    "is_test_tray tr = plan_test P" "set (tray_timeline tr) \<subseteq> plan_times P" "\<forall>x \<in> set (plan_held P). \<not> is_counted x tr"
    by (auto simp: drain_start_def)
  have none: "filter (\<lambda>x. is_counted x tr) (plan_held P) = []" using tr(6) by (simp add: filter_empty_conv)
  have inv: "tray_inv P tr" unfolding tray_inv_def none using tr(2-5) by simp
  have "set (tl (plan_held P)) \<subseteq> set (plan_held P)" by (cases "plan_held P") auto
  with st inv tr(1,6) show ?thesis
    unfolding drain_inv_def log_inv_def drain_start_def by (intro conjI exI [of _ "[]"] exI [of _ tr]) auto
qed


lemma position_of_new: "raw \<notin> set bs \<Longrightarrow> position_of raw (bs @ [raw]) = length bs"
  by (induction bs) (auto simp: position_of_def)

text \<open>
  C18. A repeated audit of a held scan writes what the first one wrote: on a tray restored from the state
  saved for the scan, the event has the same detail, so the log takes it for the same event and never
  refuses it as a different one.
\<close>

theorem held_audit_repeats:
  assumes "same_work (own_tray o2) (own_tray (owner_with_scan now raw sid o1))" "sid \<noteq> []" "strip sid \<noteq> []"
    "raw \<notin> set (scanned_barcodes (own_tray o1))" "length (scan_times (own_tray o1)) = length (scanned_barcodes (own_tray o1))"
  shows "persist_existing_held_scan_audit E now' raw sid o2 =
    (case scan_ok_detail E raw (interval_of now (own_tray o1)) (int (length (scanned_barcodes (own_tray (owner_with_scan now raw sid o1))))) of
       Inl e \<Rightarrow> Return (ScanRaised, o2)
     | Inr detail \<Rightarrow> LogScan True (scan_request E now' ''SCAN_OK'' detail (held_scan_key sid) True o2) (\<lambda>ok. Return (ScanDone ok, o2)))"
proof -
  let ?bs = "scanned_barcodes (own_tray o1)" and ?ts = "scan_times (own_tray o1)"
  have tray: "scanned_barcodes (own_tray o2) = ?bs @ [raw]" "scan_times (own_tray o2) = ?ts @ [now]"
    "scanned_barcodes (own_tray (owner_with_scan now raw sid o1)) = ?bs @ [raw]"
    using assms(1) owner_with_scan_same [OF assms(2,3), of now raw o1] by (auto simp: same_work_def)
  have pos: "position_of raw (?bs @ [raw]) = length ?bs" using assms(4) by (rule position_of_new)
  have "(if 0 < length ?bs \<and> length ?bs < length (?ts @ [now])
      then max 0 (seconds_between ((?ts @ [now]) ! length ?bs) ((?ts @ [now]) ! (length ?bs - 1))) else 0) = interval_of now (own_tray o1)"
    using assms(5) by (cases ?ts rule: rev_cases) (auto simp: interval_of_def nth_append)
  then show ?thesis
    unfolding persist_existing_held_scan_audit_def Let_def tray pos by (simp add: add.commute)
qed

text \<open>Noting an activity changes neither label nor scans.\<close>

definition same_scans_as :: "owner \<Rightarrow> owner \<Rightarrow> bool" where
  "same_scans_as o1 o2 \<longleftrightarrow> master_label_code (own_tray o1) = master_label_code (own_tray o2) \<and>
     scanned_barcodes (own_tray o1) = scanned_barcodes (own_tray o2) \<and> scan_times (own_tray o1) = scan_times (own_tray o2) \<and>
     start_time (own_tray o1) = start_time (own_tray o2)"

lemma always_activity: "always E sha (\<lambda>_. True) (\<lambda>o1 w. same_scans_as o1 o') (activity_steps E blocks now o') w"
proof -
  have "always E sha (\<lambda>_. True) (\<lambda>o1 w. same_scans_as o1 o') (wakeup_steps E blocks now o') w"
    by (auto simp: wakeup_steps_def Let_def save_scan_def same_scans_as_def split: option.split)
  then show ?thesis unfolding activity_steps_def by (intro always_then) (auto elim!: always_mono simp: same_scans_as_def)
qed

lemma snapshot_restores:
  assumes "iso_faithful (iso W) (tray_timeline (own_tray o'))"
  shows "\<exists>tr. tray_session_from_state C (iso W) n (current_tray_state_snapshot W now o') = Some tr \<and> same_work tr (own_tray o')"
  by (rule restores_same_work [OF snapshot_dget assms])

text \<open>
  C17. Undoing a scan is all or nothing for the operator: when it reports success the tray and the saved state lack
  exactly the last scan; in every other case, whatever write failed, the tray has the scans it had.
\<close>

theorem undo_takes_back_last:
  assumes "scan_execs E sha (undo_last_scan E f exchange_blocks now o') w (Return (ok, o1)) w'"
    "iso_faithful (iso (window E)) (tray_timeline (own_tray o'))"
  shows "scanned_barcodes (own_tray o1) = (if ok then butlast (scanned_barcodes (own_tray o')) else scanned_barcodes (own_tray o')) \<and>
    (ok \<longrightarrow> (\<exists>st tr. state_file w' = Some st \<and> tray_session_from_state C (iso (window E)) n st = Some tr \<and>
       scanned_barcodes tr = butlast (scanned_barcodes (own_tray o'))))"
proof -
  let ?Q = "\<lambda>(ok, o1) w'. scanned_barcodes (own_tray o1) = (if ok then butlast (scanned_barcodes (own_tray o')) else scanned_barcodes (own_tray o')) \<and>
    (ok \<longrightarrow> (\<exists>st tr. state_file w' = Some st \<and> tray_session_from_state C (iso (window E)) n st = Some tr \<and>
       scanned_barcodes tr = butlast (scanned_barcodes (own_tray o'))))"
  have saved: "\<exists>tr. tray_session_from_state C (iso (window E)) n (current_tray_state_snapshot (window E) now (without_last_scan o2)) = Some tr \<and>
      scanned_barcodes tr = butlast (scanned_barcodes (own_tray o'))" if "same_scans_as o2 o'" for o2
  proof -
    have "iso_faithful (iso (window E)) (tray_timeline (own_tray (without_last_scan o2)))"
      using assms(2) that by (auto simp: iso_faithful_def tray_timeline_def without_last_scan_def same_scans_as_def dest: in_set_butlastD)
    from snapshot_restores [OF this] that show ?thesis by (fastforce simp: same_work_def without_last_scan_def same_scans_as_def)
  qed
  have "always E sha (\<lambda>_. True) ?Q (undo_last_scan E f exchange_blocks now o') w"
    unfolding undo_last_scan_def
    by (auto intro!: always_then always_mono [OF always_activity] simp: Let_def saved)
       (auto simp: same_scans_as_def without_last_scan_def saved)
  from always_execs [OF assms(1) this] show ?thesis by simp
qed

subsection \<open>A concrete drain\<close>

definition held_env :: scan_env where
  "held_env = \<lparr>window = \<lparr>codecs = no_codecs, iso = demo_iso,
       writer = \<lparr>admin_display = ''admin'', contract_log_prefix = ''log'', local_log_prefix = ''own'', local_events_folder = [],
         own_source_system = ''s'', own_source_dataset = ''d''\<rparr>,
       texts = (\<lambda>_. ''text''), notices = (\<lambda>_. (''t'', ''m'')), sha256 = (\<lambda>_. ''h''), add_idle = (\<lambda>v n. v),
       history = ((''dir'', ''log_1.csv''), [], 0, [], [])\<rparr>,
     code_length = 2, catalog = build_catalog [], contract_version = ''v1'',
     warning_notice = (\<lambda>_. \<lparr>notice_code = ''c'', notice_title = ''t'', notice_message = ''m'', severity = ERROR, blocking = True\<rparr>)\<rparr>"

definition held_head :: held_scan where
  "held_head = \<lparr>scan_id = ''s7'', sequence = 1, raw_barcode = ''AB-2'', admitted_at = ''t1''\<rparr>"

definition held_snapshot :: hold_snapshot where
  "held_snapshot = demo_snapshot\<lparr>items := [held_head]\<rparr>"

definition held_owner :: owner where
  "held_owner = \<lparr>own_tray = demo_tray, own_worker = ''kim'', own_contract = None, own_review = None,
     own_view = \<lparr>active_notice = None, last_normal_scan = None, completion = None\<rparr>, own_activation = None, own_parked = None,
     own_idle = False, own_last_activity = None, own_folder = ''dir'', own_log = (''dir'', ''log_1.csv''), own_summary = [],
     own_count = 0, own_times = [], own_labels = []\<rparr>"

definition held_station :: station where
  "held_station = \<lparr>state_file = Some (tray_session_to_state demo_iso ''admin'' ''kim'' demo_tray),
     hold_store = empty_hold\<lparr>hold_file := Some (Content (VDict (snapshot_to_payload held_snapshot)))\<rparr>, event_logs = Map.empty\<rparr>"

definition held_plan :: drain_plan where
  "held_plan = \<lparr>plan_default = 60, plan_base = [''AB-1''], plan_held = [held_head], plan_log = (''dir'', ''log_1.csv''), plan_test = False,
     plan_times = {\<lparr>wall = 10, utc_offset = None\<rparr>, \<lparr>wall = 20, utc_offset = None\<rparr>}\<rparr>"

lemma held_snapshot_loads: "load_hold (hold_store held_station) = Inr held_snapshot"
proof -
  have "wf_snapshot held_snapshot"
    using demo_snapshot_wf by (simp add: wf_snapshot_def held_snapshot_def held_head_def wf_held_def clean_text_def strip_idI is_space_def)
  from write_hold_wf(2) [OF this] show ?thesis by (simp add: held_station_def)
qed

lemma held_station_tray: "durable_tray held_env held_plan held_station = Some (restored_tray no_codecs demo_tray)"
  using saved_tray_restores [OF demo_tray_facts(2), of no_codecs 60 "''admin''" "''kim''"]
  by (simp add: durable_tray_def held_env_def held_plan_def held_station_def)

lemma held_plan_ok: "plan_ok held_env held_plan"
  by (simp add: plan_ok_def held_plan_def held_env_def held_head_def clean_text_def strip_idI is_space_def demo_iso_def
      show_int_def) (code_simp)

definition no_flags :: scan_flags where
  "no_flags = \<lparr>closing = False, switch_pending = False, preflight_pending = False, offline_switch = False, replacing = False,
     test_command = False, reconciles = False, context_blocks = False\<rparr>"

abbreviation held_now :: dt where
  "held_now \<equiv> \<lparr>wall = 20, utc_offset = None\<rparr>"

lemma held_facts:
  "\<not> is_counted held_head (restored_tray no_codecs demo_tray)" "\<not> is_counted held_head (own_tray held_owner)"
  "preflight_held_scan_decision held_env ''AB-2'' (own_tray (held_receipts held_owner)) = Inr accept_decision"
  "product_decision held_env ''AB-2'' (own_tray (held_receipts held_owner)) = Inr accept_decision"
  "early_route held_env (no_flags\<lparr>context_blocks := True\<rparr>) ''AB-2'' (Some held_snapshot) (held_receipts held_owner) = None"
  "late_route held_env (no_flags\<lparr>context_blocks := True\<rparr>) ''AB-2'' ((held_receipts held_owner)\<lparr>own_last_activity := Some held_now\<rparr>) = RouteProduct"
  by code_simp+

lemma held_owner_tray: "same_work (own_tray held_owner) (restored_tray no_codecs demo_tray)"
  by (rule same_work_sym) (simp add: held_owner_def same_work_restored)

lemma held_fields:
  "items held_snapshot = [held_head]" "hold_state held_snapshot = HOLD_DRAINING" "\<not> is_blocking (own_view held_owner)"
  "raw_barcode held_head = ''AB-2''" "scan_id held_head = ''s7''" "own_log held_owner = (''dir'', ''log_1.csv'')"
  by (simp_all add: held_snapshot_def demo_snapshot_def held_owner_def is_blocking_def held_head_def)

lemma held_first_step:
  "\<exists>k. drain_preflight_hold_steps held_env no_flags held_now (held_owner, Some held_snapshot) =
     SaveState (state_with_scan held_env held_now ''AB-2'' ''s7'' ((held_receipts held_owner)\<lparr>own_last_activity := Some held_now\<rparr>)) k"
proof -
  let ?o = "(held_receipts held_owner)\<lparr>own_last_activity := Some held_now\<rparr>"
  have ok: "status accept_decision = SCAN_ACCEPTED" by (simp add: accept_decision_def)
  have "product_scan_steps held_env held_now True ''s7'' (Some accept_decision) ''AB-2'' ?o =
      accept_scan held_env held_now True ''s7'' ''AB-2'' ?o"
    by (rule product_scan_accepted [OF _ ok ok]) (simp add: held_facts(4))
  with held_facts(2,3,5,6) ok held_fields show ?thesis
    by (simp add: drain_preflight_hold_steps_def settle_head_def process_barcode_steps_def Let_def accept_scan_def)
qed

lemma held_start: "drain_start held_env held_plan held_station"
proof -
  have "held (hold_store held_station) = plan_held held_plan"
    using held_load [OF held_snapshot_loads] held_fields(1) by (simp add: held_plan_def)
  moreover have "rows_of (event_logs held_station) path ev key = 0" for path ev key
    by (simp add: held_station_def rows_of_def rows_at_def matching_def)
  moreover have "hold_ok (hold_store held_station)" using held_snapshot_loads by (simp add: hold_ok_def)
  moreover have "scanned_barcodes (restored_tray no_codecs demo_tray) = [''AB-1'']" "\<not> is_test_tray (restored_tray no_codecs demo_tray)"
    "tray_timeline (restored_tray no_codecs demo_tray) = [\<lparr>wall = 10, utc_offset = None\<rparr>, \<lparr>wall = 20, utc_offset = None\<rparr>]"
    by code_simp+
  ultimately show ?thesis
    unfolding drain_start_def using held_station_tray held_facts(1) by (simp add: held_plan_def)
qed


theorem held_audit_repeats_witness:
  "persist_existing_held_scan_audit held_env held_now ''AB-2'' ''s7'' (owner_with_scan held_now ''AB-2'' ''s7'' held_owner) =
    (case scan_ok_detail held_env ''AB-2'' (interval_of held_now demo_tray) 2 of
       Inl e \<Rightarrow> Return (ScanRaised, owner_with_scan held_now ''AB-2'' ''s7'' held_owner)
     | Inr detail \<Rightarrow> LogScan True (scan_request held_env held_now ''SCAN_OK'' detail (held_scan_key ''s7'') True
           (owner_with_scan held_now ''AB-2'' ''s7'' held_owner)) (\<lambda>ok. Return (ScanDone ok, owner_with_scan held_now ''AB-2'' ''s7'' held_owner)))"
proof -
  let ?o = "owner_with_scan held_now ''AB-2'' ''s7'' held_owner"
  have "int (length (scanned_barcodes (own_tray ?o))) = 2" "strip ''s7'' \<noteq> []" "''AB-2'' \<notin> set (scanned_barcodes (own_tray held_owner))"
    "length (scan_times (own_tray held_owner)) = length (scanned_barcodes (own_tray held_owner))"
    by code_simp+
  with held_audit_repeats [OF same_work_refl, of "''s7''" "''AB-2''" held_owner held_env held_now held_now]
  show ?thesis by (simp add: held_owner_def)
qed

theorem undo_takes_back_last_witness:
  "\<exists>ok o1 w. scan_execs held_env demo_digest (undo_last_scan held_env no_flags False held_now held_owner) held_station (Return (ok, o1)) w \<and>
     scanned_barcodes (own_tray o1) = (if ok then [] else [''AB-1''])"
proof -
  let ?o = "held_owner\<lparr>own_last_activity := Some held_now\<rparr>"
  have "\<exists>st k. undo_last_scan held_env no_flags False held_now held_owner = SaveState st k \<and> k (False, False) = Return (False, ?o)"
    by (simp add: undo_last_scan_def action_blocked_def no_flags_def operator_review_blocks_mutation_def active_blocking_completion_def
        activity_steps_def wakeup_steps_def held_owner_def demo_tray_def without_last_scan_def Let_def)
  then have "scan_execs held_env demo_digest (undo_last_scan held_env no_flags False held_now held_owner) held_station (Return (False, ?o)) held_station"
    by (metis scan_execs.more [OF scan_execs.here scan_exec.not_saved])
  moreover have "iso_faithful (iso (window held_env)) (tray_timeline (own_tray held_owner))"
    using demo_tray_facts(2) by (simp add: held_env_def held_owner_def)
  ultimately show ?thesis
    using undo_takes_back_last [of held_env demo_digest no_flags False held_now held_owner held_station False ?o held_station no_codecs 60]
    by (fastforce simp: held_owner_def demo_tray_def)
qed

end
