(* ===== verification/Recovery_Journal.thy ===== *)
theory Recovery_Journal
  imports Py_Value Machines
begin

text \<open>
  The two-phase recovery journal (\<open>recovery_two_phase.py\<close>): a durable, secret-free state machine
  for one recovery attempt. The journal file holds its size and its decoded content; the sealed
  package is a file of bytes next to it; terminal journals are archived under a name of their own.

  Writes are atomic, so a write either leaves the old file or installs the new one; \<open>write_outcome\<close>
  says which, with the writer fence's refusal kept apart because it comes before every other check.
  The clock is the argument \<open>now\<close>, \<open>sha\<close> is \<open>_sha256_bytes\<close>.

  The last sections state what the journal promises as an abstract decision machine, and show that
  every sequence of operations, with any failures, refines it.
\<close>

subsection \<open>Constants\<close>

definition JOURNAL_SCHEMA_VERSION :: string where
  "JOURNAL_SCHEMA_VERSION = ''kmtech-recovery-2pc-client-journal-v1''"

definition RECOVERY_PROTOCOL_VERSION :: string where
  "RECOVERY_PROTOCOL_VERSION = ''producer-admin-recovery-2pc-v1''"

definition TERMINAL_REASON_SIGNED_STATUS_EXPIRED :: string where
  "TERMINAL_REASON_SIGNED_STATUS_EXPIRED = ''SIGNED_STATUS_CONFIRMED_PREPARE_EXPIRED''"

definition STATE_PREPARE_INTENT_DURABLE :: string where "STATE_PREPARE_INTENT_DURABLE = ''PREPARE_INTENT_DURABLE''"
definition STATE_PREPARED :: string where "STATE_PREPARED = ''PREPARED''"
definition STATE_LOCAL_PACKAGE_DURABLE :: string where "STATE_LOCAL_PACKAGE_DURABLE = ''LOCAL_PACKAGE_DURABLE''"
definition STATE_COMMIT_INTENT_DURABLE :: string where "STATE_COMMIT_INTENT_DURABLE = ''COMMIT_INTENT_DURABLE''"
definition STATE_SERVER_COMMITTED :: string where "STATE_SERVER_COMMITTED = ''SERVER_COMMITTED''"
definition STATE_LOCAL_PERSISTED :: string where "STATE_LOCAL_PERSISTED = ''LOCAL_PERSISTED''"
definition STATE_CLEANUP_INTENT_DURABLE :: string where "STATE_CLEANUP_INTENT_DURABLE = ''CLEANUP_INTENT_DURABLE''"
definition STATE_COMPLETE :: string where "STATE_COMPLETE = ''COMPLETE''"
definition STATE_ABORTED :: string where "STATE_ABORTED = ''ABORTED''"
definition STATE_EXPIRED :: string where "STATE_EXPIRED = ''EXPIRED''"

lemmas recovery_state_defs = STATE_PREPARE_INTENT_DURABLE_def STATE_PREPARED_def STATE_LOCAL_PACKAGE_DURABLE_def
  STATE_COMMIT_INTENT_DURABLE_def STATE_SERVER_COMMITTED_def STATE_LOCAL_PERSISTED_def
  STATE_CLEANUP_INTENT_DURABLE_def STATE_COMPLETE_def STATE_ABORTED_def STATE_EXPIRED_def

definition TERMINAL_STATES :: "string list" where
  "TERMINAL_STATES = [STATE_COMPLETE, STATE_ABORTED, STATE_EXPIRED]"

definition ALLOWED_TRANSITIONS :: "(string, string list) dict" where
  "ALLOWED_TRANSITIONS =
     [(STATE_PREPARE_INTENT_DURABLE, [STATE_PREPARED, STATE_ABORTED]),
      (STATE_PREPARED, [STATE_LOCAL_PACKAGE_DURABLE, STATE_ABORTED, STATE_EXPIRED]),
      (STATE_LOCAL_PACKAGE_DURABLE, [STATE_COMMIT_INTENT_DURABLE, STATE_ABORTED, STATE_EXPIRED]),
      (STATE_COMMIT_INTENT_DURABLE, [STATE_SERVER_COMMITTED, STATE_ABORTED, STATE_EXPIRED]),
      (STATE_SERVER_COMMITTED, [STATE_LOCAL_PERSISTED]),
      (STATE_LOCAL_PERSISTED, [STATE_CLEANUP_INTENT_DURABLE]),
      (STATE_CLEANUP_INTENT_DURABLE, [STATE_COMPLETE]),
      (STATE_COMPLETE, []), (STATE_ABORTED, []), (STATE_EXPIRED, [])]"

definition allowed_from :: "string \<Rightarrow> string list" where
  "allowed_from st = (case dget ALLOWED_TRANSITIONS st of None \<Rightarrow> [] | Some nexts \<Rightarrow> nexts)"

definition REQUIRED_BINDING_FIELDS :: "string list" where
  "REQUIRED_BINDING_FIELDS =
     [''authorization_id'', ''authorization_audit_event_id'', ''client_request_id'', ''commit_id'',
      ''producer_id'', ''producer_install_id'', ''source_host_id'', ''manifest_hash'',
      ''possession_key_fingerprint'']"

definition FORBIDDEN_JOURNAL_KEYS :: "string list" where
  "FORBIDDEN_JOURNAL_KEYS =
     [''secret'', ''secret_hex'', ''recovery_token'', ''nonce'', ''bearer_token'', ''token'',
      ''private_jwk'', ''private_key'']"

subsection \<open>Files and errors\<close>

datatype recovery_error =
    JournalSizeInvalid | JournalUnreadable | JournalSecretFields | JournalContractInvalid
  | PackagePathChanged | BindingsInvalid | ArchiveExists | BindingMismatch | JournalAbsent
  | IdempotentMismatch | ForbiddenTransition string string | TransitionSecretFields
  | PackageInvalid | ReadbackMismatch | PackageNotDurable | PackageUnavailable | PackageHashMismatch
  | CannotAbort | CannotExpire | CleanupNotAllowed | CleanupFailed
  | WriterFenced | RecoveryOSError | RecoveryValueError | RecoveryTypeError | RecoveryKeyError

text \<open>A file is its size in bytes with its decoded JSON value, or with no readable content.\<close>

datatype journal_file = JournalJson nat pyval | JournalGarbage nat

record recovery_dir =
  journal_name :: string
  sealed_package_path :: string
  dir_files :: "string \<Rightarrow> journal_file option"
  sealed_package :: "string option"

datatype write_outcome = Written | Fenced | DiskFailed

type_synonym 'a recovery_op = "recovery_dir \<Rightarrow> (recovery_error + 'a) \<times> recovery_dir"

subsection \<open>Secret keys\<close>

fun contains_forbidden_key :: "pyval \<Rightarrow> bool" where
  "contains_forbidden_key (VDict d) =
     list_ex (\<lambda>(k, v). lower (strip k) \<in> set FORBIDDEN_JOURNAL_KEYS \<or> contains_forbidden_key v) d"
| "contains_forbidden_key (VList vs) = list_ex contains_forbidden_key vs"
| "contains_forbidden_key v = False"

subsection \<open>Reading\<close>

definition known_state :: "pyval \<Rightarrow> recovery_error + bool" where
  "known_state v = (case v of
       VStr st \<Rightarrow> Inr (st \<in> set (dkeys ALLOWED_TRANSITIONS))
     | VList vs \<Rightarrow> Inl RecoveryTypeError
     | VDict d \<Rightarrow> Inl RecoveryTypeError
     | _ \<Rightarrow> Inr False)"

definition bindings_shape :: "pyval \<Rightarrow> bool" where
  "bindings_shape v = (case as_dict v of None \<Rightarrow> False | Some b \<Rightarrow> set (dkeys b) = set REQUIRED_BINDING_FIELDS)"

definition check_contract :: "(string, pyval) dict \<Rightarrow> recovery_error + unit" where
  "check_contract payload =
     (if vget payload ''schema_version'' \<noteq> VStr JOURNAL_SCHEMA_VERSION
         \<or> vget payload ''protocol_version'' \<noteq> VStr RECOVERY_PROTOCOL_VERSION
      then Inl JournalContractInvalid
      else rbind (known_state (vget payload ''state'')) (\<lambda>known.
        ensure (known \<and> bindings_shape (vget payload ''bindings'')
          \<and> (case as_list (vget payload ''transitions'') of None \<Rightarrow> False | Some ts \<Rightarrow> ts \<noteq> []))
          JournalContractInvalid))"

definition load_journal :: "recovery_dir \<Rightarrow> recovery_error + (string, pyval) dict option" where
  "load_journal d = (case dir_files d (journal_name d) of
       None \<Rightarrow> Inr None
     | Some (JournalGarbage n) \<Rightarrow>
         Inl (if n = 0 \<or> 262144 < n then JournalSizeInvalid else JournalUnreadable)
     | Some (JournalJson n v) \<Rightarrow>
         if n = 0 \<or> 262144 < n then Inl JournalSizeInvalid
         else (case as_dict v of
             None \<Rightarrow> Inl JournalSecretFields
           | Some payload \<Rightarrow>
               if contains_forbidden_key (VDict payload) then Inl JournalSecretFields
               else rbind (check_contract payload) (\<lambda>_.
                 if vget payload ''sealed_package_path'' \<noteq> VStr (sealed_package_path d)
                 then Inl PackagePathChanged else Inr (Some payload))))"

subsection \<open>Writing\<close>

definition journal_size :: "(string, pyval) dict \<Rightarrow> nat" where
  "journal_size payload = utf8_length (dumps_indent 0 (VDict payload)) + 1"

definition write_journal :: "write_outcome \<Rightarrow> (string, pyval) dict \<Rightarrow> (string, pyval) dict recovery_op" where
  "write_journal w payload d =
     (if w = Fenced then (Inl WriterFenced, d)
      else if contains_forbidden_key (VDict payload) then (Inl JournalSecretFields, d)
      else if w = DiskFailed then (Inl RecoveryOSError, d)
      else (Inr payload, d\<lparr>dir_files := (dir_files d)(journal_name d \<mapsto>
              JournalJson (journal_size payload) (VDict payload))\<rparr>))"

definition log_entry :: "int \<Rightarrow> string \<Rightarrow> string \<Rightarrow> string \<Rightarrow> pyval" where
  "log_entry n from_state to_state now =
     VDict [(''sequence'', VInt n), (''from'', VStr from_state), (''to'', VStr to_state), (''at'', VStr now)]"

definition normalize_bindings :: "(string, pyval) dict \<Rightarrow> (string, string) dict" where
  "normalize_bindings bindings = map (\<lambda>(k, v). (k, strip (str_or_empty v))) bindings"

definition binding_values :: "(string, string) dict \<Rightarrow> pyval" where
  "binding_values b = VDict (map (\<lambda>(k, v). (k, VStr v)) b)"

text \<open>\<open>existing["bindings"] == normalized\<close>: dicts compare without regard to order.\<close>

definition same_bindings :: "pyval \<Rightarrow> (string, string) dict \<Rightarrow> bool" where
  "same_bindings v b = (case as_dict v of
       None \<Rightarrow> False
     | Some e \<Rightarrow> set (dkeys e) = set (dkeys b) \<and> list_all (\<lambda>k. vget e k = VStr (the (dget b k))) (dkeys b))"

definition initial_payload :: "recovery_dir \<Rightarrow> (string, string) dict \<Rightarrow> string \<Rightarrow> (string, pyval) dict" where
  "initial_payload d normalized now =
     [(''schema_version'', VStr JOURNAL_SCHEMA_VERSION), (''protocol_version'', VStr RECOVERY_PROTOCOL_VERSION),
      (''state'', VStr STATE_PREPARE_INTENT_DURABLE), (''bindings'', binding_values normalized),
      (''prepare_id'', VStr []), (''prepare_expires_at'', VStr []), (''proposed_credential_epoch'', VNone),
      (''prepared_key_id'', VStr []), (''prepared_secret_fingerprint_sha256'', VStr []),
      (''sealed_package_path'', VStr (sealed_package_path d)), (''sealed_package_sha256'', VStr []),
      (''server_committed_at'', VStr []), (''committed_credential_epoch'', VNone),
      (''terminal_reason_code'', VStr []), (''terminal_server_state'', VStr []),
      (''terminal_observed_at'', VStr []), (''created_at'', VStr now), (''updated_at'', VStr now),
      (''transitions'', VList [log_entry 1 ''NONE'' STATE_PREPARE_INTENT_DURABLE now])]"

definition archive_name :: "(string, pyval) dict \<Rightarrow> string" where
  "archive_name existing =
     (if vget existing ''state'' = VStr STATE_COMPLETE then ''completed'' else ''terminal'') @ ''-''
     @ (case as_dict (vget existing ''bindings'') of
          None \<Rightarrow> [] | Some b \<Rightarrow> py_str (vget b ''client_request_id'')) @ ''.json''"

text \<open>\<open>Path.with_name\<close> refuses a name with a separator.\<close>

definition is_file_name :: "string \<Rightarrow> bool" where
  "is_file_name s = list_all (\<lambda>c. c \<noteq> CHR ''/'' \<and> c \<noteq> CHR 0x5C) s"

definition is_terminal :: "(string, pyval) dict \<Rightarrow> bool" where
  "is_terminal payload = list_ex (\<lambda>st. vget payload ''state'' = VStr st) TERMINAL_STATES"

text \<open>Moving a terminal journal out of the way; \<open>moved\<close> is whether \<open>os.replace\<close> succeeds.\<close>

definition archive_journal :: "bool \<Rightarrow> (string, pyval) dict \<Rightarrow> unit recovery_op" where
  "archive_journal moved existing d =
     (if \<not> (is_terminal existing \<and> sealed_package d = None) then (Inl BindingMismatch, d)
      else if \<not> is_file_name (archive_name existing) then (Inl RecoveryValueError, d)
      else if dir_files d (archive_name existing) \<noteq> None then (Inl ArchiveExists, d)
      else if \<not> moved then (Inl RecoveryOSError, d)
      else (Inr (), d\<lparr>dir_files := (dir_files d)(journal_name d := None,
              archive_name existing := dir_files d (journal_name d))\<rparr>))"

definition initialize ::
  "write_outcome \<Rightarrow> bool \<Rightarrow> string \<Rightarrow> (string, pyval) dict \<Rightarrow> (string, pyval) dict recovery_op" where
  "initialize w moved now bindings d =
     (let normalized = normalize_bindings bindings in
      if w = Fenced then (Inl WriterFenced, d)
      else if set (dkeys normalized) \<noteq> set REQUIRED_BINDING_FIELDS \<or> list_ex (\<lambda>(k, v). v = []) normalized
      then (Inl BindingsInvalid, d)
      else case load_journal d of
        Inl e \<Rightarrow> (Inl e, d)
      | Inr None \<Rightarrow> write_journal w (initial_payload d normalized now) d
      | Inr (Some existing) \<Rightarrow>
          if same_bindings (vget existing ''bindings'') normalized then (Inr existing, d)
          else (case archive_journal moved existing d of
              (Inl e, d') \<Rightarrow> (Inl e, d')
            | (Inr _, d') \<Rightarrow> write_journal w (initial_payload d' normalized now) d'))"

definition assert_bindings :: "(string, pyval) dict \<Rightarrow> recovery_dir \<Rightarrow> recovery_error + (string, pyval) dict" where
  "assert_bindings expected d =
     rbind (load_journal d) (\<lambda>loaded. case loaded of
         None \<Rightarrow> Inl JournalAbsent
       | Some payload \<Rightarrow>
           rbind (ensure (same_bindings (vget payload ''bindings'') (normalize_bindings expected)) BindingMismatch)
             (\<lambda>_. Inr payload))"

subsection \<open>Transitions\<close>

text \<open>\<open>payload.get(key) == value\<close> for the texts and integers the operations pass.\<close>

definition same_value :: "pyval \<Rightarrow> pyval \<Rightarrow> bool" where
  "same_value stored v = (case v of VInt n \<Rightarrow> eq_int stored n | _ \<Rightarrow> stored = v)"

definition logged :: "(string, pyval) dict \<Rightarrow> pyval list" where
  "logged payload = (case as_list (vget payload ''transitions'') of None \<Rightarrow> [] | Some ts \<Rightarrow> ts)"

definition moved_payload ::
  "string \<Rightarrow> string \<Rightarrow> string \<Rightarrow> (string, pyval) dict \<Rightarrow> (string, pyval) dict \<Rightarrow> (string, pyval) dict" where
  "moved_payload now current next_state updates payload =
     (let p = dset ''updated_at'' (VStr now) (dset ''state'' (VStr next_state) (dupdate payload updates))
      in dset ''transitions''
           (VList (logged p @ [log_entry (int (length (logged p)) + 1) current next_state now])) p)"

definition transition ::
  "write_outcome \<Rightarrow> string \<Rightarrow> string list \<Rightarrow> string \<Rightarrow> (string, pyval) dict \<Rightarrow> (string, pyval) dict recovery_op" where
  "transition w now expected_states next_state updates d =
     (case load_journal d of
        Inl e \<Rightarrow> (Inl e, d)
      | Inr None \<Rightarrow> (Inl JournalAbsent, d)
      | Inr (Some payload) \<Rightarrow>
          let current = py_str (vget payload ''state'') in
          if current = next_state then
            (if list_all (\<lambda>(k, v). same_value (vget payload k) v) updates
             then (Inr payload, d) else (Inl IdempotentMismatch, d))
          else if current \<notin> set expected_states \<or> next_state \<notin> set (allowed_from current)
          then (Inl (ForbiddenTransition current next_state), d)
          else if contains_forbidden_key (VDict updates) then (Inl TransitionSecretFields, d)
          else write_journal w (moved_payload now current next_state updates payload) d)"

definition record_prepared ::
  "write_outcome \<Rightarrow> string \<Rightarrow> string \<Rightarrow> string \<Rightarrow> int \<Rightarrow> string \<Rightarrow> string \<Rightarrow> (string, pyval) dict recovery_op" where
  "record_prepared w now prepare_id prepare_expires_at epoch key_id fingerprint =
     transition w now [STATE_PREPARE_INTENT_DURABLE] STATE_PREPARED
       [(''prepare_id'', VStr prepare_id), (''prepare_expires_at'', VStr prepare_expires_at),
        (''proposed_credential_epoch'', VInt epoch), (''prepared_key_id'', VStr key_id),
        (''prepared_secret_fingerprint_sha256'', VStr fingerprint)]"

definition stage_sealed_package ::
  "(string \<Rightarrow> string) \<Rightarrow> write_outcome \<Rightarrow> write_outcome \<Rightarrow> string \<Rightarrow> string \<Rightarrow> (string, pyval) dict recovery_op" where
  "stage_sealed_package sha wp w now sealed d =
     (if sealed = [] then (Inl PackageInvalid, d)
      else if wp = Fenced then (Inl WriterFenced, d)
      else if wp = DiskFailed then (Inl RecoveryOSError, d)
      else let d' = d\<lparr>sealed_package := Some sealed\<rparr> in
        case sealed_package d' of
          None \<Rightarrow> (Inl RecoveryOSError, d')
        | Some readback \<Rightarrow>
            if readback \<noteq> sealed then (Inl ReadbackMismatch, d')
            else transition w now [STATE_PREPARED] STATE_LOCAL_PACKAGE_DURABLE
                   [(''sealed_package_sha256'', VStr (sha readback))] d')"

definition read_sealed_package :: "(string \<Rightarrow> string) \<Rightarrow> recovery_dir \<Rightarrow> recovery_error + string" where
  "read_sealed_package sha d =
     rbind (load_journal d) (\<lambda>loaded. case loaded of
         None \<Rightarrow> Inl PackageNotDurable
       | Some payload \<Rightarrow>
           if list_ex (\<lambda>st. vget payload ''state'' = VStr st)
                [STATE_PREPARE_INTENT_DURABLE, STATE_PREPARED, STATE_ABORTED, STATE_EXPIRED]
           then Inl PackageNotDurable
           else (case sealed_package d of
               None \<Rightarrow> Inl PackageUnavailable
             | Some sealed \<Rightarrow>
                 if sealed = [] then Inl PackageHashMismatch
                 else (case dget payload ''sealed_package_sha256'' of
                     None \<Rightarrow> Inl RecoveryKeyError
                   | Some h \<Rightarrow> if VStr (sha sealed) \<noteq> h then Inl PackageHashMismatch else Inr sealed)))"

definition mark_commit_intent :: "write_outcome \<Rightarrow> string \<Rightarrow> (string, pyval) dict recovery_op" where
  "mark_commit_intent w now = transition w now [STATE_LOCAL_PACKAGE_DURABLE] STATE_COMMIT_INTENT_DURABLE []"

definition mark_server_committed :: "write_outcome \<Rightarrow> string \<Rightarrow> string \<Rightarrow> int \<Rightarrow> (string, pyval) dict recovery_op" where
  "mark_server_committed w now committed_at epoch =
     transition w now [STATE_COMMIT_INTENT_DURABLE] STATE_SERVER_COMMITTED
       [(''server_committed_at'', VStr committed_at), (''committed_credential_epoch'', VInt epoch)]"

definition mark_local_persisted :: "write_outcome \<Rightarrow> string \<Rightarrow> (string, pyval) dict recovery_op" where
  "mark_local_persisted w now = transition w now [STATE_SERVER_COMMITTED] STATE_LOCAL_PERSISTED []"

definition mark_cleanup_intent :: "write_outcome \<Rightarrow> string \<Rightarrow> (string, pyval) dict recovery_op" where
  "mark_cleanup_intent w now = transition w now [STATE_LOCAL_PERSISTED] STATE_CLEANUP_INTENT_DURABLE []"

definition mark_complete :: "write_outcome \<Rightarrow> string \<Rightarrow> (string, pyval) dict recovery_op" where
  "mark_complete w now = transition w now [STATE_CLEANUP_INTENT_DURABLE] STATE_COMPLETE []"

definition mark_aborted :: "write_outcome \<Rightarrow> string \<Rightarrow> (string, pyval) dict recovery_op" where
  "mark_aborted w now d = (case load_journal d of
       Inl e \<Rightarrow> (Inl e, d)
     | Inr None \<Rightarrow> (Inl JournalAbsent, d)
     | Inr (Some payload) \<Rightarrow>
         let st = py_str (vget payload ''state'') in
         if st \<notin> {STATE_PREPARE_INTENT_DURABLE, STATE_PREPARED, STATE_LOCAL_PACKAGE_DURABLE,
                    STATE_COMMIT_INTENT_DURABLE}
         then (Inl CannotAbort, d)
         else transition w now [st] STATE_ABORTED [] d)"

definition mark_expired :: "write_outcome \<Rightarrow> string \<Rightarrow> string \<Rightarrow> (string, pyval) dict recovery_op" where
  "mark_expired w observed_at now d = (case load_journal d of
       Inl e \<Rightarrow> (Inl e, d)
     | Inr None \<Rightarrow> (Inl JournalAbsent, d)
     | Inr (Some payload) \<Rightarrow>
         let st = py_str (vget payload ''state'') in
         if st = STATE_EXPIRED then (Inr payload, d)
         else if st \<notin> {STATE_PREPARED, STATE_LOCAL_PACKAGE_DURABLE, STATE_COMMIT_INTENT_DURABLE}
         then (Inl CannotExpire, d)
         else transition w now [st] STATE_EXPIRED
           [(''terminal_reason_code'', VStr TERMINAL_REASON_SIGNED_STATUS_EXPIRED),
            (''terminal_server_state'', VStr STATE_EXPIRED), (''terminal_observed_at'', VStr observed_at)] d)"

text \<open>The three removals differ in the states they accept.\<close>

definition remove_sealed_package_in :: "string list \<Rightarrow> write_outcome \<Rightarrow> unit recovery_op" where
  "remove_sealed_package_in states w d =
     (if w = Fenced then (Inl WriterFenced, d)
      else case load_journal d of
        Inl e \<Rightarrow> (Inl e, d)
      | Inr None \<Rightarrow> (Inl CleanupNotAllowed, d)
      | Inr (Some payload) \<Rightarrow>
          if \<not> list_ex (\<lambda>st. vget payload ''state'' = VStr st) states then (Inl CleanupNotAllowed, d)
          else if w = DiskFailed then (Inl RecoveryOSError, d)
          else let d' = d\<lparr>sealed_package := None\<rparr> in
            if sealed_package d' \<noteq> None then (Inl CleanupFailed, d') else (Inr (), d'))"

definition remove_sealed_package_after_expiry :: "write_outcome \<Rightarrow> unit recovery_op" where
  "remove_sealed_package_after_expiry = remove_sealed_package_in [STATE_EXPIRED]"

definition remove_sealed_package_after_terminal :: "write_outcome \<Rightarrow> unit recovery_op" where
  "remove_sealed_package_after_terminal = remove_sealed_package_in TERMINAL_STATES"

definition remove_sealed_package_after_complete :: "write_outcome \<Rightarrow> unit recovery_op" where
  "remove_sealed_package_after_complete = remove_sealed_package_in [STATE_COMPLETE]"

subsection \<open>Calls\<close>

text \<open>The operations as calls, each with the outcomes of its writes.\<close>

datatype recovery_call =
    Initialize write_outcome bool string "(string, pyval) dict"
  | RecordPrepared write_outcome string string string int string string
  | StagePackage write_outcome write_outcome string string
  | CommitIntent write_outcome string
  | ServerCommitted write_outcome string string int
  | LocalPersisted write_outcome string
  | CleanupIntent write_outcome string
  | Complete write_outcome string
  | Aborted write_outcome string
  | Expired write_outcome string string
  | RemoveAfterExpiry write_outcome
  | RemoveAfterTerminal write_outcome
  | RemoveAfterComplete write_outcome

fun run_recovery :: "(string \<Rightarrow> string) \<Rightarrow> recovery_call \<Rightarrow> recovery_dir \<Rightarrow> recovery_dir" where
  "run_recovery sha (Initialize w moved now b) d = snd (initialize w moved now b d)"
| "run_recovery sha (RecordPrepared w now i e n k f) d = snd (record_prepared w now i e n k f d)"
| "run_recovery sha (StagePackage wp w now x) d = snd (stage_sealed_package sha wp w now x d)"
| "run_recovery sha (CommitIntent w now) d = snd (mark_commit_intent w now d)"
| "run_recovery sha (ServerCommitted w now c n) d = snd (mark_server_committed w now c n d)"
| "run_recovery sha (LocalPersisted w now) d = snd (mark_local_persisted w now d)"
| "run_recovery sha (CleanupIntent w now) d = snd (mark_cleanup_intent w now d)"
| "run_recovery sha (Complete w now) d = snd (mark_complete w now d)"
| "run_recovery sha (Aborted w now) d = snd (mark_aborted w now d)"
| "run_recovery sha (Expired w seen now) d = snd (mark_expired w seen now d)"
| "run_recovery sha (RemoveAfterExpiry w) d = snd (remove_sealed_package_after_expiry w d)"
| "run_recovery sha (RemoveAfterTerminal w) d = snd (remove_sealed_package_after_terminal w d)"
| "run_recovery sha (RemoveAfterComplete w) d = snd (remove_sealed_package_after_complete w d)"

subsection \<open>What a call can do to the directory\<close>

definition core_keys :: "string list" where
  "core_keys = [''schema_version'', ''protocol_version'', ''state'', ''bindings'', ''sealed_package_path'', ''transitions'']"

definition put_journal :: "(string, pyval) dict \<Rightarrow> recovery_dir \<Rightarrow> recovery_dir" where
  "put_journal p d = d\<lparr>dir_files := (dir_files d)(journal_name d \<mapsto> JournalJson (journal_size p) (VDict p))\<rparr>"

text \<open>
  The effect of one call is one of these moves, or two of them when a new attempt retires the
  journal of the previous one or a package is staged. The flag is set for staging, the only call
  that writes the package or its hash.
\<close>

inductive journal_move :: "bool \<Rightarrow> recovery_dir \<Rightarrow> recovery_dir \<Rightarrow> bool" where
  stay: "journal_move g d d"
| drop: "load_journal d = Inr (Some p) \<Longrightarrow> is_terminal p \<Longrightarrow> journal_move g d (d\<lparr>sealed_package := None\<rparr>)"
| stage: "journal_move True d (d\<lparr>sealed_package := Some x\<rparr>)"
| advance: "load_journal d = Inr (Some p) \<Longrightarrow> vget p ''state'' = VStr st \<Longrightarrow> nx \<in> set (allowed_from st) \<Longrightarrow>
    set (dkeys ups) \<inter> set core_keys = {} \<Longrightarrow> g \<or> ''sealed_package_sha256'' \<notin> set (dkeys ups) \<Longrightarrow>
    q = moved_payload now st nx ups p \<Longrightarrow>
    \<not> contains_forbidden_key (VDict q) \<Longrightarrow> journal_move g d (put_journal q d)"
| create: "load_journal d = Inr None \<Longrightarrow> set (dkeys b) = set REQUIRED_BINDING_FIELDS \<Longrightarrow>
    q = initial_payload d b now \<Longrightarrow> \<not> contains_forbidden_key (VDict q) \<Longrightarrow> journal_move g d (put_journal q d)"
| retire: "load_journal d = Inr (Some p) \<Longrightarrow> is_terminal p \<Longrightarrow> sealed_package d = None \<Longrightarrow>
    dir_files d nm = None \<Longrightarrow>
    journal_move g d (d\<lparr>dir_files := (dir_files d)(journal_name d := None, nm := dir_files d (journal_name d))\<rparr>)"

declare contains_forbidden_key.simps [simp del]

lemma load_ignores_package [simp]: "load_journal (d\<lparr>sealed_package := x\<rparr>) = load_journal d"
  by (simp add: load_journal_def split: option.splits journal_file.splits)

lemma load_state:
  assumes "load_journal d = Inr (Some p)"
  obtains st n where "vget p ''state'' = VStr st" "st \<in> set (dkeys ALLOWED_TRANSITIONS)"
    "dir_files d (journal_name d) = Some (JournalJson n (VDict p))"
  using assms that
  by (auto simp: load_journal_def check_contract_def known_state_def result_simps
      split: option.splits journal_file.splits if_splits pyval.splits)

lemma load_absent: "load_journal d = Inr None \<longleftrightarrow> dir_files d (journal_name d) = None"
  by (auto simp: load_journal_def result_simps split: option.splits journal_file.splits if_splits)

lemma write_journal_moves:
  assumes "\<not> contains_forbidden_key (VDict p) \<Longrightarrow> journal_move g d (put_journal p d)"
  shows "journal_move g d (snd (write_journal w p d))"
  using assms by (auto simp: write_journal_def put_journal_def intro: journal_move.stay)

lemma transition_moves:
  assumes "set (dkeys ups) \<inter> set core_keys = {}" "g \<or> ''sealed_package_sha256'' \<notin> set (dkeys ups)"
  shows "journal_move g d (snd (transition w now ex nx ups d))"
proof (cases "load_journal d")
  case (Inr loaded)
  show ?thesis
  proof (cases loaded)
    case (Some p)
    with Inr have l: "load_journal d = Inr (Some p)" by simp
    then obtain st where st: "vget p ''state'' = VStr st" by (rule load_state)
    show ?thesis
    proof (cases "st = nx \<or> st \<notin> set ex \<or> nx \<notin> set (allowed_from st) \<or> contains_forbidden_key (VDict ups)")
      case True
      then have "snd (transition w now ex nx ups d) = d"
        by (auto simp: transition_def l st Let_def)
      then show ?thesis by (simp add: journal_move.stay)
    next
      case False
      then have "transition w now ex nx ups d = write_journal w (moved_payload now st nx ups p) d"
        by (simp add: transition_def l st Let_def)
      then show ?thesis
        using journal_move.advance [OF l st _ assms(1) assms(2) refl] False
        by (auto intro!: write_journal_moves)
    qed
  qed (use Inr in \<open>simp add: transition_def journal_move.stay\<close>)
qed (simp add: transition_def journal_move.stay)

lemma remove_moves:
  assumes "set states \<subseteq> set TERMINAL_STATES"
  shows "journal_move g d (snd (remove_sealed_package_in states w d))"
proof -
  have "is_terminal p" if "list_ex (\<lambda>st. vget p ''state'' = VStr st) states" for p
    using that assms by (auto simp: is_terminal_def list_ex_iff)
  then show ?thesis
    by (auto simp: remove_sealed_package_in_def Let_def intro: journal_move.stay journal_move.drop
        split: sum.splits option.splits)
qed

lemma stage_moves:
  "(journal_move True OO journal_move True) d (snd (stage_sealed_package sha wp w now x d))"
proof (cases "x = [] \<or> wp \<noteq> Written")
  case True
  then have "snd (stage_sealed_package sha wp w now x d) = d"
    by (cases wp) (auto simp: stage_sealed_package_def)
  then show ?thesis using journal_move.stay by auto
next
  case False
  then have "stage_sealed_package sha wp w now x d =
      transition w now [STATE_PREPARED] STATE_LOCAL_PACKAGE_DURABLE [(''sealed_package_sha256'', VStr (sha x))]
        (d\<lparr>sealed_package := Some x\<rparr>)"
    by (simp add: stage_sealed_package_def)
  then show ?thesis
    using journal_move.stage [of d x] transition_moves [of "[(''sealed_package_sha256'', VStr (sha x))]"]
    by (auto simp: core_keys_def)
qed

lemma create_moves:
  assumes "load_journal d = Inr None" "set (dkeys b) = set REQUIRED_BINDING_FIELDS"
  shows "journal_move g d (snd (write_journal w (initial_payload d b now) d))"
  by (rule write_journal_moves, rule journal_move.create [OF assms refl])

lemma archive_moves:
  assumes "load_journal d = Inr (Some p)" "archive_journal moved p d = (r, d')"
  shows "journal_move g d d' \<and> (isl r \<and> d' = d \<or> load_journal d' = Inr None)"
  using assms(2) journal_move.retire [OF assms(1)]
  by (auto simp: archive_journal_def load_absent intro: journal_move.stay split: if_splits)

lemma initialize_moves: "(journal_move g OO journal_move g) d (snd (initialize w moved now b d))"
proof -
  let ?n = "normalize_bindings b"
  have one: "(journal_move g OO journal_move g) d e" if "journal_move g d e" for e
    using that journal_move.stay by auto
  show ?thesis
  proof (cases "w = Fenced \<or> set (dkeys ?n) \<noteq> set REQUIRED_BINDING_FIELDS \<or> list_ex (\<lambda>(k, v). v = []) ?n")
    case True
    then have "snd (initialize w moved now b d) = d" by (auto simp: initialize_def Let_def)
    then show ?thesis using one journal_move.stay by simp
  next
    case False
    show ?thesis
    proof (cases "load_journal d")
      case (Inl e)
      with False have "snd (initialize w moved now b d) = d" by (simp add: initialize_def Let_def)
      then show ?thesis using one journal_move.stay by simp
    next
      case l: (Inr loaded)
      show ?thesis
      proof (cases loaded)
        case None
        with l False show ?thesis by (intro one) (simp add: initialize_def Let_def create_moves)
      next
        case (Some p)
        obtain r d' where ar: "archive_journal moved p d = (r, d')" by (metis prod.exhaust)
        note am = archive_moves [OF l [unfolded Some] ar]
        have "snd (initialize w moved now b d) =
            (if same_bindings (vget p ''bindings'') ?n then d
             else if isl r then d' else snd (write_journal w (initial_payload d' ?n now) d'))"
          using False l Some ar by (cases r) (simp_all add: initialize_def Let_def)
        moreover have "(journal_move g OO journal_move g) d (snd (write_journal w (initial_payload d' ?n now) d'))"
          if "\<not> isl r"
          using am that False create_moves [of d' ?n] by (meson relcomppI)
        moreover have "(journal_move g OO journal_move g) d d" "(journal_move g OO journal_move g) d d'"
          using am one journal_move.stay by auto
        ultimately show ?thesis by simp
      qed
    qed
  qed
qed

lemma abort_moves: "journal_move g d (snd (mark_aborted w now d))"
  using transition_moves [of "[]"]
  by (auto simp: mark_aborted_def Let_def intro: journal_move.stay split: sum.splits option.splits)

lemma expire_moves: "journal_move g d (snd (mark_expired w seen now d))"
proof -
  have "journal_move g d (snd (transition w now ex nx [(''terminal_reason_code'', a), (''terminal_server_state'', b),
      (''terminal_observed_at'', c)] d))" for ex nx a b c
    by (rule transition_moves) (simp_all add: core_keys_def)
  then show ?thesis
    by (auto simp: mark_expired_def Let_def intro: journal_move.stay split: sum.splits option.splits)
qed

fun is_staging :: "recovery_call \<Rightarrow> bool" where
  "is_staging (StagePackage wp w now x) = True"
| "is_staging c = False"

fun is_initialize :: "recovery_call \<Rightarrow> bool" where
  "is_initialize (Initialize w moved now b) = True"
| "is_initialize c = False"

lemma run_moves_once:
  assumes "\<not> is_staging c" "\<not> is_initialize c"
  shows "journal_move False d (run_recovery sha c d)"
proof (cases c)
  case (RecordPrepared w now i e n k f)
  then show ?thesis by (auto simp: record_prepared_def core_keys_def intro!: transition_moves)
next
  case (ServerCommitted w now c n)
  then show ?thesis by (auto simp: mark_server_committed_def core_keys_def intro!: transition_moves)
qed (use assms in \<open>auto simp: mark_commit_intent_def mark_local_persisted_def mark_cleanup_intent_def mark_complete_def
    remove_sealed_package_after_expiry_def remove_sealed_package_after_terminal_def TERMINAL_STATES_def
    remove_sealed_package_after_complete_def
    intro!: transition_moves remove_moves abort_moves expire_moves\<close>)

lemma run_moves: "\<exists>g. (journal_move g OO journal_move g) d (run_recovery sha c d)"
proof (cases c)
  case (Initialize w moved now b)
  then show ?thesis by (auto simp del: relcompp_apply intro: initialize_moves)
next
  case (StagePackage wp w now x)
  then show ?thesis by (auto simp del: relcompp_apply intro: stage_moves)
qed (use run_moves_once [of c d sha] journal_move.stay [of False] in auto)

subsection \<open>Well-formed journals\<close>

text \<open>The transitions a journal can have logged, with the state they lead to.\<close>

type_synonym log_line = "int \<times> string \<times> string \<times> string"

definition line_value :: "log_line \<Rightarrow> pyval" where
  "line_value = (\<lambda>(n, f, t, time). log_entry n f t time)"

inductive journal_log :: "log_line list \<Rightarrow> string \<Rightarrow> bool" where
  begin_log: "journal_log [(1, ''NONE'', STATE_PREPARE_INTENT_DURABLE, now)] STATE_PREPARE_INTENT_DURABLE"
| extend_log: "journal_log ls st \<Longrightarrow> nx \<in> set (allowed_from st) \<Longrightarrow>
    journal_log (ls @ [(int (length ls) + 1, st, nx, now)]) nx"

definition wf_journal :: "string \<Rightarrow> (string, pyval) dict \<Rightarrow> bool" where
  "wf_journal path p \<longleftrightarrow>
     vget p ''schema_version'' = VStr JOURNAL_SCHEMA_VERSION \<and>
     vget p ''protocol_version'' = VStr RECOVERY_PROTOCOL_VERSION \<and>
     vget p ''sealed_package_path'' = VStr path \<and> bindings_shape (vget p ''bindings'') \<and>
     \<not> contains_forbidden_key (VDict p) \<and>
     (\<exists>st ls. vget p ''state'' = VStr st \<and> vget p ''transitions'' = VList (map line_value ls) \<and> journal_log ls st)"

definition recovery_inv :: "recovery_dir \<Rightarrow> bool" where
  "recovery_inv d \<longleftrightarrow> (case dir_files d (journal_name d) of
       None \<Rightarrow> True
     | Some (JournalJson n (VDict p)) \<Rightarrow> n = journal_size p \<and> wf_journal (sealed_package_path d) p
     | _ \<Rightarrow> False)"

lemma recovery_inv_cases:
  assumes "recovery_inv d"
  obtains "dir_files d (journal_name d) = None"
  | p where "dir_files d (journal_name d) = Some (JournalJson (journal_size p) (VDict p))"
      "wf_journal (sealed_package_path d) p"
  using assms that
  by (auto simp: recovery_inv_def split: option.splits journal_file.splits pyval.splits)

lemma recovery_inv_loaded:
  assumes "recovery_inv d" "load_journal d = Inr (Some p)"
  shows "wf_journal (sealed_package_path d) p"
proof -
  from assms(2) obtain n where "dir_files d (journal_name d) = Some (JournalJson n (VDict p))" by (rule load_state)
  with assms(1) show ?thesis by (simp add: recovery_inv_def)
qed

lemma inv_package [simp]: "recovery_inv (d\<lparr>sealed_package := x\<rparr>) = recovery_inv d"
  by (simp add: recovery_inv_def split: option.splits journal_file.splits pyval.splits)

lemma inv_put_journal: "recovery_inv (put_journal p d) \<longleftrightarrow> wf_journal (sealed_package_path d) p"
  by (simp add: recovery_inv_def put_journal_def)

lemma moved_payload_core:
  assumes "set (dkeys ups) \<inter> set core_keys = {}"
  shows "k \<in> set core_keys - {''state'', ''transitions''} \<Longrightarrow> vget (moved_payload now st nx ups p) k = vget p k"
    and "vget (moved_payload now st nx ups p) ''state'' = VStr nx"
    and "vget p ''transitions'' = VList ts \<Longrightarrow>
      vget (moved_payload now st nx ups p) ''transitions'' = VList (ts @ [log_entry (int (length ts) + 1) st nx now])"
proof -
  have other: "k \<in> set core_keys \<Longrightarrow> vget (dupdate p ups) k = vget p k" for k
    using assms by (intro vget_dupdate_other) auto
  show "vget (moved_payload now st nx ups p) k = vget p k" if "k \<in> set core_keys - {''state'', ''transitions''}"
  proof -
    have "''updated_at'' \<notin> set core_keys" by (simp add: core_keys_def)
    with that have "k \<noteq> ''state''" "k \<noteq> ''transitions''" "k \<noteq> ''updated_at''" by blast+
    with other [of k] that show ?thesis by (simp add: moved_payload_def Let_def)
  qed
  show "vget (moved_payload now st nx ups p) ''state'' = VStr nx" by (simp add: moved_payload_def Let_def)
  show "vget p ''transitions'' = VList ts \<Longrightarrow>
      vget (moved_payload now st nx ups p) ''transitions'' = VList (ts @ [log_entry (int (length ts) + 1) st nx now])"
  proof -
    assume ts: "vget p ''transitions'' = VList ts"
    have "vget (dupdate p ups) ''transitions'' = VList ts"
      using other [of "''transitions''"] ts by (simp add: core_keys_def)
    then show ?thesis by (simp add: moved_payload_def Let_def logged_def)
  qed
qed

lemma wf_moved:
  assumes "wf_journal path p" "vget p ''state'' = VStr st" "nx \<in> set (allowed_from st)"
    "set (dkeys ups) \<inter> set core_keys = {}" "\<not> contains_forbidden_key (VDict (moved_payload now st nx ups p))"
  shows "wf_journal path (moved_payload now st nx ups p)"
proof -
  let ?q = "moved_payload now st nx ups p"
  from assms(1,2) obtain ls where ls: "vget p ''transitions'' = VList (map line_value ls)" "journal_log ls st"
    by (auto simp: wf_journal_def)
  have "vget ?q ''transitions'' = VList (map line_value (ls @ [(int (length ls) + 1, st, nx, now)]))"
    using moved_payload_core(3) [OF assms(4) ls(1)] by (simp add: line_value_def)
  moreover have "journal_log (ls @ [(int (length ls) + 1, st, nx, now)]) nx"
    using ls(2) assms(3) by (rule extend_log)
  ultimately have "\<exists>st ls. vget ?q ''state'' = VStr st \<and> vget ?q ''transitions'' = VList (map line_value ls) \<and> journal_log ls st"
    using moved_payload_core(2) [OF assms(4)] by blast
  moreover have "vget ?q k = vget p k" if "k \<in> {''schema_version'', ''protocol_version'', ''bindings'', ''sealed_package_path''}" for k
    using that by (intro moved_payload_core(1) [OF assms(4)]) (auto simp: core_keys_def)
  ultimately show ?thesis
    using assms(1,5) unfolding wf_journal_def by simp
qed

lemma wf_initial:
  assumes "set (dkeys b) = set REQUIRED_BINDING_FIELDS" "\<not> contains_forbidden_key (VDict (initial_payload d b now))"
  shows "wf_journal (sealed_package_path d) (initial_payload d b now)"
proof -
  have "set (dkeys (map (\<lambda>(k, v). (k, VStr v)) b)) = set REQUIRED_BINDING_FIELDS"
    using assms(1) by (simp add: case_prod_beta comp_def)
  then have "bindings_shape (binding_values b)" by (simp add: bindings_shape_def binding_values_def)
  then show ?thesis
    using assms(2) begin_log [of now]
    by (auto simp: wf_journal_def initial_payload_def line_value_def intro!: exI [of _ "[(1, ''NONE'', STATE_PREPARE_INTENT_DURABLE, now)]"])
qed

lemma journal_move_inv: "journal_move g d d' \<Longrightarrow> recovery_inv d \<Longrightarrow> recovery_inv d'"
proof (induction rule: journal_move.induct)
  case (advance d p st nx ups g q now)
  then show ?case by (simp add: inv_put_journal wf_moved recovery_inv_loaded)
next
  case (create d b q now g)
  then show ?case by (simp add: inv_put_journal wf_initial)
next
  case (retire d p nm g)
  then show ?case by (auto simp: recovery_inv_def)
qed simp_all

subsection \<open>The abstract decision machine\<close>

text \<open>
  What the journal stands for: one attempt, named by its bindings, whose outcome is open until the
  server commits it or it is given up, and never changes afterwards. A decided attempt may be
  retired to make room for the next.
\<close>

datatype decision = Undecided | Committed | Cancelled

inductive decision_step :: "(pyval \<times> decision) option \<Rightarrow> (pyval \<times> decision) option \<Rightarrow> bool" where
  start: "decision_step None (Some (b, Undecided))"
| commit: "decision_step (Some (b, Undecided)) (Some (b, Committed))"
| cancel: "decision_step (Some (b, Undecided)) (Some (b, Cancelled))"
| close: "x \<noteq> Undecided \<Longrightarrow> decision_step (Some (b, x)) None"

inductive_cases decision_stepE: "decision_step (Some (b, x)) a"

definition decision_of :: "string \<Rightarrow> decision" where
  "decision_of st =
     (if st \<in> {STATE_SERVER_COMMITTED, STATE_LOCAL_PERSISTED, STATE_CLEANUP_INTENT_DURABLE, STATE_COMPLETE}
      then Committed else if st \<in> {STATE_ABORTED, STATE_EXPIRED} then Cancelled else Undecided)"

definition attempt_of :: "recovery_dir \<Rightarrow> (pyval \<times> decision) option" where
  "attempt_of d = (case dir_files d (journal_name d) of
       Some (JournalJson n (VDict p)) \<Rightarrow> Some (vget p ''bindings'', decision_of (py_str (vget p ''state'')))
     | _ \<Rightarrow> None)"

lemma attempt_of_put:
  "attempt_of (put_journal p d) = Some (vget p ''bindings'', decision_of (py_str (vget p ''state'')))"
  by (simp add: attempt_of_def put_journal_def)

lemma attempt_of_loaded:
  assumes "load_journal d = Inr (Some p)"
  shows "attempt_of d = Some (vget p ''bindings'', decision_of (py_str (vget p ''state'')))"
  using assms by (rule load_state) (simp add: attempt_of_def)

lemma allowed_decision:
  "nx \<in> set (allowed_from st) \<Longrightarrow> decision_of nx = decision_of st \<or> decision_of st = Undecided"
  by (auto simp: allowed_from_def ALLOWED_TRANSITIONS_def decision_of_def recovery_state_defs
      split: option.splits if_splits)

lemma terminal_decided: "is_terminal p \<Longrightarrow> decision_of (py_str (vget p ''state'')) \<noteq> Undecided"
  by (auto simp: is_terminal_def TERMINAL_STATES_def decision_of_def)

lemma decide: "x = y \<or> x = Undecided \<Longrightarrow> decision_step\<^sup>*\<^sup>* (Some (b, x)) (Some (b, y))"
  by (cases y) (auto intro: decision_step.intros)

lemma journal_move_refines:
  "journal_move g d d' \<Longrightarrow> decision_step\<^sup>*\<^sup>* (attempt_of d) (attempt_of d')"
proof (induction rule: journal_move.induct)
  case (advance d p st nx ups g q now)
  have b: "''bindings'' \<in> set core_keys - {''state'', ''transitions''}" by (simp add: core_keys_def)
  show ?case
    using allowed_decision [OF advance(3)] moved_payload_core(1) [OF advance(4) b] advance
    by (auto simp: attempt_of_put attempt_of_loaded moved_payload_core(2) intro!: decide)
next
  case (create d b q now g)
  then have "attempt_of d = None" by (simp add: load_absent attempt_of_def)
  moreover have "attempt_of (put_journal q d) = Some (vget q ''bindings'', Undecided)"
    using create by (simp add: attempt_of_put initial_payload_def decision_of_def recovery_state_defs)
  ultimately show ?case by (auto intro: decision_step.start)
next
  case (retire d p nm g)
  from load_state [OF retire(1)] have "nm \<noteq> journal_name d" using retire(4) by fastforce
  then have "attempt_of (d\<lparr>dir_files := (dir_files d)(journal_name d := None, nm := dir_files d (journal_name d))\<rparr>) = None"
    by (simp add: attempt_of_def)
  with retire(1,2) show ?case
    by (auto simp: attempt_of_loaded terminal_decided intro!: decision_step.close)
qed (auto simp: attempt_of_def)

interpretation recovery: refining_machine "run_recovery sha" recovery_inv attempt_of decision_step
proof
  fix d c assume "recovery_inv d"
  then show "recovery_inv (run_recovery sha c d)"
    using run_moves [of d sha c] by (auto dest: journal_move_inv)
  show "decision_step\<^sup>*\<^sup>* (attempt_of d) (attempt_of (run_recovery sha c d))"
    using run_moves [of d sha c] by (auto dest!: journal_move_refines)
qed

subsection \<open>Properties\<close>

text \<open>The calls on a directory without a journal, as the program starts its first attempt.\<close>

abbreviation after_calls :: "(string \<Rightarrow> string) \<Rightarrow> recovery_call list \<Rightarrow> recovery_dir \<Rightarrow> recovery_dir" where
  "after_calls sha cs d \<equiv> fold (run_recovery sha) cs d"

lemma fresh_inv: "dir_files d (journal_name d) = None \<Longrightarrow> recovery_inv d"
  by (simp add: recovery_inv_def)

definition log_rank :: "string \<Rightarrow> nat" where
  "log_rank st =
     (if st = STATE_PREPARE_INTENT_DURABLE then 1 else if st = STATE_PREPARED then 2
      else if st = STATE_LOCAL_PACKAGE_DURABLE then 3 else if st = STATE_COMMIT_INTENT_DURABLE then 4
      else if st = STATE_SERVER_COMMITTED then 5 else if st = STATE_LOCAL_PERSISTED then 6
      else if st = STATE_CLEANUP_INTENT_DURABLE then 7 else if st = STATE_COMPLETE then 8 else 5)"

lemma log_rank_allowed: "nx \<in> set (allowed_from st) \<Longrightarrow> log_rank st < log_rank nx"
  by (auto simp: allowed_from_def ALLOWED_TRANSITIONS_def log_rank_def recovery_state_defs
      split: option.splits if_splits)

lemma journal_log_length: "journal_log ls st \<Longrightarrow> ls \<noteq> [] \<and> length ls \<le> log_rank st"
proof (induction rule: journal_log.induct)
  case (extend_log ls st nx now)
  then show ?case using log_rank_allowed [of nx st] by auto
qed (simp add: log_rank_def)

definition log_chained :: "log_line list \<Rightarrow> bool" where
  "log_chained ls \<longleftrightarrow> (\<forall>i < length ls. fst (ls ! i) = int i + 1 \<and>
     (if i = 0 then fst (snd (ls ! i)) = ''NONE''
      else fst (snd (ls ! i)) = fst (snd (snd (ls ! (i - 1)))) \<and>
        fst (snd (snd (ls ! i))) \<in> set (allowed_from (fst (snd (snd (ls ! (i - 1))))))))"

lemma journal_log_chained: "journal_log ls st \<Longrightarrow> log_chained ls \<and> fst (snd (snd (last ls))) = st"
proof (induction rule: journal_log.induct)
  case (extend_log ls st nx now)
  then have ne: "ls \<noteq> []" using journal_log_length by blast
  then have "ls ! (length ls - 1) = last ls" by (simp add: last_conv_nth)
  with extend_log ne show ?case
    by (auto simp: log_chained_def nth_append less_Suc_eq)
qed (simp add: log_chained_def)

lemma log_rank_le: "log_rank st \<le> 8"
  by (simp add: log_rank_def)


text \<open>
  C37. The journal of an attempt is a complete, bounded log: starting without a journal, after any
  calls, a loaded journal lists its transitions numbered from 1, each one continuing the previous
  one along an allowed edge and ending in the recorded state, at most 8 of them, and it holds no
  secret key at any depth.
\<close>

theorem recovery_log_complete_bounded:
  assumes "dir_files d (journal_name d) = None" "load_journal (after_calls sha cs d) = Inr (Some p)"
  shows "\<exists>ls. vget p ''transitions'' = VList (map line_value ls) \<and> log_chained ls \<and> ls \<noteq> [] \<and> length ls \<le> 8 \<and>
    vget p ''state'' = VStr (fst (snd (snd (last ls)))) \<and> \<not> contains_forbidden_key (VDict p)"
proof -
  have "wf_journal (sealed_package_path (after_calls sha cs d)) p"
    using recovery_inv_loaded [OF recovery.run_invar [OF fresh_inv [OF assms(1)]] assms(2)] .
  then obtain st ls where ls: "vget p ''state'' = VStr st" "vget p ''transitions'' = VList (map line_value ls)"
    "journal_log ls st" "\<not> contains_forbidden_key (VDict p)"
    unfolding wf_journal_def by blast
  then show ?thesis
    using journal_log_length [OF ls(3)] journal_log_chained [OF ls(3)] log_rank_le [of st] by force
qed

lemma read_sealed_ok:
  "read_sealed_package sha d = Inr x \<longleftrightarrow> (\<exists>p. load_journal d = Inr (Some p) \<and>
     \<not> list_ex (\<lambda>st. vget p ''state'' = VStr st)
       [STATE_PREPARE_INTENT_DURABLE, STATE_PREPARED, STATE_ABORTED, STATE_EXPIRED] \<and>
     sealed_package d = Some x \<and> x \<noteq> [] \<and> dget p ''sealed_package_sha256'' = Some (VStr (sha x)))"
  by (auto simp: read_sealed_package_def result_simps split: option.splits if_splits)

lemma advance_keeps_sealed:
  assumes "''sealed_package_sha256'' \<notin> set (dkeys ups)"
  shows "dget (moved_payload now st nx ups p) ''sealed_package_sha256'' = dget p ''sealed_package_sha256''"
  using assms by (simp add: moved_payload_def Let_def dget_dupdate_other)

lemma allowed_not_early:
  "nx \<in> set (allowed_from st) \<Longrightarrow> st \<notin> {STATE_PREPARE_INTENT_DURABLE, STATE_PREPARED} \<Longrightarrow>
     nx \<notin> {STATE_PREPARE_INTENT_DURABLE, STATE_PREPARED}"
  by (auto simp: allowed_from_def ALLOWED_TRANSITIONS_def recovery_state_defs split: option.splits if_splits)

lemma load_put_journal:
  "load_journal (put_journal q d) = Inr (Some p) \<Longrightarrow> p = q"
  by (auto simp: load_journal_def put_journal_def result_simps split: if_splits)

lemma move_keeps_package:
  assumes "journal_move g d d'" "\<not> g" "read_sealed_package sha d = Inr x"
    "load_journal d' = Inr (Some p')" "\<not> is_terminal p'"
  shows "read_sealed_package sha d' = Inr x"
  using assms
proof (cases rule: journal_move.cases)
  case (drop p)
  with assms(4,5) show ?thesis by simp
next
  case (advance p st nx ups q now)
  from assms(4) advance(1) have p': "p' = q" by (simp add: load_put_journal)
  have st: "st \<notin> {STATE_PREPARE_INTENT_DURABLE, STATE_PREPARED}"
    and pk: "sealed_package d = Some x" "x \<noteq> []" "dget p ''sealed_package_sha256'' = Some (VStr (sha x))"
    using assms(3) advance(2,3) by (auto simp: read_sealed_ok)
  have nx: "vget q ''state'' = VStr nx" using moved_payload_core(2) [OF advance(5)] advance(7) by simp
  have "nx \<notin> {STATE_ABORTED, STATE_EXPIRED}"
    using assms(5) p' nx by (auto simp: is_terminal_def TERMINAL_STATES_def)
  with allowed_not_early [OF advance(4) st] nx pk advance assms(2,4) p' show ?thesis
    by (auto simp: read_sealed_ok advance_keeps_sealed put_journal_def)
qed (auto simp: read_sealed_ok load_absent)

lemma initialize_keeps_package:
  assumes "read_sealed_package sha d = Inr x"
  shows "snd (initialize w moved now b d) = d"
  using assms by (auto simp: read_sealed_ok initialize_def Let_def archive_journal_def)

text \<open>
  A sealed package that was staged is not lost: as long as the package can be read, every call
  other than staging another package leaves it readable, unless the journal becomes terminal or
  can no longer be loaded.
\<close>

theorem sealed_package_survives:
  assumes "read_sealed_package sha d = Inr x" "\<not> is_staging c"
    "load_journal (run_recovery sha c d) = Inr (Some p)" "\<not> is_terminal p"
  shows "read_sealed_package sha (run_recovery sha c d) = Inr x"
proof (cases "is_initialize c")
  case True
  then have "run_recovery sha c d = d"
    by (cases c) (simp_all add: initialize_keeps_package [OF assms(1)])
  with assms(1) show ?thesis by simp
next
  case False
  show ?thesis using move_keeps_package [OF run_moves_once [OF assms(2) False] _ assms(1,3,4)] by simp
qed

text \<open>
  C38. Staging is not guarded: called when a package is already durable, it raises, but only after
  the new bytes have replaced the package file, so the recorded package can no longer be read.
\<close>

theorem late_staging_destroys_package:
  assumes "read_sealed_package sha d = Inr x" "y \<noteq> []" "sha y \<noteq> sha x"
  shows "isl (fst (stage_sealed_package sha Written w now y d)) \<and>
    read_sealed_package sha (snd (stage_sealed_package sha Written w now y d)) = Inl PackageHashMismatch"
proof -
  from assms(1) obtain p where p: "load_journal d = Inr (Some p)"
    "\<not> list_ex (\<lambda>st. vget p ''state'' = VStr st)
       [STATE_PREPARE_INTENT_DURABLE, STATE_PREPARED, STATE_ABORTED, STATE_EXPIRED]"
    "dget p ''sealed_package_sha256'' = Some (VStr (sha x))"
    by (auto simp: read_sealed_ok)
  from p(1) obtain st where st: "vget p ''state'' = VStr st" by (rule load_state)
  have "vget p ''sealed_package_sha256'' = VStr (sha x)" using p(3) by (simp add: vget_def)
  with assms p st have "stage_sealed_package sha Written w now y d =
      (Inl (if st = STATE_LOCAL_PACKAGE_DURABLE then IdempotentMismatch
            else ForbiddenTransition st STATE_LOCAL_PACKAGE_DURABLE), d\<lparr>sealed_package := Some y\<rparr>)"
    by (auto simp: stage_sealed_package_def transition_def Let_def same_value_def)
  with assms p show ?thesis by (simp add: read_sealed_package_def)
qed

subsection \<open>Journals that fit\<close>

text \<open>An upper bound of the size of a written value that is cheap to evaluate.\<close>

fun size_bound :: "nat \<Rightarrow> pyval \<Rightarrow> nat" where
  "size_bound n VNone = 4"
| "size_bound n (VBool b) = 5"
| "size_bound n (VInt i) = 2 * length (show_int i)"
| "size_bound n (VFloat f) = 2 * length (json_float f)"
| "size_bound n (VStr s) = 6 * length s + 2"
| "size_bound n (VList vs) = 6 + 4 * n + sum_list (map (\<lambda>v. size_bound (Suc n) v + 2 * n + 4) vs)"
| "size_bound n (VDict d) = 6 + 4 * n + sum_list (map (\<lambda>(k, v). 6 * length k + 4 + size_bound (Suc n) v + 2 * n + 4) d)"

lemma utf8_length_append [simp]: "utf8_length (s @ t) = utf8_length s + utf8_length t"
  by (simp add: utf8_length_def)

lemma utf8_length_Cons [simp]: "utf8_length (c # s) = (if ord c < 128 then 1 else 2) + utf8_length s"
  by (simp add: utf8_length_def)

lemma utf8_length_Nil [simp]: "utf8_length [] = 0"
  by (simp add: utf8_length_def)

lemma utf8_length_le: "utf8_length s \<le> 2 * length s"
  by (induction s) auto

lemma utf8_length_escape: "utf8_length (json_escape c) \<le> 6"
proof -
  have "utf8_length (hex2 (ord c)) \<le> 2" if "ord c < 32"
  proof -
    have "ord (hex_digit n) < 128" if "n < 16" for n
      using that by (auto simp: hex_digit_def)
    moreover have "ord c div 16 < 16" "ord c mod 16 < 16" using that by auto
    ultimately show ?thesis by (simp add: hex2_def)
  qed
  then show ?thesis by (auto simp: json_escape_def)
qed

lemma utf8_length_json_text: "utf8_length (json_text s) \<le> 6 * length s + 2"
proof -
  have "utf8_length (concat (map json_escape s)) \<le> 6 * length s"
  proof (induction s)
    case (Cons c s)
    then show ?case using utf8_length_escape [of c] by simp
  qed simp
  then show ?thesis by (simp add: json_text_def)
qed

lemma utf8_length_comma_sep: "utf8_length (comma_sep sep ws) \<le> sum_list (map (\<lambda>w. utf8_length w + utf8_length sep) ws)"
  by (induction sep ws rule: comma_sep.induct) auto

lemma utf8_length_indent [simp]: "utf8_length (indent_at n) = 2 * n + 1"
proof -
  have "utf8_length (replicate m (CHR '' '')) = m" for m by (induction m) auto
  then show ?thesis by (simp add: indent_at_def)
qed

lemma utf8_length_items:
  assumes "\<And>x. x \<in> set xs \<Longrightarrow> utf8_length (f x) \<le> g x"
  shows "utf8_length (comma_sep ('','' @ indent_at (Suc n)) (map f xs)) \<le> sum_list (map (\<lambda>x. g x + 2 * n + 4) xs)"
proof -
  have sep: "utf8_length ('','' @ indent_at (Suc n)) = 2 * n + 4" by simp
  have "utf8_length (comma_sep ('','' @ indent_at (Suc n)) (map f xs)) \<le>
      sum_list (map (\<lambda>x. utf8_length (f x) + (2 * n + 4)) xs)"
    using utf8_length_comma_sep [of "'','' @ indent_at (Suc n)" "map f xs"]
    unfolding sep by (simp only: map_map comp_def)
  also have "\<dots> \<le> sum_list (map (\<lambda>x. g x + 2 * n + 4) xs)"
    using assms by (intro sum_list_mono) (simp add: add.assoc)
  finally show ?thesis .
qed

lemma dumps_indent_bound: "utf8_length (dumps_indent n v) \<le> size_bound n v"
proof (induction n v rule: size_bound.induct)
  case (6 n vs)
  then show ?case
    using utf8_length_items [of vs "dumps_indent (Suc n)" "size_bound (Suc n)" n] by auto
next
  case (7 n d)
  have "utf8_length (json_text k @ '': '' @ dumps_indent (Suc n) v) \<le> 6 * length k + 4 + size_bound (Suc n) v"
    if "(k, v) \<in> set d" for k v
    using 7 [OF that refl] utf8_length_json_text [of k] by simp
  then show ?case
    using utf8_length_items [of d "\<lambda>(k, v). json_text k @ '': '' @ dumps_indent (Suc n) v"
        "\<lambda>(k, v). 6 * length k + 4 + size_bound (Suc n) v" n]
    by (auto simp: case_prod_unfold)
qed (use utf8_length_json_text utf8_length_le in auto)

lemma log_state_known: "journal_log ls st \<Longrightarrow> st \<in> set (dkeys ALLOWED_TRANSITIONS)"
  by (induction rule: journal_log.induct)
     (auto simp: ALLOWED_TRANSITIONS_def allowed_from_def split: if_splits option.splits)

lemma load_fits:
  assumes "wf_journal (sealed_package_path d) q" "size_bound 0 (VDict q) < 262144"
  shows "load_journal (put_journal q d) = Inr (Some q)"
proof -
  from assms(1) obtain st ls where st: "vget q ''state'' = VStr st" "vget q ''transitions'' = VList (map line_value ls)"
    "journal_log ls st" by (auto simp: wf_journal_def)
  have "journal_size q \<le> 262144" "journal_size q \<noteq> 0"
    using dumps_indent_bound [of 0 "VDict q"] assms(2) by (simp_all add: journal_size_def)
  moreover have "check_contract q = Inr ()"
    using assms(1) st journal_log_length [OF st(3)] log_state_known [OF st(3)]
    by (simp add: check_contract_def wf_journal_def known_state_def ensure_eq_Inr)
  ultimately show ?thesis
    using assms(1) by (simp add: load_journal_def put_journal_def wf_journal_def)
qed

subsection \<open>Witnesses\<close>

definition demo_bindings :: "(string, pyval) dict" where
  "demo_bindings = map (\<lambda>k. (k, VStr ''1'')) REQUIRED_BINDING_FIELDS"

definition demo_recovery :: recovery_dir where
  "demo_recovery = \<lparr>journal_name = ''j'', sealed_package_path = ''p'', dir_files = (\<lambda>_. None), sealed_package = None\<rparr>"

definition demo_first :: "(string, pyval) dict" where
  "demo_first = initial_payload demo_recovery (normalize_bindings demo_bindings) ''t''"

definition demo_prepared :: "(string, pyval) dict" where
  "demo_prepared = moved_payload ''t'' STATE_PREPARE_INTENT_DURABLE STATE_PREPARED
     [(''prepare_id'', VStr ''i''), (''prepare_expires_at'', VStr ''e''), (''proposed_credential_epoch'', VInt 1),
      (''prepared_key_id'', VStr ''k''), (''prepared_secret_fingerprint_sha256'', VStr ''f'')] demo_first"

definition demo_durable :: "(string, pyval) dict" where
  "demo_durable = moved_payload ''t'' STATE_PREPARED STATE_LOCAL_PACKAGE_DURABLE
     [(''sealed_package_sha256'', VStr ''pkg'')] demo_prepared"

definition demo_intent :: "(string, pyval) dict" where
  "demo_intent = moved_payload ''t'' STATE_LOCAL_PACKAGE_DURABLE STATE_COMMIT_INTENT_DURABLE [] demo_durable"

lemmas demo_payload_defs = demo_first_def demo_prepared_def demo_durable_def demo_intent_def initial_payload_def
  moved_payload_def demo_recovery_def normalize_bindings_def demo_bindings_def REQUIRED_BINDING_FIELDS_def
  binding_values_def log_entry_def logged_def recovery_state_defs Let_def

lemma demo_texts: "strip ''1'' = ''1''" "length (show_int 1) = 1" "length (show_int 2) = 1" "length (show_int 3) = 1"
  "length (show_int 4) = 1"
  by code_simp+

lemma demo_fit:
  "size_bound 0 (VDict demo_first) < 262144" "size_bound 0 (VDict demo_durable) < 262144"
  "size_bound 0 (VDict demo_intent) < 262144"
  by (simp_all add: demo_payload_defs JOURNAL_SCHEMA_VERSION_def RECOVERY_PROTOCOL_VERSION_def demo_texts)

lemma forbidden_dict:
  "contains_forbidden_key (VDict d) \<longleftrightarrow>
     list_ex (\<lambda>k. k \<in> set FORBIDDEN_JOURNAL_KEYS) (map (\<lambda>k. lower (strip k)) (dkeys d)) \<or>
     list_ex contains_forbidden_key (map snd d)"
  by (induction d) (auto simp: contains_forbidden_key.simps)

lemma plain_keys:
  "map (\<lambda>k. lower (strip k)) (dkeys demo_first) = dkeys demo_first"
  "map (\<lambda>k. lower (strip k)) REQUIRED_BINDING_FIELDS = REQUIRED_BINDING_FIELDS"
  "map (\<lambda>k. lower (strip k)) [''sequence'', ''from'', ''to'', ''at''] = [''sequence'', ''from'', ''to'', ''at'']"
  by code_simp+

lemma secret_free_log: "\<not> contains_forbidden_key (log_entry n f t now)"
  unfolding log_entry_def forbidden_dict
  using plain_keys(3) by (simp add: FORBIDDEN_JOURNAL_KEYS_def contains_forbidden_key.simps)

lemma secret_free_first: "\<not> contains_forbidden_key (VDict demo_first)"
proof -
  have b: "dkeys (map (\<lambda>(k, v). (k, VStr v)) (normalize_bindings demo_bindings)) = REQUIRED_BINDING_FIELDS"
    by (simp add: normalize_bindings_def demo_bindings_def comp_def)
  have "\<not> contains_forbidden_key (binding_values (normalize_bindings demo_bindings))"
    unfolding binding_values_def forbidden_dict b plain_keys
    by (simp add: REQUIRED_BINDING_FIELDS_def FORBIDDEN_JOURNAL_KEYS_def list_ex_iff normalize_bindings_def
        demo_bindings_def contains_forbidden_key.simps)
  then have "\<not> list_ex contains_forbidden_key (map snd demo_first)"
    by (simp add: demo_first_def initial_payload_def contains_forbidden_key.simps secret_free_log)
  then show ?thesis
    unfolding forbidden_dict plain_keys
    by (simp add: demo_first_def initial_payload_def FORBIDDEN_JOURNAL_KEYS_def)
qed

lemma forbidden_dset:
  "contains_forbidden_key (VDict (dset k v d)) \<Longrightarrow>
     contains_forbidden_key (VDict d) \<or> lower (strip k) \<in> set FORBIDDEN_JOURNAL_KEYS \<or> contains_forbidden_key v"
  by (induction k v d rule: dset.induct) (auto simp: contains_forbidden_key.simps split: if_splits)

lemma forbidden_dupdate:
  "contains_forbidden_key (VDict (dupdate d e)) \<Longrightarrow> contains_forbidden_key (VDict d) \<or> contains_forbidden_key (VDict e)"
proof (induction e arbitrary: d)
  case (Cons kv e)
  then show ?case
    using forbidden_dset [of "fst kv" "snd kv" d]
    by (cases kv) (fastforce simp: contains_forbidden_key.simps)
qed simp

lemma journal_key_plain: "k \<in> set (dkeys demo_first) \<Longrightarrow> lower (strip k) = k"
  using plain_keys(1) map_eq_conv [of "\<lambda>k. lower (strip k)" "dkeys demo_first" "\<lambda>k. k"] by auto

lemma plain_state_keys:
  "lower (strip ''state'') \<notin> set FORBIDDEN_JOURNAL_KEYS" "lower (strip ''updated_at'') \<notin> set FORBIDDEN_JOURNAL_KEYS"
  "lower (strip ''transitions'') \<notin> set FORBIDDEN_JOURNAL_KEYS"
  by (simp_all add: journal_key_plain demo_first_def initial_payload_def FORBIDDEN_JOURNAL_KEYS_def)

lemma text_secret_free [simp]: "\<not> contains_forbidden_key (VStr s)"
  by (simp add: contains_forbidden_key.simps)

lemma forbidden_vget: "contains_forbidden_key (vget d k) \<Longrightarrow> contains_forbidden_key (VDict d)"
  by (induction d) (auto simp: contains_forbidden_key.simps vget_def split: if_splits)

text \<open>The secret check of \<open>_write\<close> never fires after the check of the updates.\<close>

lemma secret_free_moved:
  assumes "\<not> contains_forbidden_key (VDict p)" "\<not> contains_forbidden_key (VDict ups)"
  shows "\<not> contains_forbidden_key (VDict (moved_payload now st nx ups p))"
proof
  let ?p = "dset ''updated_at'' (VStr now) (dset ''state'' (VStr nx) (dupdate p ups))"
  have p: "\<not> contains_forbidden_key (VDict ?p)"
    using forbidden_dset [of "''updated_at''" "VStr now" "dset ''state'' (VStr nx) (dupdate p ups)"] forbidden_dset [of "''state''" "VStr nx" "dupdate p ups"]
      forbidden_dupdate [of p ups] assms
    by (auto simp: plain_state_keys)
  have "\<not> contains_forbidden_key (VList (logged ?p @ [log_entry n st nx now]))" for n
    using p forbidden_vget [of ?p "''transitions''"] secret_free_log
    by (cases "vget ?p ''transitions''") (auto simp: logged_def contains_forbidden_key.simps)
  moreover assume "contains_forbidden_key (VDict (moved_payload now st nx ups p))"
  ultimately show False
    using p forbidden_dset [of "''transitions''" _ ?p]
    by (auto simp: moved_payload_def Let_def plain_state_keys)
qed

lemma demo_wf_first: "wf_journal ''p'' demo_first"
  using wf_initial [of "normalize_bindings demo_bindings" demo_recovery "''t''"] secret_free_first
  by (simp add: demo_first_def demo_recovery_def normalize_bindings_def demo_bindings_def image_image)

lemma demo_update_keys_free:
  "\<not> contains_forbidden_key (VDict [(''prepare_id'', VStr a), (''prepare_expires_at'', VStr b),
     (''proposed_credential_epoch'', VInt n), (''prepared_key_id'', VStr c), (''prepared_secret_fingerprint_sha256'', VStr e)])"
  "\<not> contains_forbidden_key (VDict [(''sealed_package_sha256'', VStr a)])" "\<not> contains_forbidden_key (VDict [])"
proof -
  have "lower (strip k) = k" if "k \<in> {''prepare_id'', ''prepare_expires_at'', ''proposed_credential_epoch'',
      ''prepared_key_id'', ''prepared_secret_fingerprint_sha256'', ''sealed_package_sha256''}" for k
    using that by (intro journal_key_plain) (auto simp: demo_first_def initial_payload_def)
  then show "\<not> contains_forbidden_key (VDict [(''prepare_id'', VStr a), (''prepare_expires_at'', VStr b),
     (''proposed_credential_epoch'', VInt n), (''prepared_key_id'', VStr c), (''prepared_secret_fingerprint_sha256'', VStr e)])"
    "\<not> contains_forbidden_key (VDict [(''sealed_package_sha256'', VStr a)])" "\<not> contains_forbidden_key (VDict [])"
    by (simp_all add: contains_forbidden_key.simps FORBIDDEN_JOURNAL_KEYS_def)
qed

lemma demo_wf_durable: "wf_journal ''p'' demo_durable"
  and demo_wf_intent: "wf_journal ''p'' demo_intent"
proof -
  have st: "vget demo_first ''state'' = VStr STATE_PREPARE_INTENT_DURABLE" "vget demo_prepared ''state'' = VStr STATE_PREPARED"
    "vget demo_durable ''state'' = VStr STATE_LOCAL_PACKAGE_DURABLE"
    by (simp_all add: demo_first_def initial_payload_def demo_prepared_def demo_durable_def moved_payload_def Let_def)
  have al: "STATE_PREPARED \<in> set (allowed_from STATE_PREPARE_INTENT_DURABLE)"
    "STATE_LOCAL_PACKAGE_DURABLE \<in> set (allowed_from STATE_PREPARED)"
    "STATE_COMMIT_INTENT_DURABLE \<in> set (allowed_from STATE_LOCAL_PACKAGE_DURABLE)"
    by code_simp+
  have free: "wf_journal q p \<Longrightarrow> \<not> contains_forbidden_key (VDict p)" for p q by (simp add: wf_journal_def)
  have 1: "wf_journal ''p'' demo_prepared" unfolding demo_prepared_def
    by (rule wf_moved [OF demo_wf_first st(1) al(1)])
       (simp_all add: core_keys_def secret_free_moved secret_free_first demo_update_keys_free)
  show 2: "wf_journal ''p'' demo_durable" unfolding demo_durable_def
    by (rule wf_moved [OF 1 st(2) al(2)])
       (simp_all add: core_keys_def secret_free_moved free [OF 1] demo_update_keys_free)
  show "wf_journal ''p'' demo_intent" unfolding demo_intent_def
    by (rule wf_moved [OF 2 st(3) al(3)])
       (simp_all add: core_keys_def secret_free_moved free [OF 2] demo_update_keys_free)
qed

definition demo_staged :: recovery_dir where
  "demo_staged = put_journal demo_durable (demo_recovery\<lparr>sealed_package := Some ''pkg''\<rparr>)"

lemma demo_staged_load: "load_journal demo_staged = Inr (Some demo_durable)"
  unfolding demo_staged_def
  by (rule load_fits [OF _ demo_fit(2)]) (simp add: demo_recovery_def demo_wf_durable)

lemma demo_staged_read: "read_sealed_package (\<lambda>t. t) demo_staged = Inr ''pkg''"
proof -
  have "vget demo_durable ''state'' = VStr STATE_LOCAL_PACKAGE_DURABLE"
    "dget demo_durable ''sealed_package_sha256'' = Some (VStr ''pkg'')"
    by (simp_all add: demo_durable_def moved_payload_def Let_def)
  then show ?thesis
    using demo_staged_load
    by (auto simp: read_sealed_ok demo_staged_def put_journal_def recovery_state_defs)
qed

lemma demo_commit_intent: "run_recovery (\<lambda>t. t) (CommitIntent Written ''t'') demo_staged = put_journal demo_intent demo_staged"
proof -
  have "vget demo_durable ''state'' = VStr STATE_LOCAL_PACKAGE_DURABLE"
    by (simp add: demo_durable_def moved_payload_def Let_def)
  moreover have "STATE_COMMIT_INTENT_DURABLE \<in> set (allowed_from STATE_LOCAL_PACKAGE_DURABLE)"
    "STATE_LOCAL_PACKAGE_DURABLE \<noteq> STATE_COMMIT_INTENT_DURABLE"
    by code_simp+
  moreover have "\<not> contains_forbidden_key (VDict demo_intent)" using demo_wf_intent by (simp add: wf_journal_def)
  ultimately show ?thesis
    by (simp add: mark_commit_intent_def transition_def demo_staged_load demo_update_keys_free write_journal_def
        put_journal_def demo_intent_def)
qed

lemma demo_initialized:
  "run_recovery (\<lambda>t. t) (Initialize Written True ''t'' demo_bindings) demo_recovery = put_journal demo_first demo_recovery"
proof -
  have n: "normalize_bindings demo_bindings = map (\<lambda>k. (k, ''1'')) REQUIRED_BINDING_FIELDS"
    by (simp add: normalize_bindings_def demo_bindings_def demo_texts)
  have "load_journal demo_recovery = Inr None" by (simp add: load_absent demo_recovery_def)
  then show ?thesis
    using secret_free_first
    by (simp add: initialize_def Let_def write_journal_def put_journal_def demo_first_def n image_image list_ex_iff)
qed

lemma demo_fresh: "dir_files demo_recovery (journal_name demo_recovery) = None"
  by (simp add: demo_recovery_def)


theorem recovery_log_complete_bounded_witness:
  "load_journal (after_calls (\<lambda>t. t) [Initialize Written True ''t'' demo_bindings] demo_recovery) = Inr (Some demo_first) \<and>
   (\<exists>ls. vget demo_first ''transitions'' = VList (map line_value ls) \<and> log_chained ls \<and> length ls \<le> 8)"
proof -
  have "wf_journal (sealed_package_path demo_recovery) demo_first"
    using demo_wf_first by (simp add: demo_recovery_def)
  from load_fits [OF this demo_fit(1)]
  have l: "load_journal (after_calls (\<lambda>t. t) [Initialize Written True ''t'' demo_bindings] demo_recovery) = Inr (Some demo_first)"
    by (simp add: demo_initialized del: run_recovery.simps)
  then show ?thesis using recovery_log_complete_bounded [OF demo_fresh] by blast
qed

theorem sealed_package_survives_witness:
  "read_sealed_package (\<lambda>t. t) (run_recovery (\<lambda>t. t) (CommitIntent Written ''t'') demo_staged) = Inr ''pkg''"
proof (rule sealed_package_survives [OF demo_staged_read])
  have "wf_journal (sealed_package_path demo_staged) demo_intent"
    using demo_wf_intent by (simp add: demo_staged_def put_journal_def demo_recovery_def)
  from load_fits [OF this demo_fit(3)]
  show "load_journal (run_recovery (\<lambda>t. t) (CommitIntent Written ''t'') demo_staged) = Inr (Some demo_intent)"
    by (simp only: demo_commit_intent)
  have "vget demo_intent ''state'' = VStr STATE_COMMIT_INTENT_DURABLE"
    by (simp add: demo_intent_def moved_payload_def Let_def)
  then show "\<not> is_terminal demo_intent"
    by (simp add: is_terminal_def TERMINAL_STATES_def recovery_state_defs)
qed simp

theorem late_staging_destroys_package_witness:
  "read_sealed_package (\<lambda>t. t) (snd (stage_sealed_package (\<lambda>t. t) Written Written ''t'' ''other'' demo_staged)) =
     Inl PackageHashMismatch"
  using late_staging_destroys_package [OF demo_staged_read, of "''other''" Written "''t''"] by simp

end
