(* ===== verification/Product_Exchange.thy ===== *)
theory Product_Exchange
  imports Product_Identity Event_Contracts
begin

text \<open>
  \<open>product_exchange.py\<close>: replacing up to two defective products of a finished tray by good
  ones. The session is a record; a scan returns the changed session with the result. The
  operator messages of the code are Korean sentences; \<open>exchange_notice\<close> has one constructor
  for each of them, with the values they interpolate. The catalog is the one of
  \<open>Product_Identity\<close>; the fields \<open>target_quantity\<close> and \<open>item_code_length\<close> have the
  types the code declares (\<open>int\<close>).
\<close>

definition EXCHANGE_CONTRACT_VERSION :: string where
  "EXCHANGE_CONTRACT_VERSION = ''container-audit-product-exchange-v1''"

definition MAX_EXCHANGE_TARGET_QUANTITY :: int where
  "MAX_EXCHANGE_TARGET_QUANTITY = 2"

record exchange_session =
  ex_item_code :: string
  ex_item_name :: pyval
  ex_item_spec :: pyval
  target_quantity :: int
  exchange_id :: string
  defective_barcodes :: "string list"
  good_barcodes :: "string list"
  current_step :: string

datatype exchange_notice =
    NoNotice
  | BadTargetQuantity
  | BadLengthSetting
  | BadBarcode
  | BadBarcodeLists
  | BarcodeTooShort int
  | AmbiguousItem
  | UnknownItem string
  | OtherItem string
  | AlreadyScanned
  | DefectiveFull
  | GoodFull
  | BadItemCode
  | BadDefectiveList
  | BadGoodList
  | BarcodeItemMismatch
  | SharedBarcode
  | DefectiveCountMismatch
  | GoodCountMismatch
  | CountsDiffer
  | WrongStep

record exchange_result =
  ex_status :: string
  ex_notice :: exchange_notice
  play_success_sound :: bool
  complete_ready :: bool

abbreviation ex_result :: "string \<Rightarrow> exchange_notice \<Rightarrow> exchange_result" where
  "ex_result st n \<equiv> \<lparr>ex_status = st, ex_notice = n, play_success_sound = False, complete_ready = False\<rparr>"

fun valid_exchange_barcodes_from :: "string list \<Rightarrow> string list \<Rightarrow> bool" where
  "valid_exchange_barcodes_from seen [] = True"
| "valid_exchange_barcodes_from seen (b # bs) =
     (if strip b = [] then False
      else if b \<in> set seen then False
      else valid_exchange_barcodes_from (b # seen) bs)"

definition valid_exchange_barcodes :: "string list \<Rightarrow> bool" where
  "valid_exchange_barcodes bs = valid_exchange_barcodes_from [] bs"

text \<open>The part of a scan after the item of the barcode has been settled.\<close>

definition record_exchange_barcode ::
  "exchange_session \<Rightarrow> string \<Rightarrow> exchange_session \<times> exchange_result" where
  "record_exchange_barcode session barcode =
     (let finish = (\<lambda>s. (s, \<lparr>ex_status = ''accepted'', ex_notice = NoNotice, play_success_sound = True,
            complete_ready = (int (length (defective_barcodes s)) = target_quantity s
                              \<and> int (length (good_barcodes s)) = target_quantity s)\<rparr>))
      in if barcode \<in> set (defective_barcodes session @ good_barcodes session)
         then (session, ex_result ''warning'' AlreadyScanned)
         else if current_step session = ''scan_defective'' then
           (if target_quantity session \<le> int (length (defective_barcodes session))
            then (session, ex_result ''warning'' DefectiveFull)
            else let s = session\<lparr>defective_barcodes := defective_barcodes session @ [barcode]\<rparr>
                 in finish (if target_quantity s \<le> int (length (defective_barcodes s))
                            then s\<lparr>current_step := ''scan_good''\<rparr> else s))
         else
           (if target_quantity session \<le> int (length (good_barcodes session))
            then (session, ex_result ''warning'' GoodFull)
            else finish (session\<lparr>good_barcodes := good_barcodes session @ [barcode]\<rparr>)))"

definition apply_exchange_scan ::
  "item_catalog \<Rightarrow> int \<Rightarrow> exchange_session \<Rightarrow> string \<Rightarrow> exchange_session \<times> exchange_result" where
  "apply_exchange_scan item_catalog item_code_length session barcode =
     (if current_step session \<notin> {''scan_defective'', ''scan_good''}
      then (session, ex_result ''ignored'' NoNotice)
      else if target_quantity session < 1 \<or> MAX_EXCHANGE_TARGET_QUANTITY < target_quantity session
      then (session, ex_result ''error'' BadTargetQuantity)
      else if item_code_length < 1
      then (session, ex_result ''error'' BadLengthSetting)
      else if strip barcode = []
      then (session, ex_result ''error'' BadBarcode)
      else if \<not> valid_exchange_barcodes (defective_barcodes session)
          \<or> \<not> valid_exchange_barcodes (good_barcodes session)
      then (session, ex_result ''error'' BadBarcodeLists)
      else if int (length barcode) \<le> item_code_length
      then (session, ex_result ''error'' (BarcodeTooShort item_code_length))
      else if 1 < length (dedup (matching_codes_in_barcode item_catalog barcode))
      then (session, ex_result ''error'' AmbiguousItem)
      else
        let matched_item = find_in_barcode item_catalog barcode;
            item_code = (case matched_item of
                Some row \<Rightarrow> py_str (vget row ''Item Code'')
              | None \<Rightarrow> take (nat item_code_length) barcode)
        in if ex_item_code session = [] \<and> matched_item = None
           then (session, ex_result ''error'' (UnknownItem item_code))
           else
             let session = (case matched_item of
                   Some row \<Rightarrow>
                     (if ex_item_code session = [] then
                        session\<lparr>ex_item_code := item_code,
                          ex_item_name := vget_default row ''Item Name'' (VStr item_code),
                          ex_item_spec := vget_default row ''Spec'' (VStr [])\<rparr>
                      else session)
                 | None \<Rightarrow> session)
             in if matched_item \<noteq> None \<and> item_code \<noteq> ex_item_code session
                then (session, ex_result ''error'' (OtherItem (ex_item_code session)))
                else if \<not> in_text (ex_item_code session) barcode
                then (session, ex_result ''error'' (OtherItem (ex_item_code session)))
                else record_exchange_barcode session barcode)"

definition build_exchange_pairs :: "exchange_session \<Rightarrow> (string \<times> string) list" where
  "build_exchange_pairs session = zip (defective_barcodes session) (good_barcodes session)"

definition validate_exchange_completion :: "exchange_session \<Rightarrow> exchange_result" where
  "validate_exchange_completion session =
     (let item_code = strip (ex_item_code session) in
      if target_quantity session \<le> 0 \<or> MAX_EXCHANGE_TARGET_QUANTITY < target_quantity session
      then ex_result ''error'' BadTargetQuantity
      else if item_code = [] then ex_result ''error'' BadItemCode
      else if \<not> valid_exchange_barcodes (defective_barcodes session) then ex_result ''error'' BadDefectiveList
      else if \<not> valid_exchange_barcodes (good_barcodes session) then ex_result ''error'' BadGoodList
      else if list_ex (\<lambda>b. \<not> in_text item_code b) (defective_barcodes session @ good_barcodes session)
      then ex_result ''error'' BarcodeItemMismatch
      else if set (defective_barcodes session) \<inter> set (good_barcodes session) \<noteq> {}
      then ex_result ''error'' SharedBarcode
      else if int (length (defective_barcodes session)) \<noteq> target_quantity session
      then ex_result ''error'' DefectiveCountMismatch
      else if int (length (good_barcodes session)) \<noteq> target_quantity session
      then ex_result ''error'' GoodCountMismatch
      else if length (defective_barcodes session) \<noteq> length (good_barcodes session)
      then ex_result ''error'' CountsDiffer
      else if current_step session \<noteq> ''scan_good'' then ex_result ''error'' WrongStep
      else ex_result ''accepted'' NoNotice)"

text \<open>\<open>raise ValueError(validation.message)\<close> is \<open>Inl\<close> of the notice.\<close>

definition build_exchange_completion_detail ::
  "(string \<Rightarrow> string) \<Rightarrow> exchange_session \<Rightarrow> exchange_notice + (string, pyval) dict option" where
  "build_exchange_completion_detail sha256_hex session =
     (let validation = validate_exchange_completion session in
      if ex_status validation \<noteq> ''accepted'' then Inl (ex_notice validation)
      else let pairs = build_exchange_pairs session;
               detail =
                 [(''exchange_contract_version'', VStr EXCHANGE_CONTRACT_VERSION),
                  (''exchange_id'', VStr (exchange_id session)),
                  (''target_quantity'', VInt (target_quantity session)),
                  (''exchange_pairs'', VList (map (\<lambda>(d, g).
                     VDict [(''defective'', VStr d), (''good'', VStr g)]) pairs)),
                  (''item_code'', VStr (ex_item_code session)),
                  (''item_name'', ex_item_name session),
                  (''item_spec'', ex_item_spec session),
                  (''defective_barcodes'', VList (map VStr (defective_barcodes session))),
                  (''good_barcodes'', VList (map VStr (good_barcodes session))),
                  (''pair_count'', VInt (int (length pairs))),
                  (''exchange_count'', VInt (int (length pairs)))]
           in Inr (map_option (\<lambda>h. dset ''evidence_hash'' (VStr h) detail) (stable_hash sha256_hex detail)))"

subsection \<open>Sessions reached by scanning\<close>

definition exchange_inv :: "exchange_session \<Rightarrow> bool" where
  "exchange_inv s \<longleftrightarrow>
     current_step s \<in> {''scan_defective'', ''scan_good''} \<and>
     1 \<le> target_quantity s \<and> target_quantity s \<le> 2 \<and>
     strip (ex_item_code s) = ex_item_code s \<and>
     (ex_item_code s = [] \<longrightarrow> defective_barcodes s = [] \<and> good_barcodes s = []) \<and>
     distinct (defective_barcodes s @ good_barcodes s) \<and>
     (\<forall>b \<in> set (defective_barcodes s @ good_barcodes s). strip b \<noteq> [] \<and> in_text (ex_item_code s) b) \<and>
     int (length (defective_barcodes s)) \<le> target_quantity s \<and>
     int (length (good_barcodes s)) \<le> target_quantity s \<and>
     (current_step s = ''scan_good'' \<longleftrightarrow> int (length (defective_barcodes s)) = target_quantity s) \<and>
     (current_step s = ''scan_defective'' \<longrightarrow> good_barcodes s = [])"

inductive exchange_reachable :: "item_catalog \<Rightarrow> int \<Rightarrow> exchange_session \<Rightarrow> bool"
  for cat :: item_catalog and len :: int where
  start: "exchange_reachable cat len
    \<lparr>ex_item_code = [], ex_item_name = VStr [], ex_item_spec = VStr [], target_quantity = n,
     exchange_id = i, defective_barcodes = [], good_barcodes = [], current_step = ''scan_defective''\<rparr>"
    if "1 \<le> n" "n \<le> MAX_EXCHANGE_TARGET_QUANTITY"
| scan: "exchange_reachable cat len s \<Longrightarrow> exchange_reachable cat len (fst (apply_exchange_scan cat len s b))"

lemma valid_exchange_barcodes_from_iff:
  "valid_exchange_barcodes_from seen bs \<longleftrightarrow>
     (\<forall>b \<in> set bs. strip b \<noteq> []) \<and> distinct bs \<and> set seen \<inter> set bs = {}"
  by (induction seen bs rule: valid_exchange_barcodes_from.induct) auto

lemma valid_exchange_barcodes_iff:
  "valid_exchange_barcodes bs \<longleftrightarrow> (\<forall>b \<in> set bs. strip b \<noteq> []) \<and> distinct bs"
  by (simp add: valid_exchange_barcodes_def valid_exchange_barcodes_from_iff)

lemma record_exchange_barcode_inv:
  assumes "exchange_inv s" "ex_item_code s \<noteq> []" "strip b \<noteq> []" "in_text (ex_item_code s) b"
  shows "exchange_inv (fst (record_exchange_barcode s b))"
  using assms
  by (auto simp: record_exchange_barcode_def Let_def exchange_inv_def)

text \<open>The session after the code has adopted the item of the first product.\<close>

definition adopt_item :: "exchange_session \<Rightarrow> catalog_row \<Rightarrow> exchange_session" where
  "adopt_item s row = s\<lparr>ex_item_code := py_str (vget row ''Item Code''),
     ex_item_name := vget_default row ''Item Name'' (vget row ''Item Code''),
     ex_item_spec := vget_default row ''Spec'' (VStr [])\<rparr>"

lemma apply_exchange_scan_cases:
  assumes "wf_catalog cat"
  obtains (kept) "fst (apply_exchange_scan cat len s b) = s"
      "ex_status (snd (apply_exchange_scan cat len s b)) \<noteq> ''accepted''"
      "\<not> complete_ready (snd (apply_exchange_scan cat len s b))"
  | (first_scan) row code where "ex_item_code s = []" "find_in_barcode cat b = Some row"
      "vget row ''Item Code'' = VStr code" "code \<noteq> []" "strip code = code" "in_text code b"
      "matching_codes_in_barcode cat b = [code]" "strip b \<noteq> []"
      "current_step s \<in> {''scan_defective'', ''scan_good''}"
      "apply_exchange_scan cat len s b = record_exchange_barcode (adopt_item s row) b"
  | (later_scan) "ex_item_code s \<noteq> []" "in_text (ex_item_code s) b" "strip b \<noteq> []"
      "find_in_barcode cat b = None \<or> matching_codes_in_barcode cat b = [ex_item_code s]"
      "length (matching_codes_in_barcode cat b) \<le> 1"
      "current_step s \<in> {''scan_defective'', ''scan_good''}"
      "apply_exchange_scan cat len s b = record_exchange_barcode s b"
proof (cases "current_step s \<notin> {''scan_defective'', ''scan_good''} \<or>
    target_quantity s < 1 \<or> MAX_EXCHANGE_TARGET_QUANTITY < target_quantity s \<or> len < 1 \<or>
    strip b = [] \<or> \<not> valid_exchange_barcodes (defective_barcodes s) \<or>
    \<not> valid_exchange_barcodes (good_barcodes s) \<or> int (length b) \<le> len \<or>
    1 < length (dedup (matching_codes_in_barcode cat b))")
  case True
  then have "fst (apply_exchange_scan cat len s b) = s"
    and "ex_status (snd (apply_exchange_scan cat len s b)) \<noteq> ''accepted''"
    and "\<not> complete_ready (snd (apply_exchange_scan cat len s b))"
    by (auto simp: apply_exchange_scan_def)
  then show thesis by (rule kept)
next
  case False
  have len1: "length (matching_codes_in_barcode cat b) \<le> 1"
  proof -
    have "distinct (matching_codes_in_barcode cat b)"
      using assms by (simp add: matching_codes_in_barcode_def matching_catalog_codes_eq wf_catalog_def)
    with False show ?thesis by simp
  qed
  show thesis
  proof (cases "find_in_barcode cat b")
    case None
    show thesis
    proof (cases "ex_item_code s \<noteq> [] \<and> in_text (ex_item_code s) b")
      case True
      with False None have "apply_exchange_scan cat len s b = record_exchange_barcode s b"
        by (simp add: apply_exchange_scan_def)
      with True False None len1 show thesis by (intro later_scan) auto
    next
      case False2: False
      from False None False2
      have "fst (apply_exchange_scan cat len s b) = s"
        "ex_status (snd (apply_exchange_scan cat len s b)) \<noteq> ''accepted''"
        "\<not> complete_ready (snd (apply_exchange_scan cat len s b))"
        by (auto simp: apply_exchange_scan_def Let_def)
      then show thesis by (rule kept)
    qed
  next
    case (Some row)
    from item_cat.lookup_code [OF assms Some] obtain code where
      code: "matching_codes_in_barcode cat b = [code]" "code \<noteq> []" "strip code = code"
        "in_text code b" "vget row ''Item Code'' = VStr code" .
    show thesis
    proof (cases "ex_item_code s = []")
      case True
      with False Some code
      have "apply_exchange_scan cat len s b = record_exchange_barcode (adopt_item s row) b"
        by (simp add: apply_exchange_scan_def adopt_item_def)
      with True Some code False show thesis by (intro first_scan) auto
    next
      case nonempty: False
      show thesis
      proof (cases "code = ex_item_code s")
        case True
        with False Some code nonempty
        have "apply_exchange_scan cat len s b = record_exchange_barcode s b"
          by (simp add: apply_exchange_scan_def)
        with True nonempty code False len1 show thesis by (intro later_scan) auto
      next
        case other: False
        with False Some code nonempty
        have "fst (apply_exchange_scan cat len s b) = s"
          "ex_status (snd (apply_exchange_scan cat len s b)) \<noteq> ''accepted''"
          "\<not> complete_ready (snd (apply_exchange_scan cat len s b))"
          by (auto simp: apply_exchange_scan_def Let_def)
        then show thesis by (rule kept)
      qed
    qed
  qed
qed

lemma adopt_item_inv:
  assumes "exchange_inv s" "ex_item_code s = []" "vget row ''Item Code'' = VStr code" "strip code = code"
  shows "exchange_inv (adopt_item s row)"
  using assms by (auto simp: exchange_inv_def adopt_item_def)

lemma apply_exchange_scan_inv:
  assumes "wf_catalog cat" "exchange_inv s"
  shows "exchange_inv (fst (apply_exchange_scan cat len s b))"
  using assms(1)
proof (cases rule: apply_exchange_scan_cases [where len = len and s = s and b = b])
  case kept
  with assms(2) show ?thesis by simp
next
  case (first_scan row code)
  then have "exchange_inv (adopt_item s row)" using assms(2) by (intro adopt_item_inv)
  with first_scan show ?thesis
    by (simp add: record_exchange_barcode_inv adopt_item_def)
next
  case later_scan
  with assms(2) show ?thesis by (simp add: record_exchange_barcode_inv)
qed

lemma exchange_reachable_inv:
  "exchange_reachable cat len s \<Longrightarrow> wf_catalog cat \<Longrightarrow> exchange_inv s"
proof (induction rule: exchange_reachable.induct)
  case (start n i)
  then show ?case by (auto simp: exchange_inv_def MAX_EXCHANGE_TARGET_QUANTITY_def)
next
  case (scan s b)
  then show ?case by (simp add: apply_exchange_scan_inv)
qed

lemma record_ready:
  "complete_ready (snd (record_exchange_barcode s b)) \<Longrightarrow>
     int (length (defective_barcodes (fst (record_exchange_barcode s b)))) =
       target_quantity (fst (record_exchange_barcode s b)) \<and>
     int (length (good_barcodes (fst (record_exchange_barcode s b)))) =
       target_quantity (fst (record_exchange_barcode s b))"
  by (auto simp: record_exchange_barcode_def Let_def split: if_splits)

lemma ready_full:
  assumes "wf_catalog cat" "complete_ready (snd (apply_exchange_scan cat len s b))"
    "ex_status (snd (apply_exchange_scan cat len s b)) = ''accepted''"
  shows "int (length (defective_barcodes (fst (apply_exchange_scan cat len s b)))) =
      target_quantity (fst (apply_exchange_scan cat len s b)) \<and>
    int (length (good_barcodes (fst (apply_exchange_scan cat len s b)))) =
      target_quantity (fst (apply_exchange_scan cat len s b)) \<and>
    ex_item_code (fst (apply_exchange_scan cat len s b)) \<noteq> []"
  using assms(1)
proof (cases rule: apply_exchange_scan_cases [where len = len and s = s and b = b])
  case kept
  with assms(3) show ?thesis by simp
next
  case (first_scan row code)
  have "ex_item_code (fst (record_exchange_barcode t b)) = ex_item_code t" for t
    by (auto simp: record_exchange_barcode_def Let_def)
  with first_scan assms record_ready [of "adopt_item s row" b] show ?thesis
    by (simp add: adopt_item_def)
next
  case later_scan
  have "ex_item_code (fst (record_exchange_barcode s b)) = ex_item_code s"
    by (auto simp: record_exchange_barcode_def Let_def)
  with later_scan assms record_ready [of s b] show ?thesis by simp
qed

lemma completion_accepted:
  assumes "exchange_inv s" "ex_item_code s \<noteq> []"
    "int (length (defective_barcodes s)) = target_quantity s"
    "int (length (good_barcodes s)) = target_quantity s"
  shows "validate_exchange_completion s = ex_result ''accepted'' NoNotice"
proof -
  have "set (defective_barcodes s) \<inter> set (good_barcodes s) = {}"
    using assms(1) by (auto simp: exchange_inv_def)
  moreover have "current_step s = ''scan_good''"
    using assms by (auto simp: exchange_inv_def)
  ultimately show ?thesis
    using assms
    by (auto simp: validate_exchange_completion_def Let_def exchange_inv_def list_ex_iff
        valid_exchange_barcodes_iff MAX_EXCHANGE_TARGET_QUANTITY_def)
qed

lemma validate_accepted_pairs:
  assumes "validate_exchange_completion s = ex_result ''accepted'' NoNotice"
  shows "int (length (build_exchange_pairs s)) = target_quantity s"
    "map fst (build_exchange_pairs s) = defective_barcodes s"
    "map snd (build_exchange_pairs s) = good_barcodes s"
    "distinct (defective_barcodes s @ good_barcodes s)"
  using assms
  by (auto simp: validate_exchange_completion_def build_exchange_pairs_def Let_def
      valid_exchange_barcodes_iff split: if_splits)

subsection \<open>Properties\<close>

lemma record_accepted:
  assumes "record_exchange_barcode s b = (s', r)" "ex_status r = ''accepted''"
    "current_step s \<in> {''scan_defective'', ''scan_good''}"
  shows "b \<notin> set (defective_barcodes s @ good_barcodes s) \<and> ex_item_code s' = ex_item_code s \<and>
    (if current_step s = ''scan_defective''
     then defective_barcodes s' = defective_barcodes s @ [b] \<and> good_barcodes s' = good_barcodes s
     else defective_barcodes s' = defective_barcodes s \<and> good_barcodes s' = good_barcodes s @ [b])"
  using assms by (auto simp: record_exchange_barcode_def Let_def split: if_splits)

lemma ready_accepted:
  assumes "wf_catalog cat" "complete_ready (snd (apply_exchange_scan cat len s b))"
  shows "ex_status (snd (apply_exchange_scan cat len s b)) = ''accepted''"
proof -
  have rec: "complete_ready (snd (record_exchange_barcode t b)) \<Longrightarrow>
      ex_status (snd (record_exchange_barcode t b)) = ''accepted''" for t
    by (auto simp: record_exchange_barcode_def Let_def split: if_splits)
  show ?thesis
    using assms(1)
    by (cases rule: apply_exchange_scan_cases [where len = len and s = s and b = b])
       (use assms(2) rec in simp_all)
qed

definition demo_rows :: "catalog_row list" where
  "demo_rows = [[(''Item Code'', VStr ''AB''), (''Item Name'', VStr ''part''), (''Spec'', VStr ''s'')]]"

definition demo_start :: exchange_session where
  "demo_start = \<lparr>ex_item_code = [], ex_item_name = VStr [], ex_item_spec = VStr [], target_quantity = 1,
     exchange_id = ''x1'', defective_barcodes = [], good_barcodes = [], current_step = ''scan_defective''\<rparr>"

definition demo_half :: exchange_session where
  "demo_half = \<lparr>ex_item_code = ''AB'', ex_item_name = VStr ''part'', ex_item_spec = VStr ''s'', target_quantity = 1,
     exchange_id = ''x1'', defective_barcodes = [''AB-1''], good_barcodes = [], current_step = ''scan_good''\<rparr>"

definition demo_full :: exchange_session where
  "demo_full = demo_half\<lparr>good_barcodes := [''AB-2'']\<rparr>"

lemma demo_scans:
  "apply_exchange_scan (build_catalog demo_rows) 2 demo_start ''AB-1'' =
     (demo_half, \<lparr>ex_status = ''accepted'', ex_notice = NoNotice, play_success_sound = True, complete_ready = False\<rparr>)"
  "apply_exchange_scan (build_catalog demo_rows) 2 demo_half ''AB-2'' =
     (demo_full, \<lparr>ex_status = ''accepted'', ex_notice = NoNotice, play_success_sound = True, complete_ready = True\<rparr>)"
  by code_simp+

lemma demo_reachable:
  "exchange_reachable (build_catalog demo_rows) 2 demo_half"
  "exchange_reachable (build_catalog demo_rows) 2 demo_full"
proof -
  have "exchange_reachable (build_catalog demo_rows) 2 demo_start"
    unfolding demo_start_def by (rule exchange_reachable.start) (simp_all add: MAX_EXCHANGE_TARGET_QUANTITY_def)
  from exchange_reachable.scan [OF this, of "''AB-1''"]
  show half: "exchange_reachable (build_catalog demo_rows) 2 demo_half" by (simp add: demo_scans)
  from exchange_reachable.scan [OF half, of "''AB-2''"]
  show "exchange_reachable (build_catalog demo_rows) 2 demo_full" by (simp add: demo_scans)
qed

text \<open>
  C23. However products are scanned during an exchange, no barcode is recorded twice (neither
  within a list nor across the two lists), every recorded barcode contains the item code of the
  session, neither list exceeds the target quantity, which is one or two, and good products are
  collected exactly after all defective ones.
\<close>

theorem exchange_session_invariant:
  assumes "exchange_reachable (build_catalog rows) len s"
  shows "distinct (defective_barcodes s @ good_barcodes s) \<and>
    (\<forall>b \<in> set (defective_barcodes s @ good_barcodes s). in_text (ex_item_code s) b) \<and>
    int (length (good_barcodes s)) \<le> target_quantity s \<and>
    int (length (defective_barcodes s)) \<le> target_quantity s \<and>
    1 \<le> target_quantity s \<and> target_quantity s \<le> 2 \<and>
    (current_step s = ''scan_good'' \<longleftrightarrow> int (length (defective_barcodes s)) = target_quantity s) \<and>
    (good_barcodes s \<noteq> [] \<longrightarrow> current_step s = ''scan_good'')"
  using exchange_reachable_inv [OF assms build_catalog_wf] by (auto simp: exchange_inv_def)

theorem exchange_session_invariant_witness:
  "defective_barcodes demo_full = [''AB-1''] \<and> good_barcodes demo_full = [''AB-2''] \<and>
   distinct (defective_barcodes demo_full @ good_barcodes demo_full)"
  using exchange_session_invariant [OF demo_reachable(2)] by (simp add: demo_full_def demo_half_def)

text \<open>
  C24. The scan that reports the exchange as ready always leaves a session that passes the
  completion check: its pairs match each defective barcode with one good barcode in scan order,
  as many as the target quantity, all distinct, and the completion detail is built without an
  error (the hash of the detail only refuses a NaN in the catalog's name or specification).
\<close>

theorem exchange_ready_completes:
  assumes "exchange_reachable (build_catalog rows) len s"
    "apply_exchange_scan (build_catalog rows) len s b = (s', r)" "complete_ready r"
  shows "validate_exchange_completion s' = ex_result ''accepted'' NoNotice \<and>
    int (length (build_exchange_pairs s')) = target_quantity s' \<and>
    map fst (build_exchange_pairs s') = defective_barcodes s' \<and>
    map snd (build_exchange_pairs s') = good_barcodes s' \<and>
    distinct (defective_barcodes s' @ good_barcodes s') \<and>
    (nan_free (ex_item_name s') \<and> nan_free (ex_item_spec s') \<longrightarrow>
       (\<exists>detail. build_exchange_completion_detail sha s' = Inr (Some detail)))"
proof -
  note wf = build_catalog_wf [of rows]
  have s': "fst (apply_exchange_scan (build_catalog rows) len s b) = s'" and
    r: "complete_ready (snd (apply_exchange_scan (build_catalog rows) len s b))"
    using assms by simp_all
  have "exchange_inv s'"
    using apply_exchange_scan_inv [OF wf exchange_reachable_inv [OF assms(1) wf], of len b] s' by simp
  with ready_full [OF wf r ready_accepted [OF wf r], unfolded s']
  have v: "validate_exchange_completion s' = ex_result ''accepted'' NoNotice"
    by (intro completion_accepted) auto
  with validate_accepted_pairs [OF v] show ?thesis
    by (auto simp: build_exchange_completion_detail_def Let_def stable_hash_eq)
qed

theorem exchange_ready_completes_witness:
  "validate_exchange_completion demo_full = ex_result ''accepted'' NoNotice \<and>
   build_exchange_pairs demo_full = [(''AB-1'', ''AB-2'')] \<and>
   (\<exists>detail. build_exchange_completion_detail (\<lambda>_. ''00'') demo_full = Inr (Some detail))"
  using exchange_ready_completes [OF demo_reachable(1) demo_scans(2), where sha = "\<lambda>_. ''00''"]
  by (simp add: build_exchange_pairs_def demo_full_def demo_half_def)

text \<open>
  An accepted exchange scan appends the barcode to the list of the current step and changes
  the other one in nothing; the barcode was in neither list, it contains the session's item code
  and the catalog names no other item in it.
\<close>

theorem exchange_scan_accepted:
  assumes "apply_exchange_scan (build_catalog rows) len s b = (s', r)" "ex_status r = ''accepted''"
  shows "ex_item_code s' \<noteq> [] \<and> in_text (ex_item_code s') b \<and>
    set (matching_codes_in_barcode (build_catalog rows) b) \<subseteq> {ex_item_code s'} \<and>
    b \<notin> set (defective_barcodes s @ good_barcodes s) \<and>
    (if current_step s = ''scan_defective''
     then defective_barcodes s' = defective_barcodes s @ [b] \<and> good_barcodes s' = good_barcodes s
     else defective_barcodes s' = defective_barcodes s \<and> good_barcodes s' = good_barcodes s @ [b])"
  using build_catalog_wf [of rows]
proof (cases rule: apply_exchange_scan_cases [where len = len and s = s and b = b])
  case kept
  with assms show ?thesis by simp
next
  case (first_scan row code)
  have "record_exchange_barcode (adopt_item s row) b = (s', r)" using first_scan assms(1) by simp
  from record_accepted [OF this assms(2)] first_scan show ?thesis by (simp add: adopt_item_def)
next
  case later_scan
  let ?m = "matching_codes_in_barcode (build_catalog rows) b"
  have "?m = [] \<or> (\<exists>c. ?m = [c])" using later_scan(5) by (cases ?m) auto
  then have "set ?m \<subseteq> {ex_item_code s}"
    using later_scan(4) item_cat.single_match_found [OF build_catalog_wf, of rows b] by auto
  moreover have "record_exchange_barcode s b = (s', r)" using later_scan assms(1) by simp
  from record_accepted [OF this assms(2) later_scan(6)]
  have "b \<notin> set (defective_barcodes s @ good_barcodes s) \<and> ex_item_code s' = ex_item_code s \<and>
    (if current_step s = ''scan_defective''
     then defective_barcodes s' = defective_barcodes s @ [b] \<and> good_barcodes s' = good_barcodes s
     else defective_barcodes s' = defective_barcodes s \<and> good_barcodes s' = good_barcodes s @ [b])" .
  ultimately show ?thesis using later_scan(1,2) by simp
qed

theorem exchange_scan_accepted_witness:
  "ex_item_code demo_full = ''AB'' \<and> in_text ''AB'' ''AB-2'' \<and>
   good_barcodes demo_full = good_barcodes demo_half @ [''AB-2'']"
  using exchange_scan_accepted [OF demo_scans(2)] by (simp add: demo_full_def demo_half_def)

end
