(* ===== verification/Ui_Lane.thy ===== *)
theory Ui_Lane
  imports Prelude
begin

text \<open>
  \<open>tk_serial_ui_lane.py\<close>: one worker thread runs blocking work, the Tk owner thread applies
  the results. The lane object is the record \<open>lane\<close>; each method is a function on it, and the
  two threads interleave in the step relation \<open>lane_step\<close>.

  \<^item> What a callback of the application does is not part of the lane: a step says only whether
    it returned or raised. While a callback runs (phases \<open>InUiCall\<close>, \<open>InFinish\<close>,
    \<open>InOnIdle\<close> of the pump) the owner may call the lane's methods again, as callbacks do.
  \<^item> \<open>worker_thread.join(timeout=2.0)\<close> is the flag \<open>joining\<close>: the owner is blocked, the
    worker goes on, and the join ends with the worker gone (\<open>join_ok\<close>) or not
    (\<open>join_timeout\<close>).
  \<^item> \<open>generation_now\<close> is what the generation provider would return, \<^term>\<open>None\<close> when there
    is no provider; the application may change it at any time.
  \<^item> The last four fields record what happened (results applied, drain callbacks called, a
    \<open>queue.Full\<close> that escaped from a close, whether the lane was ever broken); no method reads
    them.
\<close>

subsection \<open>Data\<close>

datatype lane_status = LANE_IDLE | LANE_BUSY | LANE_DRAINING | LANE_BROKEN | LANE_CLOSED

datatype shutdown_policy = DRAIN_TO_TERMINAL | DRAIN_TO_DURABLE_HANDOFF

record lane_task =
  task_name :: string
  task_generation :: int
  cancel_safe :: bool
  task_policy :: shutdown_policy

record queued_task =
  op_id :: nat
  task :: lane_task

datatype task_item = QTask queued_task | QStop

datatype result_kind = KSuccess | KFailure

datatype applied_kind = AppliedFinish | AppliedFail | AppliedStale

datatype envelope =
    UiCall nat nat int                   \<comment> \<open>sequence, op id, generation\<close>
  | Terminal nat queued_task result_kind \<comment> \<open>sequence, the task with its op id, success or failure\<close>

datatype worker_phase = WIdle | WWork queued_task | WBlocked queued_task | WExit

datatype pump_phase =
    PumpScheduled
  | PumpOff
  | PumpRunning nat
  | InUiCall nat
  | InFinish nat queued_task
  | InOnIdle nat bool

record lane =
  lane_status :: lane_status
  active :: "queued_task option"
  idle_barrier :: bool
  next_op_id :: nat
  next_sequence :: nat
  fault_presented :: bool
  task_queue :: "task_item list"
  result_queue :: "envelope list"
  drain_callbacks :: "nat list"
  stop_sent :: bool
  worker :: worker_phase
  pump :: pump_phase
  joining :: bool
  generation_now :: "int option"
  applied :: "(nat \<times> applied_kind) list"
  drained :: "nat list"
  full_raised :: bool
  ever_broken :: bool

datatype admission = Admitted nat | RefusedBroken | RefusedClosing | RefusedBusy

definition init_lane :: "int option \<Rightarrow> lane" where
  "init_lane gen = \<lparr>lane_status = LANE_IDLE, active = None, idle_barrier = False, next_op_id = 0,
     next_sequence = 0, fault_presented = False, task_queue = [], result_queue = [],
     drain_callbacks = [], stop_sent = False, worker = WIdle, pump = PumpScheduled, joining = False,
     generation_now = gen, applied = [], drained = [], full_raised = False, ever_broken = False\<rparr>"

subsection \<open>Methods of the owner\<close>

definition generation_is_current :: "lane \<Rightarrow> int \<Rightarrow> bool" where
  "generation_is_current l gen = (case generation_now l of None \<Rightarrow> True | Some g \<Rightarrow> g = gen)"

definition present_fault :: "lane \<Rightarrow> lane" where
  "present_fault l = l\<lparr>fault_presented := True\<rparr>"

definition break_lane :: "lane \<Rightarrow> lane" where
  "break_lane l = present_fault (l\<lparr>active := None, idle_barrier := False, lane_status := LANE_BROKEN,
     ever_broken := True\<rparr>)"

text \<open>The task queue has \<open>maxsize=1\<close>: \<open>put_nowait\<close> on a full queue raises.\<close>

definition submit :: "lane \<Rightarrow> lane_task \<Rightarrow> lane \<times> admission" where
  "submit l t =
     (if lane_status l = LANE_BROKEN then (l, RefusedBroken)
      else if lane_status l \<in> {LANE_DRAINING, LANE_CLOSED} then (l, RefusedClosing)
      else if active l \<noteq> None \<or> idle_barrier l \<or> lane_status l = LANE_BUSY then (l, RefusedBusy)
      else
        let q = \<lparr>op_id = next_op_id l + 1, task = t\<rparr>;
            l = l\<lparr>next_op_id := next_op_id l + 1, active := Some q, lane_status := LANE_BUSY\<rparr>
        in if task_queue l = []
           then (l\<lparr>task_queue := [QTask q]\<rparr>, Admitted (op_id q))
           else (present_fault (l\<lparr>active := None, lane_status := LANE_BROKEN, ever_broken := True\<rparr>),
                 RefusedBroken))"

definition is_busy :: "lane \<Rightarrow> bool" where
  "is_busy l \<longleftrightarrow> active l \<noteq> None"

text \<open>Up to the join of \<open>_complete_close\<close>; the flag says whether \<open>queue.Full\<close> was raised.\<close>

definition complete_close :: "lane \<Rightarrow> lane \<times> bool" where
  "complete_close l =
     (if lane_status l = LANE_CLOSED \<or> active l \<noteq> None then (l, False)
      else if \<not> stop_sent l then
        (if task_queue l = []
         then (l\<lparr>stop_sent := True, task_queue := [QStop], joining := True\<rparr>, False)
         else (l\<lparr>stop_sent := True, full_raised := True\<rparr>, True))
      else (l\<lparr>joining := True\<rparr>, False))"

definition stop_accepting :: "lane \<Rightarrow> lane" where
  "stop_accepting l =
     (if lane_status l \<in> {LANE_CLOSED, LANE_BROKEN} then l else l\<lparr>lane_status := LANE_DRAINING\<rparr>)"

definition begin_drain :: "lane \<Rightarrow> lane" where
  "begin_drain l = (if lane_status l \<noteq> LANE_BROKEN then l\<lparr>lane_status := LANE_DRAINING\<rparr> else l)"

definition drain_then :: "lane \<Rightarrow> nat \<Rightarrow> lane" where
  "drain_then l callback =
     (if lane_status l = LANE_CLOSED then l\<lparr>drained := drained l @ [callback]\<rparr>
      else let l' = begin_drain (l\<lparr>drain_callbacks := drain_callbacks l @ [callback]\<rparr>)
           in if active l = None then fst (complete_close l') else l')"

definition close_idle :: "lane \<Rightarrow> lane" where
  "close_idle l =
     (if lane_status l = LANE_CLOSED then l
      else if active l = None then fst (complete_close (begin_drain l)) else begin_drain l)"

definition mark_broken :: "lane \<Rightarrow> lane" where
  "mark_broken l = break_lane l"

definition join_ok :: "lane \<Rightarrow> lane" where
  "join_ok l = l\<lparr>joining := False, lane_status := LANE_CLOSED, drained := drained l @ drain_callbacks l,
     drain_callbacks := [], pump := (if pump l = PumpScheduled then PumpOff else pump l)\<rparr>"

definition join_timeout :: "lane \<Rightarrow> lane" where
  "join_timeout l = break_lane (l\<lparr>joining := False\<rparr>)"

subsection \<open>The worker\<close>

text \<open>\<open>_worker_main\<close>: take the next item of the task queue.\<close>

fun worker_take :: "task_item \<Rightarrow> lane \<Rightarrow> lane" where
  "worker_take (QTask q) l = l\<lparr>task_queue := tl (task_queue l), worker := WWork q\<rparr>"
| "worker_take QStop l = l\<lparr>task_queue := tl (task_queue l), worker := WExit\<rparr>"

definition worker_done :: "queued_task \<Rightarrow> result_kind \<Rightarrow> lane \<Rightarrow> lane" where
  "worker_done q k l = l\<lparr>next_sequence := next_sequence l + 1,
     result_queue := result_queue l @ [Terminal (next_sequence l + 1) q k], worker := WIdle\<rparr>"

text \<open>
  \<open>call_ui_sync\<close> from the worker: with no active task, or on a broken or closed lane, it raises
  inside the task's work, which goes on (\<^term>\<open>None\<close>).
\<close>

definition call_ui_sync :: "queued_task \<Rightarrow> lane \<Rightarrow> lane option" where
  "call_ui_sync q l =
     (case active l of
        None \<Rightarrow> None
      | Some a \<Rightarrow>
          if lane_status l \<in> {LANE_BROKEN, LANE_CLOSED} then None
          else Some (l\<lparr>next_sequence := next_sequence l + 1,
            result_queue := result_queue l @ [UiCall (next_sequence l + 1) (op_id a) (task_generation (task a))],
            worker := WBlocked q\<rparr>))"

text \<open>\<open>ui_call.event.set()\<close>\<close>

definition wake_worker :: "lane \<Rightarrow> lane" where
  "wake_worker l = (case worker l of WBlocked q \<Rightarrow> l\<lparr>worker := WWork q\<rparr> | _ \<Rightarrow> l)"

subsection \<open>The pump\<close>

text \<open>
  Start of \<open>_apply_ui_call\<close>: a stale checkpoint wakes the worker with an error at once,
  otherwise the callback runs.
\<close>

definition begin_ui_call :: "nat \<Rightarrow> nat \<Rightarrow> int \<Rightarrow> lane \<Rightarrow> lane" where
  "begin_ui_call n op gen l =
     (case active l of
        Some a \<Rightarrow>
          if op_id a \<noteq> op \<or> task_generation (task a) \<noteq> gen \<or> \<not> generation_is_current l gen
          then (wake_worker l)\<lparr>pump := PumpRunning (n + 1)\<rparr>
          else l\<lparr>pump := InUiCall n\<rparr>
      | None \<Rightarrow> (wake_worker l)\<lparr>pump := PumpRunning (n + 1)\<rparr>)"

definition end_ui_call :: "nat \<Rightarrow> lane \<Rightarrow> lane" where
  "end_ui_call n l = (wake_worker l)\<lparr>pump := PumpRunning (n + 1)\<rparr>"

text \<open>Start of \<open>_apply_terminal_result\<close>: which callback runs, or the lane breaks.\<close>

definition applied_as :: "lane \<Rightarrow> queued_task \<Rightarrow> result_kind \<Rightarrow> applied_kind" where
  "applied_as l q k =
     (if generation_is_current l (task_generation (task q))
      then (case k of KSuccess \<Rightarrow> AppliedFinish | KFailure \<Rightarrow> AppliedFail)
      else AppliedStale)"

definition begin_terminal :: "nat \<Rightarrow> queued_task \<Rightarrow> result_kind \<Rightarrow> lane \<Rightarrow> lane" where
  "begin_terminal n q k l =
     (if active l = Some q
      then l\<lparr>pump := InFinish n q, applied := applied l @ [(op_id q, applied_as l q k)]\<rparr>
      else (break_lane l)\<lparr>pump := PumpRunning (n + 1)\<rparr>)"

text \<open>The callback returned: the task is released and \<open>on_idle\<close> runs behind the barrier.\<close>

definition finish_returns :: "nat \<Rightarrow> lane \<Rightarrow> lane" where
  "finish_returns n l =
     (let draining = (lane_status l = LANE_DRAINING) in
      l\<lparr>active := None, lane_status := (if draining then LANE_DRAINING else LANE_IDLE),
        idle_barrier := True, pump := InOnIdle n draining\<rparr>)"

definition finish_raises :: "nat \<Rightarrow> lane \<Rightarrow> lane" where
  "finish_raises n l = (break_lane l)\<lparr>pump := PumpRunning (n + 1)\<rparr>"

text \<open>A \<open>queue.Full\<close> out of \<open>_complete_close\<close> leaves \<open>_pump\<close>, which is then not scheduled again.\<close>

definition idle_returns :: "nat \<Rightarrow> bool \<Rightarrow> lane \<Rightarrow> lane" where
  "idle_returns n draining l =
     (let l = l\<lparr>idle_barrier := False, pump := PumpRunning (n + 1)\<rparr> in
      if draining then (let (l', raised) = complete_close l in if raised then l'\<lparr>pump := PumpOff\<rparr> else l')
      else l)"

definition idle_raises :: "nat \<Rightarrow> lane \<Rightarrow> lane" where
  "idle_raises n l = (break_lane l)\<lparr>idle_barrier := False, pump := PumpRunning (n + 1)\<rparr>"

definition begin_envelope :: "nat \<Rightarrow> envelope \<Rightarrow> lane \<Rightarrow> lane" where
  "begin_envelope n e l =
     (let l = l\<lparr>result_queue := tl (result_queue l)\<rparr> in
      case e of
        UiCall sq op gen \<Rightarrow> begin_ui_call n op gen l
      | Terminal sq q k \<Rightarrow> begin_terminal n q k l)"

definition end_pump :: "lane \<Rightarrow> lane" where
  "end_pump l = l\<lparr>pump := (if lane_status l \<noteq> LANE_CLOSED then PumpScheduled else PumpOff)\<rparr>"

subsection \<open>Interleavings\<close>

inductive lane_step :: "nat \<Rightarrow> lane \<Rightarrow> lane \<Rightarrow> bool" for max_results :: nat where
  step_submit: "\<not> joining l \<Longrightarrow> lane_step max_results l (fst (submit l t))"
| step_stop: "\<not> joining l \<Longrightarrow> lane_step max_results l (stop_accepting l)"
| step_drain: "\<not> joining l \<Longrightarrow> lane_step max_results l (drain_then l c)"
| step_close: "\<not> joining l \<Longrightarrow> lane_step max_results l (close_idle l)"
| step_break: "\<not> joining l \<Longrightarrow> lane_step max_results l (mark_broken l)"
| step_join_ok: "joining l \<Longrightarrow> worker l = WExit \<Longrightarrow> lane_step max_results l (join_ok l)"
| step_join_timeout: "joining l \<Longrightarrow> worker l \<noteq> WExit \<Longrightarrow> lane_step max_results l (join_timeout l)"
| step_take: "worker l = WIdle \<Longrightarrow> task_queue l = i # rest \<Longrightarrow> lane_step max_results l (worker_take i l)"
| step_done: "worker l = WWork q \<Longrightarrow> lane_step max_results l (worker_done q k l)"
| step_ui: "worker l = WWork q \<Longrightarrow> call_ui_sync q l = Some l' \<Longrightarrow> lane_step max_results l l'"
| step_pump: "\<not> joining l \<Longrightarrow> pump l = PumpScheduled \<Longrightarrow> lane_step max_results l (l\<lparr>pump := PumpRunning 0\<rparr>)"
| step_envelope: "\<not> joining l \<Longrightarrow> pump l = PumpRunning n \<Longrightarrow> n < max_results \<Longrightarrow> result_queue l = e # es \<Longrightarrow>
    lane_step max_results l (begin_envelope n e l)"
| step_pump_end: "\<not> joining l \<Longrightarrow> pump l = PumpRunning n \<Longrightarrow> n \<ge> max_results \<or> result_queue l = [] \<Longrightarrow>
    lane_step max_results l (end_pump l)"
| step_ui_end: "\<not> joining l \<Longrightarrow> pump l = InUiCall n \<Longrightarrow> lane_step max_results l (end_ui_call n l)"
| step_finish: "\<not> joining l \<Longrightarrow> pump l = InFinish n q \<Longrightarrow> lane_step max_results l (finish_returns n l)"
| step_finish_raise: "\<not> joining l \<Longrightarrow> pump l = InFinish n q \<Longrightarrow> lane_step max_results l (finish_raises n l)"
| step_idle: "\<not> joining l \<Longrightarrow> pump l = InOnIdle n d \<Longrightarrow> lane_step max_results l (idle_returns n d l)"
| step_idle_raise: "\<not> joining l \<Longrightarrow> pump l = InOnIdle n d \<Longrightarrow> lane_step max_results l (idle_raises n l)"
| step_generation: "lane_step max_results l (l\<lparr>generation_now := map_option (\<lambda>_. g) (generation_now l)\<rparr>)"

inductive lane_reachable :: "nat \<Rightarrow> lane \<Rightarrow> bool" for max_results :: nat where
  lane_start: "lane_reachable max_results (init_lane gen)"
| lane_next: "lane_reachable max_results l \<Longrightarrow> lane_step max_results l l' \<Longrightarrow> lane_reachable max_results l'"

subsection \<open>The invariant\<close>

fun item_tasks :: "task_item list \<Rightarrow> queued_task list" where
  "item_tasks [] = []"
| "item_tasks (QTask q # rest) = q # item_tasks rest"
| "item_tasks (QStop # rest) = item_tasks rest"

fun worker_tasks :: "worker_phase \<Rightarrow> queued_task list" where
  "worker_tasks (WWork q) = [q]"
| "worker_tasks (WBlocked q) = [q]"
| "worker_tasks w = []"

fun result_tasks :: "envelope list \<Rightarrow> queued_task list" where
  "result_tasks [] = []"
| "result_tasks (Terminal sq q k # es) = q # result_tasks es"
| "result_tasks (UiCall sq op gen # es) = result_tasks es"

text \<open>The tasks whose result has not reached the application yet.\<close>

definition pending :: "lane \<Rightarrow> queued_task list" where
  "pending l = item_tasks (task_queue l) @ worker_tasks (worker l) @ result_tasks (result_queue l)"

definition applied_ops :: "lane \<Rightarrow> nat list" where
  "applied_ops l = map fst (applied l)"

text \<open>The task whose callback is running.\<close>

fun finishing :: "pump_phase \<Rightarrow> queued_task option" where
  "finishing (InFinish n q) = Some q"
| "finishing p = None"

definition lane_inv :: "lane \<Rightarrow> bool" where
  "lane_inv l \<longleftrightarrow>
     length (task_queue l) \<le> 1 \<and>
     length (pending l) \<le> 1 \<and>
     (finishing (pump l) \<noteq> None \<longrightarrow> pending l = [] \<and> lane_status l \<noteq> LANE_IDLE) \<and>
     (joining l \<longrightarrow> active l = None) \<and>
     (lane_status l = LANE_IDLE \<longrightarrow> pending l = []) \<and>
     (\<forall>q. active l = Some q \<longrightarrow> lane_status l \<in> {LANE_BUSY, LANE_DRAINING} \<and>
        (pending l = [q] \<or> finishing (pump l) = Some q) \<and> op_id q = next_op_id l) \<and>
     (lane_status l = LANE_BUSY \<longrightarrow> active l \<noteq> None) \<and>
     (\<forall>q \<in> set (pending l). 1 \<le> op_id q \<and> op_id q \<le> next_op_id l \<and> (\<forall>i \<in> set (applied_ops l). i < op_id q)) \<and>
     (\<forall>i \<in> set (applied_ops l). 1 \<le> i \<and> i \<le> next_op_id l) \<and>
     sorted_wrt (<) (applied_ops l)"

text \<open>What holds in addition as long as the lane was never broken.\<close>

definition lane_clean :: "lane \<Rightarrow> bool" where
  "lane_clean l \<longleftrightarrow>
     lane_status l \<noteq> LANE_BROKEN \<and>
     \<not> full_raised l \<and>
     (active l = None \<longrightarrow> pending l = [] \<and> finishing (pump l) = None) \<and>
     (stop_sent l \<longleftrightarrow> worker l = WExit \<or> QStop \<in> set (task_queue l)) \<and>
     (stop_sent l \<longrightarrow> active l = None \<and> lane_status l \<in> {LANE_DRAINING, LANE_CLOSED}) \<and>
     (task_queue l \<noteq> [] \<longrightarrow> active l \<noteq> None \<or> stop_sent l) \<and>
     (lane_status l = LANE_CLOSED \<longrightarrow> worker l = WExit \<and> drain_callbacks l = []) \<and>
     (joining l \<longrightarrow> stop_sent l) \<and>
     (\<forall>n. pump l = InOnIdle n True \<longrightarrow> lane_status l \<in> {LANE_DRAINING, LANE_CLOSED}) \<and>
     {1..next_op_id l} = set (applied_ops l) \<union> op_id ` set (pending l)"

lemma item_tasks_append [simp]: "item_tasks (xs @ ys) = item_tasks xs @ item_tasks ys"
  by (induction xs rule: item_tasks.induct) auto

lemma result_tasks_append [simp]: "result_tasks (xs @ ys) = result_tasks xs @ result_tasks ys"
  by (induction xs rule: result_tasks.induct) auto

lemmas lane_inv_defs = lane_inv_def pending_def applied_ops_def
lemmas lane_method_defs = submit_def stop_accepting_def drain_then_def close_idle_def mark_broken_def
  begin_drain_def complete_close_def break_lane_def present_fault_def join_ok_def join_timeout_def
lemmas lane_pump_defs = begin_envelope_def begin_ui_call_def end_ui_call_def begin_terminal_def
  finish_returns_def finish_raises_def idle_returns_def idle_raises_def end_pump_def wake_worker_def

lemma lane_inv_init: "lane_inv (init_lane gen)"
  by (simp add: lane_inv_defs init_lane_def)

lemma lane_clean_init: "lane_clean (init_lane gen)"
  by (simp add: lane_clean_def init_lane_def pending_def applied_ops_def)

lemma lane_inv_idle_empty:
  assumes "lane_inv l" "lane_status l \<notin> {LANE_BROKEN, LANE_DRAINING, LANE_CLOSED, LANE_BUSY}"
  shows "pending l = []" "finishing (pump l) = None"
  using assms by (cases "lane_status l"; auto simp: lane_inv_def)+

lemma submit_inv: "lane_inv l \<Longrightarrow> \<not> joining l \<Longrightarrow> lane_inv (fst (submit l t))"
proof (cases "lane_status l \<in> {LANE_BROKEN, LANE_DRAINING, LANE_CLOSED, LANE_BUSY} \<or>
    active l \<noteq> None \<or> idle_barrier l")
  case True
  assume "lane_inv l"
  with True show ?thesis by (auto simp: submit_def)
next
  case False
  assume inv: "lane_inv l" and nj: "\<not> joining l"
  have p: "pending l = []" "finishing (pump l) = None"
    using False by (auto intro: lane_inv_idle_empty [OF inv])
  have ids: "\<forall>i \<in> set (applied_ops l). 1 \<le> i \<and> i \<le> next_op_id l" "sorted_wrt (<) (applied_ops l)"
    using inv by (auto simp: lane_inv_def)
  show ?thesis
    using False nj inv p ids
    by (auto simp: submit_def Let_def lane_inv_def present_fault_def pending_def applied_ops_def
        less_Suc_eq_le)
qed

lemma owner_inv:
  assumes "lane_inv l" "\<not> joining l"
  shows "lane_inv (stop_accepting l)" "lane_inv (drain_then l c)" "lane_inv (close_idle l)"
    "lane_inv (mark_broken l)"
  using assms by (auto simp: lane_inv_defs lane_method_defs Let_def)

lemma join_inv:
  assumes "lane_inv l" "joining l"
  shows "lane_inv (join_ok l)" "lane_inv (join_timeout l)"
  using assms by (auto simp: lane_inv_defs lane_method_defs)

lemma pending_worker_take:
  "worker l = WIdle \<Longrightarrow> task_queue l = i # rest \<Longrightarrow> length (task_queue l) \<le> 1 \<Longrightarrow>
    pending (worker_take i l) = pending l"
  by (cases i) (auto simp: pending_def)

lemma worker_take_inv:
  assumes "lane_inv l" "worker l = WIdle" "task_queue l = i # rest"
  shows "lane_inv (worker_take i l)"
proof -
  have "length (task_queue l) \<le> 1" using assms(1) by (simp add: lane_inv_def)
  with pending_worker_take [OF assms(2,3)] assms show ?thesis
    by (cases i) (simp_all add: lane_inv_def applied_ops_def)
qed

lemma pending_worker_done:
  "worker l = WWork q \<Longrightarrow> length (pending l) \<le> 1 \<Longrightarrow> pending (worker_done q k l) = pending l"
  by (auto simp: pending_def worker_done_def)

lemma worker_done_inv:
  assumes "lane_inv l" "worker l = WWork q"
  shows "lane_inv (worker_done q k l)"
proof -
  have "length (pending l) \<le> 1" using assms(1) by (simp add: lane_inv_def)
  with pending_worker_done [OF assms(2)] have "pending (worker_done q k l) = pending l" by simp
  with assms(1) show ?thesis
    by (simp add: lane_inv_def worker_done_def applied_ops_def)
qed

lemma call_ui_sync_eqs:
  assumes "call_ui_sync q l = Some l'" "worker l = WWork q"
  shows "pending l' = pending l" "applied l' = applied l" "task_queue l' = task_queue l"
    "active l' = active l" "lane_status l' = lane_status l" "pump l' = pump l" "joining l' = joining l"
    "next_op_id l' = next_op_id l" "stop_sent l' = stop_sent l" "full_raised l' = full_raised l"
    "ever_broken l' = ever_broken l" "drain_callbacks l' = drain_callbacks l" "worker l' = WBlocked q"
  using assms by (auto simp: call_ui_sync_def pending_def split: option.splits if_splits)

lemma call_ui_sync_inv:
  "lane_inv l \<Longrightarrow> worker l = WWork q \<Longrightarrow> call_ui_sync q l = Some l' \<Longrightarrow> lane_inv l'"
  by (simp add: lane_inv_def applied_ops_def call_ui_sync_eqs)

lemma pending_wake_worker [simp]: "pending (wake_worker l) = pending l"
  by (auto simp: wake_worker_def pending_def split: worker_phase.splits)

lemma wake_worker_sel [simp]:
  "applied (wake_worker l) = applied l" "task_queue (wake_worker l) = task_queue l"
  "active (wake_worker l) = active l" "lane_status (wake_worker l) = lane_status l"
  "joining (wake_worker l) = joining l" "next_op_id (wake_worker l) = next_op_id l"
  "stop_sent (wake_worker l) = stop_sent l" "full_raised (wake_worker l) = full_raised l"
  "ever_broken (wake_worker l) = ever_broken l" "drain_callbacks (wake_worker l) = drain_callbacks l"
  "worker (wake_worker l) = WExit \<longleftrightarrow> worker l = WExit" "pump (wake_worker l) = pump l"
  by (auto simp: wake_worker_def split: worker_phase.splits)

lemma pending_pump [simp]: "pending (l\<lparr>pump := p\<rparr>) = pending l"
  by (simp add: pending_def)

lemma lane_inv_frame:
  assumes "lane_inv l" "task_queue l' = task_queue l" "pending l' = pending l"
    "finishing (pump l') = finishing (pump l)" "joining l' = joining l" "lane_status l' = lane_status l"
    "active l' = active l" "next_op_id l' = next_op_id l" "applied l' = applied l"
  shows "lane_inv l'"
  using assms(1) unfolding lane_inv_def applied_ops_def assms(2-9) .

lemma begin_ui_call_inv:
  assumes "lane_inv l" "pump l = PumpRunning n"
  shows "lane_inv (begin_ui_call n op gen l)"
proof -
  have "begin_ui_call n op gen l = (wake_worker l)\<lparr>pump := PumpRunning (n + 1)\<rparr> \<or>
      begin_ui_call n op gen l = l\<lparr>pump := InUiCall n\<rparr>"
    by (simp add: begin_ui_call_def split: option.split)
  then show ?thesis
    by (elim disjE) (rule lane_inv_frame [OF assms(1)]; simp add: assms(2))+
qed

lemma end_ui_call_inv: "lane_inv l \<Longrightarrow> pump l = InUiCall n \<Longrightarrow> lane_inv (end_ui_call n l)"
  by (erule lane_inv_frame) (simp_all add: end_ui_call_def)

lemma pending_ui_call:
  "result_queue l = UiCall sq op gen # es \<Longrightarrow> pending (l\<lparr>result_queue := es\<rparr>) = pending l"
  by (simp add: pending_def)

lemma pending_terminal:
  "result_queue l = Terminal sq q k # es \<Longrightarrow> length (pending l) \<le> 1 \<Longrightarrow>
    pending l = [q] \<and> pending (l\<lparr>result_queue := es\<rparr>) = []"
  by (auto simp: pending_def)

lemma begin_terminal_inv:
  assumes inv: "lane_inv l" and run: "pump l = PumpRunning n" and rq: "result_queue l = Terminal sq q k # es"
  shows "lane_inv (begin_terminal n q k (l\<lparr>result_queue := es\<rparr>))"
proof -
  have one: "length (pending l) \<le> 1" using inv by (simp add: lane_inv_def)
  have p: "pending l = [q]" and p': "pending (l\<lparr>result_queue := es\<rparr>) = []"
    using pending_terminal [OF rq one] by blast+
  have tq: "length (task_queue l) \<le> 1" using inv by (simp add: lane_inv_def)
  have ids: "\<forall>i \<in> set (applied_ops l). 1 \<le> i \<and> i \<le> next_op_id l" "sorted_wrt (<) (applied_ops l)"
    and q: "1 \<le> op_id q" "op_id q \<le> next_op_id l" "\<forall>i \<in> set (applied_ops l). i < op_id q"
    using inv p by (auto simp: lane_inv_def)
  show ?thesis
  proof (cases "active l = Some q")
    case True
    then have "lane_status l \<in> {LANE_BUSY, LANE_DRAINING}" "\<not> joining l" "op_id q = next_op_id l"
      using inv by (auto simp: lane_inv_def)
    then show ?thesis
      using True tq ids q p' inv
      by (auto simp: begin_terminal_def lane_inv_def applied_ops_def sorted_wrt_append pending_def)
  next
    case False
    then show ?thesis
      using tq ids p' run
      by (auto simp: begin_terminal_def lane_inv_def applied_ops_def break_lane_def present_fault_def
          pending_def)
  qed
qed

lemma begin_envelope_inv:
  assumes "lane_inv l" "pump l = PumpRunning n" "result_queue l = e # es"
  shows "lane_inv (begin_envelope n e l)"
proof (cases e)
  case (UiCall sq op gen)
  with assms have "lane_inv (l\<lparr>result_queue := es\<rparr>)"
    by (intro lane_inv_frame [OF assms(1)]) (simp_all add: pending_ui_call)
  then have "lane_inv (begin_ui_call n op gen (l\<lparr>result_queue := es\<rparr>))"
    by (rule begin_ui_call_inv) (simp add: assms(2))
  with UiCall assms(3) show ?thesis by (simp add: begin_envelope_def)
next
  case (Terminal sq q k)
  with assms begin_terminal_inv [of l n sq q k es] show ?thesis
    by (simp add: begin_envelope_def)
qed

lemma finish_inv:
  assumes "lane_inv l" "\<not> joining l" "pump l = InFinish n q"
  shows "lane_inv (finish_returns n l)" "lane_inv (finish_raises n l)"
  using assms
  by (auto simp: finish_returns_def finish_raises_def break_lane_def present_fault_def Let_def
      lane_inv_def applied_ops_def pending_def)

lemma complete_close_inv: "lane_inv l \<Longrightarrow> lane_inv (fst (complete_close l))"
  by (auto simp: lane_inv_defs complete_close_def)

lemma idle_inv:
  assumes "lane_inv l" "pump l = InOnIdle n d"
  shows "lane_inv (idle_returns n d l)" "lane_inv (idle_raises n l)"
proof -
  let ?m = "l\<lparr>idle_barrier := False, pump := PumpRunning (n + 1)\<rparr>"
  have m: "lane_inv ?m"
    by (rule lane_inv_frame [OF assms(1)]) (simp_all add: assms(2) pending_def)
  then have c: "lane_inv (fst (complete_close ?m))" by (rule complete_close_inv)
  then have "lane_inv ((fst (complete_close ?m))\<lparr>pump := PumpOff\<rparr>)"
    by (rule lane_inv_frame) (simp_all add: complete_close_def)
  with m c show "lane_inv (idle_returns n d l)"
    by (cases "complete_close ?m") (auto simp: idle_returns_def Let_def)
  show "lane_inv (idle_raises n l)"
    using assms by (auto simp: idle_raises_def break_lane_def present_fault_def lane_inv_def
        applied_ops_def pending_def)
qed

lemma lane_step_inv: "lane_step m l l' \<Longrightarrow> lane_inv l \<Longrightarrow> lane_inv l'"
proof (induction rule: lane_step.induct)
  case (step_envelope l n e es)
  then show ?case by (intro begin_envelope_inv)
next
  case (step_pump l)
  show ?case
    by (rule lane_inv_frame [OF step_pump.prems]) (use step_pump in \<open>simp_all \<close>)
next
  case (step_pump_end l n)
  show ?case
    by (rule lane_inv_frame [OF step_pump_end.prems]) (use step_pump_end in \<open>simp_all add: end_pump_def\<close>)
next
  case (step_generation l g)
  show ?case
    by (rule lane_inv_frame [OF step_generation.prems]) (use step_generation in \<open>simp_all add: pending_def\<close>)
next
  case (step_ui l q l')
  then show ?case by (elim call_ui_sync_inv)
next
  case (step_submit l t)
  then show ?case by (intro submit_inv)
next
  case (step_stop l)
  then show ?case by (intro owner_inv)
next
  case (step_drain l c)
  then show ?case by (intro owner_inv)
next
  case (step_close l)
  then show ?case by (intro owner_inv)
next
  case (step_break l)
  then show ?case by (intro owner_inv)
next
  case (step_join_ok l)
  then show ?case by (intro join_inv)
next
  case (step_join_timeout l)
  then show ?case by (intro join_inv)
next
  case (step_take l i rest)
  then show ?case by (intro worker_take_inv)
next
  case (step_done l q k)
  then show ?case by (intro worker_done_inv)
next
  case (step_ui_end l n)
  then show ?case by (intro end_ui_call_inv)
next
  case (step_finish l n q)
  then show ?case by (intro finish_inv(1))
next
  case (step_finish_raise l n q)
  then show ?case by (intro finish_inv(2))
next
  case (step_idle l n d)
  then show ?case by (intro idle_inv(1))
next
  case (step_idle_raise l n d)
  then show ?case by (intro idle_inv(2))
qed

lemma lane_reachable_inv: "lane_reachable m l \<Longrightarrow> lane_inv l"
  by (induction rule: lane_reachable.induct) (auto intro: lane_inv_init lane_step_inv)

subsection \<open>Runs in which the lane is never broken\<close>

lemma lane_clean_frame:
  assumes "lane_clean l" "task_queue l' = task_queue l" "pending l' = pending l"
    "finishing (pump l') = finishing (pump l)" "joining l' = joining l" "lane_status l' = lane_status l"
    "active l' = active l" "next_op_id l' = next_op_id l" "applied l' = applied l"
    "stop_sent l' = stop_sent l" "full_raised l' = full_raised l" "drain_callbacks l' = drain_callbacks l"
    "worker l' = WExit \<longleftrightarrow> worker l = WExit" "\<forall>n. pump l' \<noteq> InOnIdle n True"
  shows "lane_clean l'"
  using assms(1,14) unfolding lane_clean_def applied_ops_def assms(2-13) by blast

lemma ever_broken_break [simp]: "ever_broken (break_lane l)"
  by (simp add: break_lane_def present_fault_def)

lemma submit_clean:
  assumes "lane_inv l" "lane_clean l"
  shows "ever_broken (fst (submit l t)) \<or> lane_clean (fst (submit l t))"
proof (cases "lane_status l \<in> {LANE_BROKEN, LANE_DRAINING, LANE_CLOSED, LANE_BUSY} \<or>
    active l \<noteq> None \<or> idle_barrier l")
  case True
  with assms show ?thesis by (auto simp: submit_def)
next
  case False
  then have idle: "lane_status l = LANE_IDLE" by (cases "lane_status l") auto
  have tq: "task_queue l = []" and st: "\<not> stop_sent l" and nw: "worker l \<noteq> WExit" and
    nj: "\<not> joining l" and ids: "{1..next_op_id l} = set (applied_ops l) \<union> op_id ` set (pending l)"
    using False assms(2) idle by (auto simp: lane_clean_def)
  have p: "pending l = []" using assms(1) idle by (simp add: lane_inv_def)
  have "{1..next_op_id l + 1} = insert (next_op_id l + 1) {1..next_op_id l}" by auto
  then have ids': "{1..Suc (next_op_id l)} = insert (Suc (next_op_id l)) (set (applied_ops l))"
    using ids p by simp
  have ni: "\<forall>n. pump l \<noteq> InOnIdle n True" using assms(2) idle by (auto simp: lane_clean_def)
  have fr: "\<not> full_raised l" using assms(2) by (simp add: lane_clean_def)
  show ?thesis
    using False idle tq st nw nj p ids' ni fr
    by (simp add: submit_def Let_def lane_clean_def pending_def applied_ops_def insert_commute)
qed

lemma complete_close_clean:
  assumes "lane_clean l" "lane_status l \<in> {LANE_DRAINING, LANE_CLOSED}"
  shows "lane_clean (fst (complete_close l)) \<and> \<not> snd (complete_close l)"
  using assms by (auto simp: complete_close_def lane_clean_def pending_def applied_ops_def)

lemma begin_drain_clean:
  assumes "lane_clean l" "lane_status l \<noteq> LANE_CLOSED"
  shows "lane_clean (begin_drain l)" "lane_status (begin_drain l) = LANE_DRAINING"
  using assms by (auto simp: begin_drain_def lane_clean_def pending_def applied_ops_def)

lemma owner_clean:
  assumes "lane_clean l"
  shows "lane_clean (stop_accepting l)" "lane_clean (drain_then l c)" "lane_clean (close_idle l)"
proof -
  show "lane_clean (stop_accepting l)"
    using assms by (auto simp: stop_accepting_def lane_clean_def pending_def applied_ops_def)
  let ?m = "l\<lparr>drain_callbacks := drain_callbacks l @ [c]\<rparr>"
  have m: "lane_clean (begin_drain ?m) \<and> lane_status (begin_drain ?m) = LANE_DRAINING"
    if "lane_status l \<noteq> LANE_CLOSED"
  proof -
    have "lane_clean ?m"
      using assms that by (auto simp: lane_clean_def pending_def applied_ops_def)
    with that show ?thesis by (auto intro: begin_drain_clean)
  qed
  have d: "lane_clean (l\<lparr>drained := drained l @ [c]\<rparr>)"
    using assms by (auto simp: lane_clean_def pending_def applied_ops_def)
  show "lane_clean (drain_then l c)"
    using m d complete_close_clean [of "begin_drain ?m"] by (auto simp: drain_then_def Let_def)
  show "lane_clean (close_idle l)"
    using assms begin_drain_clean [OF assms] complete_close_clean [of "begin_drain l"]
    by (auto simp: close_idle_def)
qed

lemma worker_take_clean:
  assumes "lane_inv l" "lane_clean l" "worker l = WIdle" "task_queue l = i # rest"
  shows "lane_clean (worker_take i l)"
proof -
  have len: "length (task_queue l) \<le> 1" using assms(1) by (simp add: lane_inv_def)
  then have "rest = []" using assms(4) by simp
  moreover have "pending (worker_take i l) = pending l"
    using pending_worker_take [OF assms(3,4) len] .
  ultimately show ?thesis
    using assms by (cases i) (auto simp: lane_clean_def applied_ops_def)
qed

lemma worker_done_clean:
  assumes "lane_inv l" "lane_clean l" "worker l = WWork q"
  shows "lane_clean (worker_done q k l)"
proof -
  have "length (pending l) \<le> 1" using assms(1) by (simp add: lane_inv_def)
  with pending_worker_done [OF assms(3)] have "pending (worker_done q k l) = pending l" by simp
  with assms show ?thesis by (auto simp: lane_clean_def worker_done_def applied_ops_def)
qed

lemma begin_ui_call_clean:
  assumes "lane_clean l" "pump l = PumpRunning n"
  shows "lane_clean (begin_ui_call n op gen l)"
proof -
  have "begin_ui_call n op gen l = (wake_worker l)\<lparr>pump := PumpRunning (n + 1)\<rparr> \<or>
      begin_ui_call n op gen l = l\<lparr>pump := InUiCall n\<rparr>"
    by (simp add: begin_ui_call_def split: option.split)
  then show ?thesis
    by (elim disjE) (rule lane_clean_frame [OF assms(1)]; simp add: assms(2))+
qed

lemma begin_terminal_clean:
  assumes inv: "lane_inv l" and cl: "lane_clean l" and run: "pump l = PumpRunning n"
    and rq: "result_queue l = Terminal sq q k # es"
  shows "active l = Some q" "lane_clean (begin_terminal n q k (l\<lparr>result_queue := es\<rparr>))"
proof -
  have one: "length (pending l) \<le> 1" using inv by (simp add: lane_inv_def)
  have p: "pending l = [q]" and p': "pending (l\<lparr>result_queue := es\<rparr>) = []"
    using pending_terminal [OF rq one] by blast+
  have "active l \<noteq> None" using cl p by (auto simp: lane_clean_def)
  then obtain a where a: "active l = Some a" by blast
  with inv run have "pending l = [a]" by (auto simp: lane_inv_def)
  with a p show act: "active l = Some q" by simp
  have "{1..next_op_id l} = set (applied_ops l) \<union> {op_id q}"
    using cl p by (simp add: lane_clean_def)
  then show "lane_clean (begin_terminal n q k (l\<lparr>result_queue := es\<rparr>))"
    using act cl p' by (auto simp: begin_terminal_def lane_clean_def applied_ops_def pending_def)
qed

lemma begin_envelope_clean:
  assumes "lane_inv l" "lane_clean l" "pump l = PumpRunning n" "result_queue l = e # es"
  shows "lane_clean (begin_envelope n e l)"
proof (cases e)
  case (UiCall sq op gen)
  with assms have "lane_clean (l\<lparr>result_queue := es\<rparr>)"
    by (intro lane_clean_frame [OF assms(2)]) (simp_all add: pending_ui_call)
  then have "lane_clean (begin_ui_call n op gen (l\<lparr>result_queue := es\<rparr>))"
    by (rule begin_ui_call_clean) (simp add: assms(3))
  with UiCall assms(4) show ?thesis by (simp add: begin_envelope_def)
next
  case (Terminal sq q k)
  with assms begin_terminal_clean(2) [of l n sq q k es] show ?thesis
    by (simp add: begin_envelope_def)
qed

lemma finish_returns_clean:
  assumes "lane_inv l" "lane_clean l" "pump l = InFinish n q"
  shows "lane_clean (finish_returns n l)"
proof -
  have "active l \<noteq> None" using assms(2,3) by (auto simp: lane_clean_def)
  then obtain a where a: "active l = Some a" by blast
  then have "\<not> stop_sent l" "\<not> joining l" "worker l \<noteq> WExit" "QStop \<notin> set (task_queue l)"
    using assms(2) by (auto simp: lane_clean_def)
  moreover have p: "pending l = []" using assms(1,3) by (simp add: lane_inv_def)
  moreover have "task_queue l = []"
  proof (cases "task_queue l")
    case (Cons i rest)
    with p \<open>QStop \<notin> set (task_queue l)\<close> show ?thesis by (cases i) (auto simp: pending_def)
  qed simp
  ultimately show ?thesis
    using assms(2) by (auto simp: finish_returns_def Let_def lane_clean_def applied_ops_def pending_def)
qed

lemma idle_returns_clean:
  assumes "lane_clean l" "pump l = InOnIdle n d"
  shows "lane_clean (idle_returns n d l)"
proof -
  let ?m = "l\<lparr>idle_barrier := False, pump := PumpRunning (n + 1)\<rparr>"
  have m: "lane_clean ?m"
    by (rule lane_clean_frame [OF assms(1)]) (simp_all add: assms(2) pending_def)
  have "d \<Longrightarrow> lane_status ?m \<in> {LANE_DRAINING, LANE_CLOSED}"
    using assms by (auto simp: lane_clean_def)
  with m complete_close_clean [OF m] show ?thesis
    by (cases "complete_close ?m") (auto simp: idle_returns_def Let_def)
qed

lemma join_ok_clean:
  assumes "lane_clean l" "joining l" "worker l = WExit"
  shows "lane_clean (join_ok l)"
  using assms by (auto simp: join_ok_def lane_clean_def pending_def applied_ops_def)

lemma lane_step_clean:
  "lane_step m l l' \<Longrightarrow> lane_inv l \<Longrightarrow> lane_clean l \<Longrightarrow> ever_broken l' \<or> lane_clean l'"
proof (induction rule: lane_step.induct)
  case (step_submit l t)
  then show ?case by (intro submit_clean)
next
  case (step_ui l q l')
  have "lane_clean l'"
    using step_ui.prems(2) step_ui.hyps(1) unfolding lane_clean_def applied_ops_def call_ui_sync_eqs [OF step_ui.hyps(2,1)]
    by auto
  then show ?case ..
next
  case (step_pump l)
  show ?case
    by (rule disjI2, rule lane_clean_frame [OF step_pump.prems(2)]) (use step_pump in \<open>simp_all \<close>)
next
  case (step_pump_end l n)
  show ?case
    by (rule disjI2, rule lane_clean_frame [OF step_pump_end.prems(2)]) (use step_pump_end in \<open>simp_all add: end_pump_def\<close>)
next
  case (step_ui_end l n)
  show ?case
    by (rule disjI2, rule lane_clean_frame [OF step_ui_end.prems(2)]) (use step_ui_end in \<open>simp_all add: end_ui_call_def\<close>)
next
  case (step_generation l g)
  then show ?case by (auto simp: lane_clean_def pending_def applied_ops_def)
next
  case (step_break l)
  then show ?case by (simp add: mark_broken_def)
next
  case (step_join_timeout l)
  then show ?case by (simp add: join_timeout_def)
next
  case (step_finish_raise l n q)
  then show ?case by (simp add: finish_raises_def)
next
  case (step_idle_raise l n d)
  then show ?case by (simp add: idle_raises_def)
next
  case (step_stop l)
  then show ?case by (intro disjI2 owner_clean)
next
  case (step_drain l c)
  then show ?case by (intro disjI2 owner_clean)
next
  case (step_close l)
  then show ?case by (intro disjI2 owner_clean)
next
  case (step_join_ok l)
  then show ?case by (intro disjI2 join_ok_clean)
next
  case (step_take l i rest)
  then show ?case by (intro disjI2 worker_take_clean)
next
  case (step_done l q k)
  then show ?case by (intro disjI2 worker_done_clean)
next
  case (step_envelope l n e es)
  then show ?case by (intro disjI2 begin_envelope_clean)
next
  case (step_finish l n q)
  then show ?case by (intro disjI2 finish_returns_clean)
next
  case (step_idle l n d)
  then show ?case by (intro disjI2 idle_returns_clean)
qed

lemma ever_broken_worker_take [simp]: "ever_broken (worker_take i l) = ever_broken l"
  by (cases i) auto

lemma ever_broken_begin [simp]:
  "ever_broken l \<Longrightarrow> ever_broken (begin_envelope n e l)"
  by (cases e) (auto simp: begin_envelope_def begin_ui_call_def begin_terminal_def Let_def
      split: option.splits)

lemma ever_broken_complete_close [simp]: "ever_broken (fst (complete_close l)) = ever_broken l"
  by (simp add: complete_close_def)

lemma ever_broken_idle_returns [simp]: "ever_broken (idle_returns n d l) = ever_broken l"
proof -
  let ?m = "l\<lparr>idle_barrier := False, pump := PumpRunning (n + 1)\<rparr>"
  have "ever_broken (fst (complete_close ?m)) = ever_broken l" by simp
  then show ?thesis by (cases "complete_close ?m") (simp add: idle_returns_def Let_def del: ever_broken_complete_close)
qed

lemma ever_broken_mono: "lane_step m l l' \<Longrightarrow> ever_broken l \<Longrightarrow> ever_broken l'"
proof (induction rule: lane_step.induct)
  case (step_ui l q l')
  then show ?case by (simp add: call_ui_sync_eqs)
next
  case (step_submit l t)
  then show ?case by (simp add: submit_def Let_def present_fault_def)
qed (simp_all add: stop_accepting_def drain_then_def close_idle_def mark_broken_def begin_drain_def
    join_ok_def join_timeout_def worker_done_def end_pump_def end_ui_call_def finish_returns_def
    finish_raises_def idle_raises_def Let_def)

lemma lane_reachable_clean:
  "lane_reachable m l \<Longrightarrow> ever_broken l \<or> lane_clean l"
proof (induction rule: lane_reachable.induct)
  case (lane_start gen)
  show ?case by (simp add: lane_clean_init)
next
  case (lane_next l l')
  then show ?case
    using lane_step_clean lane_reachable_inv ever_broken_mono by blast
qed

subsection \<open>A stop request that never reaches the worker\<close>

text \<open>
  \<open>_complete_close\<close> sets \<open>_stop_sent\<close> before it puts the stop item into the one-place
  queue. When the queue still holds a task, \<open>queue.Full\<close> escapes and the item is never put.
\<close>

definition stop_lost :: "lane \<Rightarrow> bool" where
  "stop_lost l \<longleftrightarrow> stop_sent l \<and> QStop \<notin> set (task_queue l) \<and> worker l \<noteq> WExit \<and>
     lane_status l \<noteq> LANE_CLOSED"

lemma stop_lost_complete_close:
  "stop_lost l \<Longrightarrow> stop_lost (fst (complete_close l)) \<and> drained (fst (complete_close l)) = drained l"
  by (auto simp: stop_lost_def complete_close_def)

lemma stop_lost_begin_drain:
  "stop_lost l \<Longrightarrow> stop_lost (begin_drain l) \<and> drained (begin_drain l) = drained l"
  by (auto simp: stop_lost_def begin_drain_def)

lemma stop_lost_wake [simp]: "stop_lost (wake_worker l) = stop_lost l" "drained (wake_worker l) = drained l"
  by (auto simp: stop_lost_def wake_worker_def split: worker_phase.splits)

lemma stop_lost_pump [simp]: "stop_lost (l\<lparr>pump := p\<rparr>) = stop_lost l"
  by (simp add: stop_lost_def)

lemma stop_lost_break [simp]: "stop_lost l \<Longrightarrow> stop_lost (break_lane l)" "drained (break_lane l) = drained l"
  by (simp_all add: stop_lost_def break_lane_def present_fault_def)

lemma stop_lost_envelope:
  "stop_lost l \<Longrightarrow> stop_lost (begin_envelope n e l) \<and> drained (begin_envelope n e l) = drained l"
proof -
  assume "stop_lost l"
  then have "stop_lost (l\<lparr>result_queue := tl (result_queue l)\<rparr>)" by (simp add: stop_lost_def)
  then show ?thesis
    by (cases e) (auto simp: begin_envelope_def begin_ui_call_def begin_terminal_def Let_def stop_lost_def
        break_lane_def present_fault_def wake_worker_def split: option.splits worker_phase.splits)
qed

lemma stop_lost_idle_returns:
  "stop_lost l \<Longrightarrow> stop_lost (idle_returns n d l) \<and> drained (idle_returns n d l) = drained l"
proof -
  let ?m = "l\<lparr>idle_barrier := False, pump := PumpRunning (n + 1)\<rparr>"
  assume "stop_lost l"
  then have m: "stop_lost ?m" by (simp add: stop_lost_def)
  show ?thesis
    using stop_lost_complete_close [OF m] m
    by (cases "complete_close ?m") (auto simp: idle_returns_def Let_def)
qed

lemma stop_lost_step: "lane_step m l l' \<Longrightarrow> stop_lost l \<Longrightarrow> stop_lost l' \<and> drained l' = drained l"
proof (induction rule: lane_step.induct)
  case (step_drain l c)
  let ?m = "l\<lparr>drain_callbacks := drain_callbacks l @ [c]\<rparr>"
  have "stop_lost ?m" using step_drain.prems by (simp add: stop_lost_def)
  then have b: "stop_lost (begin_drain ?m) \<and> drained (begin_drain ?m) = drained l"
    using stop_lost_begin_drain by fastforce
  then show ?case
    using step_drain.prems stop_lost_complete_close [of "begin_drain ?m"]
    by (auto simp: drain_then_def Let_def stop_lost_def)
next
  case (step_close l)
  then show ?case
    using stop_lost_begin_drain [of l] stop_lost_complete_close [of "begin_drain l"]
    by (auto simp: close_idle_def)
next
  case (step_take l i rest)
  then show ?case by (cases i) (auto simp: stop_lost_def)
next
  case (step_ui l q l')
  then show ?case by (auto simp: stop_lost_def call_ui_sync_def split: option.splits if_splits)
next
  case (step_envelope l n e es)
  then show ?case by (intro stop_lost_envelope)
next
  case (step_idle l n d)
  then show ?case by (intro stop_lost_idle_returns)
next
  case (step_submit l t)
  then show ?case by (auto simp: submit_def Let_def stop_lost_def present_fault_def)
next
  case (step_join_ok l)
  then show ?case by (simp add: stop_lost_def)
qed (auto simp: stop_lost_def stop_accepting_def mark_broken_def join_timeout_def worker_done_def
    end_pump_def end_ui_call_def finish_returns_def finish_raises_def idle_raises_def break_lane_def
    present_fault_def wake_worker_def Let_def split: worker_phase.splits)

lemma stop_lost_forever:
  "(lane_step m)\<^sup>*\<^sup>* l l' \<Longrightarrow> stop_lost l \<Longrightarrow> stop_lost l' \<and> drained l' = drained l"
  by (induction rule: rtranclp_induct) (auto dest: stop_lost_step)

subsection \<open>Properties\<close>

definition demo_task :: lane_task where
  "demo_task = \<lparr>task_name = ''save'', task_generation = 1, cancel_safe = False, task_policy = DRAIN_TO_TERMINAL\<rparr>"

definition demo_busy :: lane where
  "demo_busy = fst (submit (init_lane None) demo_task)"

lemma demo_busy_reachable: "lane_reachable 8 demo_busy"
  unfolding demo_busy_def
  by (rule lane_next [OF lane_start]) (rule step_submit, simp add: init_lane_def)

definition demo_closed :: lane where
  "demo_closed = join_ok (worker_take QStop (close_idle (init_lane None)))"

lemma demo_closed_reachable: "lane_reachable 8 demo_closed"
proof -
  have "lane_reachable 8 (close_idle (init_lane None))"
    by (rule lane_next [OF lane_start]) (rule step_close, simp add: init_lane_def)
  then have "lane_reachable 8 (worker_take QStop (close_idle (init_lane None)))"
    by (rule lane_next) (rule step_take [where rest = "[]"],
      simp_all add: init_lane_def close_idle_def begin_drain_def complete_close_def)
  then show ?thesis
    unfolding demo_closed_def
    by (rule lane_next) (rule step_join_ok,
      simp_all add: init_lane_def close_idle_def begin_drain_def complete_close_def)
qed

text \<open>
  C20. In every interleaving of the two threads at most one task is waiting, running or about to
  be delivered; results are applied in the order in which their tasks were admitted and at most
  once each; and a task that is still under way has not been applied.
\<close>

theorem lane_serial:
  assumes "lane_reachable m l"
  shows "length (pending l) \<le> 1 \<and> sorted_wrt (<) (applied_ops l) \<and>
    set (applied_ops l) \<inter> op_id ` set (pending l) = {} \<and>
    set (applied_ops l) \<union> op_id ` set (pending l) \<subseteq> {1..next_op_id l}"
  using lane_reachable_inv [OF assms] by (auto simp: lane_inv_def)

theorem lane_serial_witness:
  "pending demo_busy = [\<lparr>op_id = 1, task = demo_task\<rparr>] \<and> length (pending demo_busy) \<le> 1"
  using lane_serial [OF demo_busy_reachable]
  by (simp add: demo_busy_def submit_def Let_def init_lane_def pending_def)

text \<open>
  C21. As long as the lane was never broken, no admitted task is lost: every operation number
  handed out is applied or still under way, no \<open>queue.Full\<close> escapes from a close, and a
  terminal result that the pump takes always belongs to the active task.
\<close>

theorem lane_no_task_lost:
  assumes "lane_reachable m l" "\<not> ever_broken l"
  shows "{1..next_op_id l} = set (applied_ops l) \<union> op_id ` set (pending l) \<and>
    \<not> full_raised l \<and> lane_status l \<noteq> LANE_BROKEN \<and>
    (\<forall>n sq q k es. pump l = PumpRunning n \<longrightarrow> result_queue l = Terminal sq q k # es \<longrightarrow> active l = Some q)"
proof -
  have inv: "lane_inv l" and cl: "lane_clean l"
    using assms lane_reachable_inv lane_reachable_clean by blast+
  have "\<forall>n sq q k es. pump l = PumpRunning n \<longrightarrow> result_queue l = Terminal sq q k # es \<longrightarrow> active l = Some q"
    using begin_terminal_clean(1) [OF inv cl] by blast
  with cl show ?thesis by (simp add: lane_clean_def)
qed

theorem lane_no_task_lost_witness:
  "{1..next_op_id demo_busy} = {1} \<and> op_id ` set (pending demo_busy) = {1} \<and>
   lane_status demo_busy \<noteq> LANE_BROKEN"
proof -
  have e: "\<not> ever_broken demo_busy" by (simp add: demo_busy_def submit_def Let_def init_lane_def)
  show ?thesis
    using lane_no_task_lost [OF demo_busy_reachable e]
    by (simp add: demo_busy_def submit_def Let_def init_lane_def pending_def)
qed

text \<open>
  When a lane that was never broken is closed, its worker thread has ended, every admitted
  task has been applied and every registered drain callback has been called.
\<close>

theorem lane_closed_drained:
  assumes "lane_reachable m l" "\<not> ever_broken l" "lane_status l = LANE_CLOSED"
  shows "worker l = WExit \<and> pending l = [] \<and> set (applied_ops l) = {1..next_op_id l} \<and>
    drain_callbacks l = []"
proof -
  have cl: "lane_clean l" using assms lane_reachable_clean by blast
  then have w: "worker l = WExit" "drain_callbacks l = []"
    using assms(3) by (simp_all add: lane_clean_def)
  with cl have "active l = None" by (simp add: lane_clean_def)
  with cl have "pending l = []" by (simp add: lane_clean_def)
  with w cl show ?thesis by (simp add: lane_clean_def)
qed

theorem lane_closed_drained_witness:
  "worker demo_closed = WExit \<and> pending demo_closed = [] \<and> drain_callbacks demo_closed = []"
proof -
  have "\<not> ever_broken demo_closed" "lane_status demo_closed = LANE_CLOSED"
    by (simp_all add: demo_closed_def init_lane_def close_idle_def begin_drain_def complete_close_def join_ok_def)
  from lane_closed_drained [OF demo_closed_reachable this] show ?thesis by simp
qed

text \<open>
  A lane that was never broken admits a task exactly when it is idle, no task is active and
  no idle callback runs; the task then gets the next operation number, becomes the active task
  and stands alone in the queue of the worker.
\<close>

theorem lane_submit_admits_iff:
  assumes "lane_reachable m l" "\<not> ever_broken l"
  shows "(snd (submit l t) = Admitted n \<longleftrightarrow>
      lane_status l = LANE_IDLE \<and> \<not> idle_barrier l \<and> n = next_op_id l + 1) \<and>
    (snd (submit l t) = Admitted n \<longrightarrow> active (fst (submit l t)) = Some \<lparr>op_id = n, task = t\<rparr> \<and>
      task_queue (fst (submit l t)) = [QTask \<lparr>op_id = n, task = t\<rparr>])"
proof -
  have inv: "lane_inv l" and cl: "lane_clean l"
    using assms lane_reachable_inv lane_reachable_clean by blast+
  have "lane_status l = LANE_IDLE \<Longrightarrow> active l = None" using inv by (auto simp: lane_inv_def)
  moreover have "lane_status l = LANE_IDLE \<Longrightarrow> active l = None \<Longrightarrow> task_queue l = []"
    using cl by (auto simp: lane_clean_def)
  ultimately show ?thesis
    by (cases "lane_status l") (auto simp: submit_def Let_def)
qed

theorem lane_submit_admits_iff_witness:
  "snd (submit (init_lane None) demo_task) = Admitted 1 \<and> snd (submit demo_busy demo_task) = RefusedBusy"
proof -
  have e: "\<not> ever_broken (init_lane None)" by (simp add: init_lane_def)
  have "snd (submit (init_lane None) demo_task) = Admitted 1"
    using lane_submit_admits_iff [OF lane_start e, where n = 1 and t = demo_task] by (simp add: init_lane_def)
  then show ?thesis by (simp add: demo_busy_def submit_def Let_def init_lane_def)
qed

text \<open>
  C29. Closing a broken lane while a task still waits in the one-place queue loses the stop
  request for good: whatever the two threads do afterwards, the worker thread does not end, the
  lane never reaches \<open>LANE_CLOSED\<close> and no drain callback registered with it is called.
\<close>

theorem lane_close_after_break_never_closes:
  assumes "lane_status l = LANE_BROKEN" "active l = None" "\<not> stop_sent l" "task_queue l = [QTask q]"
    "worker l \<noteq> WExit" "(lane_step m)\<^sup>*\<^sup>* (close_idle l) l'"
  shows "lane_status l' \<noteq> LANE_CLOSED \<and> worker l' \<noteq> WExit \<and> drained l' = drained l"
proof -
  have "stop_lost (close_idle l)" "drained (close_idle l) = drained l"
    using assms(1-5) by (simp_all add: stop_lost_def close_idle_def begin_drain_def complete_close_def)
  with stop_lost_forever [OF assms(6)] show ?thesis by (simp add: stop_lost_def)
qed

theorem lane_close_after_break_never_closes_witness:
  "lane_reachable 8 (mark_broken demo_busy) \<and>
   lane_status (close_idle (mark_broken demo_busy)) \<noteq> LANE_CLOSED \<and>
   worker (close_idle (mark_broken demo_busy)) \<noteq> WExit"
proof -
  have "\<not> joining demo_busy" by (simp add: demo_busy_def submit_def Let_def init_lane_def)
  then have r: "lane_reachable 8 (mark_broken demo_busy)"
    by (rule lane_next [OF demo_busy_reachable step_break])
  have "lane_status (mark_broken demo_busy) = LANE_BROKEN" "active (mark_broken demo_busy) = None"
    "\<not> stop_sent (mark_broken demo_busy)"
    "task_queue (mark_broken demo_busy) = [QTask \<lparr>op_id = 1, task = demo_task\<rparr>]"
    "worker (mark_broken demo_busy) \<noteq> WExit"
    by (simp_all add: mark_broken_def break_lane_def present_fault_def demo_busy_def submit_def Let_def init_lane_def)
  from lane_close_after_break_never_closes [OF this rtranclp.rtrancl_refl [where r = "lane_step 8"]] r
  show ?thesis by blast
qed

text \<open>
  C30. Breaking the lane from inside a completion callback does not last: when the callback
  returns, the lane is idle again and admits the next task, although the lane reported itself
  broken.
\<close>

theorem lane_break_in_callback_forgotten:
  assumes "pump l = InFinish n q" "task_queue l = []"
  shows "lane_status (mark_broken l) = LANE_BROKEN \<and>
    lane_status (finish_returns n (mark_broken l)) = LANE_IDLE \<and>
    snd (submit (idle_returns n False (finish_returns n (mark_broken l))) t) = Admitted (next_op_id l + 1)"
  using assms
  by (simp add: mark_broken_def break_lane_def present_fault_def finish_returns_def idle_returns_def submit_def Let_def)

definition demo_op :: queued_task where
  "demo_op = \<lparr>op_id = 1, task = demo_task\<rparr>"

definition demo_finishing :: lane where
  "demo_finishing = begin_envelope 0 (Terminal 1 demo_op KSuccess)
     ((worker_done demo_op KSuccess (worker_take (QTask demo_op) demo_busy))\<lparr>pump := PumpRunning 0\<rparr>)"

lemmas demo_lane_defs = worker_done_def demo_busy_def submit_def Let_def init_lane_def demo_op_def

lemma demo_finishing_reachable: "lane_reachable 8 demo_finishing"
proof -
  have "lane_reachable 8 (worker_take (QTask demo_op) demo_busy)"
    by (rule lane_next [OF demo_busy_reachable], rule step_take [where rest = "[]"])
       (simp_all add: demo_lane_defs)
  then have d: "lane_reachable 8 (worker_done demo_op KSuccess (worker_take (QTask demo_op) demo_busy))"
    by (rule lane_next, intro step_done) simp
  have "lane_reachable 8 ((worker_done demo_op KSuccess (worker_take (QTask demo_op) demo_busy))\<lparr>pump := PumpRunning 0\<rparr>)"
    by (rule lane_next [OF d], rule step_pump) (simp_all add: demo_lane_defs)
  then show ?thesis
    unfolding demo_finishing_def
    by (rule lane_next, intro step_envelope [where es = "[]"]) (simp_all add: demo_lane_defs)
qed

theorem lane_break_in_callback_forgotten_witness:
  "lane_reachable 8 demo_finishing \<and>
   lane_status (finish_returns 0 (mark_broken demo_finishing)) = LANE_IDLE \<and>
   snd (submit (idle_returns 0 False (finish_returns 0 (mark_broken demo_finishing))) demo_task) = Admitted 2"
proof -
  have "pump demo_finishing = InFinish 0 demo_op" "task_queue demo_finishing = []" "next_op_id demo_finishing = 1"
    by (simp_all add: demo_finishing_def begin_envelope_def begin_terminal_def demo_lane_defs)
  with lane_break_in_callback_forgotten [of demo_finishing 0 demo_op demo_task] demo_finishing_reachable
  show ?thesis by simp
qed

end
