(* ===== verification/Transfer_Store.thy ===== *)
theory Transfer_Store
  imports Machines Py_Value
begin

text \<open>
  \<open>transfer_store.py\<close> with the values of \<open>transfer_common.py\<close>: the SQLite ledger of transfer intents.

  A table is the list of its rows in rowid order. \<open>INSERT OR IGNORE\<close> skips a row that violates a uniqueness
  constraint, \<open>INSERT\<close> raises. A public write runs in one transaction: it commits the new tables or, on any
  exception, leaves the old ones. The argument \<open>works\<close> is \<open>False\<close> when SQLite or the writer fence refuses the
  transaction. The columns that a \<open>CHECK\<close> fixes to one value are left out. NFKC, SHA-256, \<open>json.loads\<close> and
  \<open>os.path.abspath\<close> are the fields of \<open>store_env\<close>, and \<open>now\<close> is \<open>_utc_now()\<close>.
\<close>

subsection \<open>Shared values\<close>

record store_env =
  nfkc :: "string \<Rightarrow> string"
  digest_of :: "string \<Rightarrow> string"
  loads :: "string \<Rightarrow> pyval option"
  abspath :: "string \<Rightarrow> string"

datatype transfer_status = PREPARED | COMMAND_READY | RETRY_WAIT | ACKED | OPERATOR_REVIEW

definition SCHEMA_VERSION :: string where "SCHEMA_VERSION = ''container-audit-transfer-seal-v1''"
definition LOCAL_COMPLETION_SCHEMA_VERSION :: string where
  "LOCAL_COMPLETION_SCHEMA_VERSION = ''container-audit-transfer-completion-v1''"
definition REPLACEMENT_WAITING_SCHEMA_VERSION :: string where
  "REPLACEMENT_WAITING_SCHEMA_VERSION = ''container-audit-phs-replacement-waiting-v1''"
definition REPLACEMENT_WAITING_EVENT :: string where "REPLACEMENT_WAITING_EVENT = ''PHS_REPLACEMENT_WAITING_MARKED''"
definition POST_REVIEW_SCHEMA_VERSION :: string where
  "POST_REVIEW_SCHEMA_VERSION = ''container-audit-post-review-required-v1''"
definition POST_REVIEW_REQUIRED_EVENT :: string where "POST_REVIEW_REQUIRED_EVENT = ''POST_REVIEW_REQUIRED''"
definition PENDING_STATUSES :: "transfer_status list" where "PENDING_STATUSES = [PREPARED, COMMAND_READY, RETRY_WAIT]"

datatype store_error =
    OwnerViolation | UiThreadRead | SqlFailure | SqlIntegrity | BadIdentifier string | NotJson | BadJson | BadScans
  | IdentityCollision | CompletionDiffers | NoIntent string | CheckpointUnconfirmed | CommandIdDiffers | CommandDiffers
  | CheckpointNotPrepared | OutboxDiffers | NoLocalCompletion | CaseMissing | ProjectionDiffers | ReceiptCollision
  | SameLabels | NoLocations | AssertionFailed

definition canonical_json :: "pyval \<Rightarrow> store_error + string" where
  "canonical_json v = (case dumps_strict v of None \<Rightarrow> Inl NotJson | Some t \<Rightarrow> Inr t)"

text \<open>\<open>_sha256\<close> of a value without floats\<close>

definition sha256_of :: "store_env \<Rightarrow> pyval \<Rightarrow> string" where
  "sha256_of E v = digest_of E (dumps v)"

definition normalize_identifier :: "store_env \<Rightarrow> string \<Rightarrow> pyval \<Rightarrow> store_error + string" where
  "normalize_identifier E fld v =
     (case v of
        VStr s \<Rightarrow> (let n = strip (nfkc E s) in if n = [] \<or> CHR 0x00 \<in> set n then Inl (BadIdentifier fld) else Inr n)
      | _ \<Rightarrow> Inl (BadIdentifier fld))"

definition normalize_barcode :: "store_env \<Rightarrow> pyval \<Rightarrow> store_error + string" where
  "normalize_barcode E v = rbind (normalize_identifier E ''barcode'' v) (\<lambda>n. Inr (upper n))"

definition membership_hash :: "store_env \<Rightarrow> pyval list \<Rightarrow> store_error + string" where
  "membership_hash E ids = rbind (rmap (normalize_identifier E ''member_id'') ids) (\<lambda>ns.
     let ms = sort ns in
     if ms = [] \<or> \<not> distinct ms then Inl BadScans else Inr (sha256_of E (VList (map VStr ms))))"

definition deterministic_id :: "store_env \<Rightarrow> string \<Rightarrow> pyval \<Rightarrow> string" where
  "deterministic_id E pre v = pre @ ''-'' @ upper (take 24 (sha256_of E v))"

record seal_error =
  err_code :: string
  err_message :: string
  err_status :: int
  err_retryable :: bool

subsection \<open>The tables\<close>

record intent_row =
  ti_id :: string
  ti_status :: transfer_status
  ti_label :: string
  ti_source_json :: string
  ti_item :: string
  ti_operator :: string
  ti_scans_json :: string
  ti_scan_count :: int
  ti_hash :: string
  ti_key :: string
  ti_lease :: string
  ti_command_id :: "string option"
  ti_command_json :: "string option"
  ti_command_hash :: "string option"
  ti_receipt_json :: "string option"
  ti_seal_qr :: "string option"
  ti_error_code :: "string option"
  ti_error_message :: "string option"
  ti_attempts :: int
  ti_confirmed :: bool
  ti_log :: string
  ti_created :: string
  ti_updated :: string

record linked_row =
  ln_id :: string
  ln_intent :: string
  ln_key :: string
  ln_payload :: string
  ln_hash :: string
  ln_created :: string

record case_row =
  rc_id :: string
  rc_intent :: string
  rc_key :: string
  rc_completion :: string
  rc_error :: string
  rc_evidence :: string
  rc_hash :: string
  rc_log :: string
  rc_created :: string

text \<open>The two outboxes and the two receipt tables have the same columns.\<close>

record outbox_row =
  ob_owner :: string
  ob_key :: string
  ob_payload :: string
  ob_hash :: string
  ob_log :: string
  ob_created :: string

record projection_row =
  pr_id :: string
  pr_owner :: string
  pr_key :: string
  pr_hash :: string
  pr_log :: string
  pr_at :: string

record waiting_row =
  wt_intent :: string
  wt_key :: string
  wt_session :: string
  wt_old :: string
  wt_old_hash :: string
  wt_new :: string
  wt_new_hash :: string
  wt_process :: string
  wt_locations :: string
  wt_operator :: string
  wt_label :: string
  wt_evidence :: string
  wt_hash :: string
  wt_created :: string

record transfer_db =
  intents :: "intent_row list"
  ledger :: "linked_row list"
  review_cases :: "case_row list"
  review_outbox :: "outbox_row list"
  review_receipts :: "projection_row list"
  waits :: "waiting_row list"
  wait_outbox :: "outbox_row list"
  wait_receipts :: "projection_row list"
  block_receipts :: "(string \<times> string \<times> string \<times> string) list"

definition no_rows :: transfer_db where
  "no_rows = \<lparr>intents = [], ledger = [], review_cases = [], review_outbox = [], review_receipts = [], waits = [],
     wait_outbox = [], wait_receipts = [], block_receipts = []\<rparr>"

subsection \<open>Transactions\<close>

record caller =
  is_owner :: bool
  is_ui_thread :: bool

definition write_db ::
  "caller \<Rightarrow> bool \<Rightarrow> store_error + 'p \<Rightarrow> ('p \<Rightarrow> transfer_db \<Rightarrow> store_error + 'r \<times> transfer_db) \<Rightarrow> transfer_db \<Rightarrow>
     (store_error + 'r) \<times> transfer_db" where
  "write_db c works args body s =
     (if \<not> is_owner c then (Inl OwnerViolation, s)
      else case args of
          Inl e \<Rightarrow> (Inl e, s)
        | Inr p \<Rightarrow>
            if is_ui_thread c then (Inl UiThreadRead, s)
            else if \<not> works then (Inl SqlFailure, s)
            else (case body p s of Inl e \<Rightarrow> (Inl e, s) | Inr (x, s') \<Rightarrow> (Inr x, s')))"

definition read_db :: "caller \<Rightarrow> bool \<Rightarrow> (transfer_db \<Rightarrow> store_error + 'r) \<Rightarrow> transfer_db \<Rightarrow> store_error + 'r" where
  "read_db c works f s = (if is_ui_thread c then Inl UiThreadRead else if \<not> works then Inl SqlFailure else f s)"

definition update_intent :: "string \<Rightarrow> (intent_row \<Rightarrow> intent_row) \<Rightarrow> transfer_db \<Rightarrow> transfer_db" where
  "update_intent i f s = s\<lparr>intents := map (\<lambda>r. if ti_id r = i then f r else r) (intents s)\<rparr>"

definition find_intent :: "string \<Rightarrow> transfer_db \<Rightarrow> intent_row option" where
  "find_intent i s = find (\<lambda>r. ti_id r = i) (intents s)"

definition find_linked :: "string \<Rightarrow> transfer_db \<Rightarrow> linked_row option" where
  "find_linked i s = find (\<lambda>l. ln_intent l = i) (ledger s)"

type_synonym loaded_row = "intent_row \<times> string option"

definition load_in_connection :: "string \<Rightarrow> transfer_db \<Rightarrow> loaded_row option" where
  "load_in_connection i s = map_option (\<lambda>r. (r, map_option ln_id (find_linked i s))) (find_intent i s)"

subsection \<open>The completion ledger\<close>

definition linked_event_payload :: "store_env \<Rightarrow> intent_row \<Rightarrow> store_error + pyval" where
  "linked_event_payload E r =
     (case (loads E (ti_source_json r), loads E (ti_scans_json r)) of
        (Some src, Some scans) \<Rightarrow>
          Inr (VDict [(''schema_version'', VStr LOCAL_COMPLETION_SCHEMA_VERSION), (''event_type'', VStr ''LINKED''),
            (''intent_id'', VStr (ti_id r)), (''idempotency_key'', VStr (ti_key r)),
            (''intent'', VDict ([(''schema_version'', VStr SCHEMA_VERSION), (''master_label'', VStr (ti_label r)),
               (''source_identity'', src), (''item_id'', VStr (ti_item r)), (''operator'', VStr (ti_operator r)),
               (''scanned_barcodes'', scans), (''scan_count'', VInt (ti_scan_count r)), (''intent_hash'', VStr (ti_hash r))]
               @ (if strip (ti_lease r) = [] then [] else [(''operation_lease_id'', VStr (strip (ti_lease r)))])))])
      | _ \<Rightarrow> Inl BadJson)"

definition completion_id_of :: "store_env \<Rightarrow> intent_row \<Rightarrow> string" where
  "completion_id_of E r = deterministic_id E ''TRANSFER-LINKED''
     (VDict [(''intent_id'', VStr (ti_id r)), (''idempotency_key'', VStr (ti_key r)), (''intent_hash'', VStr (ti_hash r))])"

definition linked_row_of :: "store_env \<Rightarrow> intent_row \<Rightarrow> store_error + linked_row" where
  "linked_row_of E r =
     rbind (linked_event_payload E r) (\<lambda>p. rbind (canonical_json p) (\<lambda>t.
       Inr \<lparr>ln_id = completion_id_of E r, ln_intent = ti_id r, ln_key = ti_key r, ln_payload = t, ln_hash = digest_of E t,
            ln_created = ti_created r\<rparr>))"

definition linked_clash :: "linked_row \<Rightarrow> linked_row \<Rightarrow> bool" where
  "linked_clash l m \<longleftrightarrow> ln_id l = ln_id m \<or> ln_intent l = ln_intent m \<or> ln_key l = ln_key m"

text \<open>The comparison leaves out \<open>created_at\<close>.\<close>

definition same_linked :: "linked_row \<Rightarrow> linked_row \<Rightarrow> bool" where
  "same_linked l m \<longleftrightarrow> ln_id l = ln_id m \<and> ln_key l = ln_key m \<and> ln_payload l = ln_payload m \<and> ln_hash l = ln_hash m"

definition ensure_linked_event :: "store_env \<Rightarrow> intent_row \<Rightarrow> transfer_db \<Rightarrow> store_error + transfer_db" where
  "ensure_linked_event E r s =
     rbind (linked_row_of E r) (\<lambda>l.
       let s' = (if list_ex (linked_clash l) (ledger s) then s else s\<lparr>ledger := ledger s @ [l]\<rparr>)
       in case find_linked (ti_id r) s' of
            None \<Rightarrow> Inl CompletionDiffers
          | Some m \<Rightarrow> if same_linked l m then Inr s' else Inl CompletionDiffers)"

text \<open>Opening the database: every intent gets its ledger row.\<close>

fun ensure_all :: "store_env \<Rightarrow> intent_row list \<Rightarrow> transfer_db \<Rightarrow> store_error + transfer_db" where
  "ensure_all E [] s = Inr s"
| "ensure_all E (r # rs) s = rbind (ensure_linked_event E r s) (ensure_all E rs)"

definition initialize_store :: "store_env \<Rightarrow> bool \<Rightarrow> transfer_db \<Rightarrow> (store_error + unit) \<times> transfer_db" where
  "initialize_store E works s =
     (if \<not> works then (Inl SqlFailure, s)
      else if list_ex (\<lambda>r. ti_command_id r \<noteq> None \<and> ti_command_id r \<noteq> Some (ti_key r)) (intents s) then (Inl SqlIntegrity, s)
      else case ensure_all E (sort_key ti_created (intents s)) s of
          Inl e \<Rightarrow> (Inl e, s)
        | Inr s' \<Rightarrow> (Inr (), s'))"

subsection \<open>Intents\<close>

record transfer_request =
  rq_label :: string
  rq_source :: "(string, pyval) dict"
  rq_item :: string
  rq_operator :: string
  rq_scans :: "string list"
  rq_log :: string
  rq_lease :: string
  rq_checkpoint :: bool

record intent_preview =
  pv_label :: string
  pv_source :: "(string, pyval) dict"
  pv_item :: string
  pv_scans :: "string list"
  pv_lease :: string
  pv_hash :: string

definition intent_material :: "string \<Rightarrow> (string, pyval) dict \<Rightarrow> string \<Rightarrow> string list \<Rightarrow> string option \<Rightarrow> pyval" where
  "intent_material label src item scans lease =
     VDict ([(''master_label'', VStr label), (''source_identity'', VDict src), (''item_id'', VStr item),
       (''scanned_barcodes'', VList (map VStr scans))]
       @ (case lease of None \<Rightarrow> [] | Some l \<Rightarrow> [(''operation_lease_id'', VStr l)]))"

definition preview_intent :: "store_env \<Rightarrow> caller \<Rightarrow> transfer_request \<Rightarrow> store_error + intent_preview" where
  "preview_intent E c q =
     (if is_ui_thread c then Inl UiThreadRead
      else rbind (rmap (\<lambda>b. normalize_identifier E ''scanned_barcode'' (VStr b)) (rq_scans q)) (\<lambda>scans.
        rbind (rmap (\<lambda>b. normalize_barcode E (VStr b)) scans) (\<lambda>normalized.
        if scans = [] \<or> \<not> distinct normalized then Inl BadScans
        else rbind (normalize_identifier E ''master_label'' (VStr (rq_label q))) (\<lambda>label.
          let src = map (\<lambda>(k, v). (k, VStr (strip (str_or_empty v)))) (rq_source q); lease = strip (rq_lease q) in
          rbind (normalize_identifier E ''item_id'' (VStr (rq_item q))) (\<lambda>item.
          rbind (if lease = [] then Inr None else rbind (normalize_identifier E ''operation_lease_id'' (VStr lease)) (Inr \<circ> Some)) (\<lambda>l.
            Inr \<lparr>pv_label = label, pv_source = src, pv_item = item, pv_scans = scans, pv_lease = lease,
                 pv_hash = sha256_of E (intent_material label src item scans l)\<rparr>))))))"

definition intent_id_of :: "string \<Rightarrow> string" where
  "intent_id_of h = ''transfer-intent-'' @ take 32 h"

definition seal_key_of :: "string \<Rightarrow> string" where
  "seal_key_of h = ''container-seal:'' @ h"

definition relay_path :: "store_env \<Rightarrow> string \<Rightarrow> string" where
  "relay_path E p = (if strip p = [] then [] else abspath E (strip p))"

definition new_intent :: "store_env \<Rightarrow> string \<Rightarrow> transfer_request \<Rightarrow> intent_preview \<Rightarrow> intent_row" where
  "new_intent E now q p =
     \<lparr>ti_id = intent_id_of (pv_hash p), ti_status = PREPARED, ti_label = pv_label p, ti_source_json = dumps (VDict (pv_source p)),
      ti_item = pv_item p, ti_operator = strip (rq_operator q), ti_scans_json = dumps (VList (map VStr (pv_scans p))),
      ti_scan_count = int (length (pv_scans p)), ti_hash = pv_hash p, ti_key = seal_key_of (pv_hash p), ti_lease = pv_lease p,
      ti_command_id = None, ti_command_json = None, ti_command_hash = None, ti_receipt_json = None, ti_seal_qr = None,
      ti_error_code = None, ti_error_message = None, ti_attempts = 0, ti_confirmed = (\<not> rq_checkpoint q),
      ti_log = relay_path E (rq_log q), ti_created = now, ti_updated = now\<rparr>"

definition intent_clash :: "intent_row \<Rightarrow> intent_row \<Rightarrow> bool" where
  "intent_clash r t \<longleftrightarrow> ti_id r = ti_id t \<or> ti_hash r = ti_hash t \<or> ti_key r = ti_key t"

definition set_log :: "string \<Rightarrow> intent_row \<Rightarrow> intent_row" where
  "set_log p r = (if ti_log r = [] then r\<lparr>ti_log := p\<rparr> else r)"

definition prepare_body ::
  "store_env \<Rightarrow> string \<Rightarrow> transfer_request \<Rightarrow> intent_preview \<Rightarrow> transfer_db \<Rightarrow> store_error + loaded_row \<times> transfer_db" where
  "prepare_body E now q p s =
     (let n = new_intent E now q p;
          s1 = (if list_ex (intent_clash n) (intents s) then s else s\<lparr>intents := intents s @ [n]\<rparr>)
      in case find_intent (ti_id n) s1 of
          None \<Rightarrow> Inl IdentityCollision
        | Some r \<Rightarrow>
            if ti_hash r \<noteq> ti_hash n \<or> ti_key r \<noteq> ti_key n \<or> ti_lease r \<noteq> ti_lease n then Inl IdentityCollision
            else let s2 = (if ti_log r = [] \<and> ti_log n \<noteq> [] then update_intent (ti_id n) (set_log (ti_log n)) s1 else s1)
              in (case find_intent (ti_id n) s2 of
                  None \<Rightarrow> Inl AssertionFailed
                | Some r2 \<Rightarrow> rbind (ensure_linked_event E r2 s2) (\<lambda>s3.
                    case load_in_connection (ti_id n) s3 of
                      None \<Rightarrow> Inl AssertionFailed
                    | Some row \<Rightarrow> Inr (row, s3))))"

definition prepare ::
  "store_env \<Rightarrow> caller \<Rightarrow> bool \<Rightarrow> string \<Rightarrow> transfer_request \<Rightarrow> transfer_db \<Rightarrow> (store_error + loaded_row) \<times> transfer_db" where
  "prepare E c works now q = write_db c works (preview_intent E c q) (prepare_body E now q)"

definition load_intent :: "caller \<Rightarrow> bool \<Rightarrow> string \<Rightarrow> transfer_db \<Rightarrow> store_error + loaded_row" where
  "load_intent c works i =
     read_db c works (\<lambda>s. case load_in_connection i s of None \<Rightarrow> Inl (NoIntent i) | Some row \<Rightarrow> Inr row)"

text \<open>\<open>row["intent_id"]\<close> of the only row that matches, newest first and at most two fetched\<close>

definition only_row :: "(intent_row \<Rightarrow> bool) \<Rightarrow> transfer_db \<Rightarrow> intent_row option" where
  "only_row P s = (case filter P (intents s) of [r] \<Rightarrow> Some r | _ \<Rightarrow> None)"

definition precommand_operator_review ::
  "store_env \<Rightarrow> caller \<Rightarrow> bool \<Rightarrow> string \<Rightarrow> string list \<Rightarrow> string \<Rightarrow> transfer_db \<Rightarrow> store_error + intent_row option" where
  "precommand_operator_review E c works label scans code s =
     (if is_ui_thread c then Inl UiThreadRead
      else rbind (rmap (\<lambda>b. normalize_identifier E ''scanned_barcode'' (VStr b)) scans) (\<lambda>bs.
        if bs = [] then Inr None
        else rbind (normalize_identifier E ''master_label'' (VStr label)) (\<lambda>l.
          rbind (normalize_identifier E ''error_code'' (VStr code)) (\<lambda>e.
            read_db c works (\<lambda>s. Inr (only_row (\<lambda>r. ti_status r = OPERATOR_REVIEW \<and> ti_label r = l \<and>
              ti_scans_json r = dumps (VList (map VStr bs)) \<and> ti_error_code r = Some e \<and> ti_command_id r = None \<and>
              ti_command_json r = None \<and> ti_receipt_json r = None) s)) s))))"

definition bound_operator_review_for_tray ::
  "store_env \<Rightarrow> caller \<Rightarrow> bool \<Rightarrow> string \<Rightarrow> string list \<Rightarrow> transfer_db \<Rightarrow> store_error + intent_row option" where
  "bound_operator_review_for_tray E c works label scans s =
     (if is_ui_thread c then Inl UiThreadRead
      else rbind (rmap (\<lambda>b. normalize_identifier E ''scanned_barcode'' (VStr b)) scans) (\<lambda>bs.
        rbind (normalize_identifier E ''master_label'' (VStr label)) (\<lambda>l.
          read_db c works (\<lambda>s. Inr (only_row (\<lambda>r. ti_status r \<in> {OPERATOR_REVIEW, ACKED} \<and> ti_label r = l \<and>
            ti_scans_json r = dumps (VList (map VStr bs)) \<and> ti_command_json r \<noteq> None \<and> ti_confirmed r) s)) s)))"

subsection \<open>The command of an intent\<close>

definition bound_row :: "store_env \<Rightarrow> string \<Rightarrow> string \<Rightarrow> string \<Rightarrow> intent_row \<Rightarrow> intent_row" where
  "bound_row E now cid t r = r\<lparr>ti_status := COMMAND_READY, ti_command_id := Some cid, ti_command_json := Some t,
     ti_command_hash := Some (digest_of E t), ti_error_code := None, ti_error_message := None, ti_updated := now\<rparr>"

definition bind_body ::
  "store_env \<Rightarrow> string \<Rightarrow> string \<Rightarrow> string \<times> string \<Rightarrow> transfer_db \<Rightarrow> store_error + loaded_row \<times> transfer_db" where
  "bind_body E now i = (\<lambda>(cid, t) s.
     (case find_intent i s of
        None \<Rightarrow> Inl (NoIntent i)
      | Some r \<Rightarrow>
          if \<not> ti_confirmed r then Inl CheckpointUnconfirmed
          else if ti_key r \<noteq> cid then Inl CommandIdDiffers
          else rbind
            (if ti_command_json r \<noteq> None then
               (if ti_command_id r \<noteq> Some cid \<or> ti_command_json r \<noteq> Some t \<or> ti_command_hash r \<noteq> Some (digest_of E t)
                then Inl CommandDiffers else Inr s)
             else if list_ex (\<lambda>x. ti_id x \<noteq> i \<and> ti_command_id x = Some cid) (intents s) then Inl SqlIntegrity
             else Inr (update_intent i (bound_row E now cid t) s))
            (\<lambda>s'. case load_in_connection i s' of None \<Rightarrow> Inl AssertionFailed | Some row \<Rightarrow> Inr (row, s'))))"

definition bind_command ::
  "store_env \<Rightarrow> caller \<Rightarrow> bool \<Rightarrow> string \<Rightarrow> string \<Rightarrow> (string, pyval) dict \<Rightarrow> transfer_db \<Rightarrow> (store_error + loaded_row) \<times> transfer_db" where
  "bind_command E c works now i context =
     write_db c works
       (rbind (normalize_identifier E ''idempotency_key'' (vget context ''idempotency_key'')) (\<lambda>cid.
          rbind (canonical_json (VDict context)) (\<lambda>t. Inr (cid, t))))
       (bind_body E now i)"

definition confirmed_row :: "string \<Rightarrow> intent_row \<Rightarrow> intent_row" where
  "confirmed_row now r = (if ti_confirmed r then r else r\<lparr>ti_confirmed := True, ti_updated := now\<rparr>)"

definition confirm_body :: "string \<Rightarrow> string \<Rightarrow> transfer_db \<Rightarrow> store_error + loaded_row \<times> transfer_db" where
  "confirm_body now i s =
     (case load_in_connection i s of
        None \<Rightarrow> Inl (NoIntent i)
      | Some (r, l) \<Rightarrow>
          if ti_confirmed r then Inr ((r, l), s)
          else if ti_status r \<noteq> PREPARED then Inl CheckpointNotPrepared
          else let s' = update_intent i (confirmed_row now) s
            in (case load_in_connection i s' of None \<Rightarrow> Inl AssertionFailed | Some row \<Rightarrow> Inr (row, s')))"

definition confirm_completion_checkpoint ::
  "store_env \<Rightarrow> caller \<Rightarrow> bool \<Rightarrow> string \<Rightarrow> string \<Rightarrow> transfer_db \<Rightarrow> (store_error + loaded_row) \<times> transfer_db" where
  "confirm_completion_checkpoint E c works now i =
     write_db c works (normalize_identifier E ''intent_id'' (VStr i)) (confirm_body now)"

subsection \<open>Failed attempts and their review\<close>

definition case_key :: "store_env \<Rightarrow> intent_row \<Rightarrow> string" where
  "case_key E r = ''post-review:'' @ digest_of E (ti_key r)"

definition case_id :: "store_env \<Rightarrow> intent_row \<Rightarrow> string \<Rightarrow> string" where
  "case_id E r local = deterministic_id E ''POST-REVIEW''
     (VDict [(''intent_id'', VStr (ti_id r)), (''local_completion_id'', VStr local), (''idempotency_key'', VStr (case_key E r))])"

definition review_evidence :: "store_env \<Rightarrow> string \<Rightarrow> intent_row \<Rightarrow> string \<Rightarrow> seal_error \<Rightarrow> pyval" where
  "review_evidence E now r local e =
     VDict [(''schema_version'', VStr POST_REVIEW_SCHEMA_VERSION), (''event_type'', VStr POST_REVIEW_REQUIRED_EVENT),
       (''review_case_id'', VStr (case_id E r local)), (''idempotency_key'', VStr (case_key E r)),
       (''transfer_intent_id'', VStr (ti_id r)), (''transfer_idempotency_key'', VStr (ti_key r)),
       (''local_completion_id'', VStr local), (''transfer_status'', VStr ''OPERATOR_REVIEW''),
       (''error_code'', VStr (strip (err_code e))), (''error_message'', VStr (err_message e)), (''status_code'', VInt (err_status e)),
       (''operator'', VStr (ti_operator r)), (''master_label'', VStr (ti_label r)), (''created_at'', VStr now)]"

definition case_clash :: "case_row \<Rightarrow> case_row \<Rightarrow> bool" where
  "case_clash a b \<longleftrightarrow> rc_id a = rc_id b \<or> rc_intent a = rc_intent b \<or> rc_key a = rc_key b \<or> rc_completion a = rc_completion b"

definition outbox_clash :: "outbox_row \<Rightarrow> outbox_row \<Rightarrow> bool" where
  "outbox_clash a b \<longleftrightarrow> ob_owner a = ob_owner b \<or> ob_key a = ob_key b"

definition new_case :: "store_env \<Rightarrow> string \<Rightarrow> intent_row \<Rightarrow> string \<Rightarrow> seal_error \<Rightarrow> case_row" where
  "new_case E now r local e =
     (let t = dumps (review_evidence E now r local e) in
      \<lparr>rc_id = case_id E r local, rc_intent = ti_id r, rc_key = case_key E r, rc_completion = local, rc_error = strip (err_code e),
       rc_evidence = t, rc_hash = digest_of E t, rc_log = ti_log r, rc_created = now\<rparr>)"

definition case_outbox :: "case_row \<Rightarrow> outbox_row" where
  "case_outbox x = \<lparr>ob_owner = rc_id x, ob_key = rc_key x, ob_payload = rc_evidence x, ob_hash = rc_hash x, ob_log = rc_log x,
     ob_created = rc_created x\<rparr>"

definition outbox_of_case :: "case_row \<Rightarrow> outbox_row \<Rightarrow> bool" where
  "outbox_of_case x o' \<longleftrightarrow> ob_key o' = rc_key x \<and> ob_payload o' = rc_evidence x \<and> ob_hash o' = rc_hash x"

definition ensure_post_review_case :: "store_env \<Rightarrow> string \<Rightarrow> loaded_row \<Rightarrow> seal_error \<Rightarrow> transfer_db \<Rightarrow> store_error + transfer_db" where
  "ensure_post_review_case E now row e s =
     (case find (\<lambda>x. rc_intent x = ti_id (fst row)) (review_cases s) of
        Some x \<Rightarrow>
          (case find (\<lambda>o'. ob_owner o' = rc_id x) (review_outbox s) of
             None \<Rightarrow> Inl OutboxDiffers
           | Some o' \<Rightarrow> if outbox_of_case x o' then Inr s else Inl OutboxDiffers)
      | None \<Rightarrow>
          let local = (case snd row of None \<Rightarrow> [] | Some l \<Rightarrow> strip l) in
          if local = [] then Inl NoLocalCompletion
          else let x = new_case E now (fst row) local e; o' = case_outbox x in
            if list_ex (case_clash x) (review_cases s) \<or> list_ex (outbox_clash o') (review_outbox s)
               \<or> \<not> list_ex (\<lambda>l. ln_id l = local) (ledger s) then Inl SqlIntegrity
            else Inr (s\<lparr>review_cases := review_cases s @ [x], review_outbox := review_outbox s @ [o']\<rparr>))"

definition operator_review_codes :: "string list" where
  "operator_review_codes =
     [''AMBIGUOUS_BUNDLE'', ''SOURCE_IDENTITY_MISMATCH'', ''BUNDLE_IDENTITY_MISMATCH'', ''MEMBERSHIP_CONFLICT'',
      ''BARCODE_NOT_IN_SOURCE_BUNDLE'', ''BARCODE_MAPPING_AMBIGUOUS'', ''PARTIAL_PHS_TRANSFER_FORBIDDEN'', ''STALE_VERSION'',
      ''RECEIPT_MEMBERSHIP_MISMATCH'', ''SOURCE_IDENTITY_REQUIRED'', ''AUTHORITY_INVALID'', ''AUTHORITY_PROFILE_MISMATCH'',
      ''RESOLVER_CONTRACT_INVALID'', ''TRANSFER_COMMAND_INTEGRITY_MISMATCH'', ''LOGISTICS_REDIRECT_BLOCKED'']"

definition needs_review :: "seal_error \<Rightarrow> bool" where
  "needs_review e \<longleftrightarrow> upper (err_code e) \<in> set operator_review_codes \<or> err_status e \<in> {409, 412} \<or>
     400 \<le> err_status e \<and> err_status e < 500 \<and> err_status e \<noteq> 404 \<and> \<not> err_retryable e \<or>
     prefix ''PHS2_'' (upper (err_code e)) \<and> \<not> err_retryable e \<or>
     prefix ''OPERATION_LEASE_'' (upper (err_code e)) \<and> \<not> err_retryable e"

definition error_status :: "seal_error \<Rightarrow> intent_row option \<Rightarrow> transfer_status" where
  "error_status e previous =
     (if needs_review e \<or> (case previous of None \<Rightarrow> False | Some r \<Rightarrow> ti_status r = OPERATOR_REVIEW)
      then OPERATOR_REVIEW else RETRY_WAIT)"

definition failed_row :: "string \<Rightarrow> transfer_status \<Rightarrow> seal_error \<Rightarrow> intent_row \<Rightarrow> intent_row" where
  "failed_row now st e r = r\<lparr>ti_status := st, ti_error_code := Some (err_code e), ti_error_message := Some (err_message e),
     ti_attempts := ti_attempts r + 1, ti_updated := now\<rparr>"

definition error_body :: "store_env \<Rightarrow> string \<Rightarrow> string \<Rightarrow> seal_error \<Rightarrow> transfer_db \<Rightarrow> store_error + loaded_row \<times> transfer_db" where
  "error_body E now i e s =
     (let st = error_status e (find_intent i s);
          s1 = update_intent i (failed_row now st e) s
      in case load_in_connection i s1 of
          None \<Rightarrow> Inl (NoIntent i)
        | Some row \<Rightarrow>
            if st = OPERATOR_REVIEW then rbind (ensure_post_review_case E now row e s1) (\<lambda>s2. Inr (row, s2))
            else Inr (row, s1))"

definition record_error ::
  "store_env \<Rightarrow> caller \<Rightarrow> bool \<Rightarrow> string \<Rightarrow> string \<Rightarrow> seal_error \<Rightarrow> transfer_db \<Rightarrow> (store_error + loaded_row) \<times> transfer_db" where
  "record_error E c works now i e = write_db c works (Inr ()) (\<lambda>_. error_body E now i e)"

definition acked_row :: "string \<Rightarrow> string \<Rightarrow> string \<Rightarrow> intent_row \<Rightarrow> intent_row" where
  "acked_row now t qr r = r\<lparr>ti_status := ACKED, ti_receipt_json := Some t, ti_seal_qr := Some qr, ti_error_code := None,
     ti_error_message := None, ti_attempts := ti_attempts r + 1, ti_updated := now\<rparr>"

definition receipt_body ::
  "string \<Rightarrow> string \<Rightarrow> string \<Rightarrow> string \<Rightarrow> transfer_db \<Rightarrow> store_error + loaded_row option \<times> transfer_db" where
  "receipt_body now i t qr s =
     (let s' = update_intent i (acked_row now t qr) s
      in Inr (load_in_connection i s', s'))"

text \<open>The row is checked after the commit.\<close>

definition record_receipt ::
  "store_env \<Rightarrow> caller \<Rightarrow> bool \<Rightarrow> string \<Rightarrow> string \<Rightarrow> (string, pyval) dict \<Rightarrow> string \<Rightarrow> transfer_db \<Rightarrow> (store_error + loaded_row) \<times> transfer_db" where
  "record_receipt E c works now i receipt qr s =
     (case write_db c works (Inr ()) (\<lambda>_ s. rbind (canonical_json (VDict receipt)) (\<lambda>t. receipt_body now i t qr s)) s of
        (Inl e, s') \<Rightarrow> (Inl e, s')
      | (Inr None, s') \<Rightarrow> (Inl AssertionFailed, s')
      | (Inr (Some row), s') \<Rightarrow> (Inr row, s'))"

definition is_pending :: "intent_row \<Rightarrow> bool" where
  "is_pending r \<longleftrightarrow> ti_status r \<in> set PENDING_STATUSES \<and> ti_confirmed r"

definition pending_ids :: "caller \<Rightarrow> bool \<Rightarrow> transfer_db \<Rightarrow> store_error + string list" where
  "pending_ids c works = read_db c works (\<lambda>s. Inr (map ti_id (sort_key ti_created (filter is_pending (intents s)))))"

definition has_exact_history :: "caller \<Rightarrow> bool \<Rightarrow> transfer_db \<Rightarrow> store_error + bool" where
  "has_exact_history c works = read_db c works (\<lambda>s. Inr (intents s \<noteq> []))"

subsection \<open>Reading and projecting the review cases\<close>

definition case_with_outbox :: "transfer_db \<Rightarrow> case_row \<Rightarrow> (case_row \<times> outbox_row) option" where
  "case_with_outbox s x = map_option (Pair x) (find (\<lambda>o'. ob_owner o' = rc_id x) (review_outbox s))"

text \<open>The join of cases and outbox in the order of the outbox.\<close>

definition cases_in_order :: "transfer_db \<Rightarrow> (case_row \<times> outbox_row) list" where
  "cases_in_order s =
     concat (map (\<lambda>o'. map (\<lambda>x. (x, o')) (filter (\<lambda>x. rc_id x = ob_owner o') (review_cases s))) (review_outbox s))"

definition post_review_case_for_intent ::
  "store_env \<Rightarrow> caller \<Rightarrow> bool \<Rightarrow> string \<Rightarrow> transfer_db \<Rightarrow> store_error + case_row \<times> outbox_row" where
  "post_review_case_for_intent E c works i s =
     (if is_ui_thread c then Inl UiThreadRead
      else rbind (normalize_identifier E ''intent_id'' (VStr i)) (\<lambda>i.
        read_db c works (\<lambda>s.
          case find (\<lambda>x. rc_intent x = i) (review_cases s) of
            None \<Rightarrow> Inl (NoIntent i)
          | Some x \<Rightarrow> (case case_with_outbox s x of None \<Rightarrow> Inl (NoIntent i) | Some y \<Rightarrow> Inr y)) s))"

definition post_review_cases :: "caller \<Rightarrow> bool \<Rightarrow> bool \<Rightarrow> transfer_db \<Rightarrow> store_error + (case_row \<times> outbox_row) list" where
  "post_review_cases c works active_only =
     read_db c works (\<lambda>s. Inr (filter (\<lambda>(x, o').
       case find_intent (rc_intent x) s of
         None \<Rightarrow> False
       | Some r \<Rightarrow> \<not> active_only \<or> ti_status r = OPERATOR_REVIEW) (cases_in_order s)))"

definition pending_post_review_projections :: "caller \<Rightarrow> bool \<Rightarrow> transfer_db \<Rightarrow> store_error + (case_row \<times> outbox_row) list" where
  "pending_post_review_projections c works =
     read_db c works (\<lambda>s. Inr (filter (\<lambda>(x, o').
       \<not> list_ex (\<lambda>p. pr_owner p = rc_id x) (review_receipts s) \<and> ob_log o' \<noteq> []) (cases_in_order s)))"

definition projection_clash :: "projection_row \<Rightarrow> projection_row \<Rightarrow> bool" where
  "projection_clash a b \<longleftrightarrow> pr_id a = pr_id b \<or> pr_owner a = pr_owner b \<or> pr_key a = pr_key b"

definition put_projection ::
  "projection_row \<Rightarrow> projection_row list \<Rightarrow> store_error + projection_row \<times> projection_row list" where
  "put_projection n ps =
     (let ps' = (if list_ex (projection_clash n) ps then ps else ps @ [n])
      in case find (\<lambda>p. pr_owner p = pr_owner n) ps' of
          None \<Rightarrow> Inl ReceiptCollision
        | Some p \<Rightarrow>
            if pr_id p = pr_id n \<and> pr_key p = pr_key n \<and> pr_hash p = pr_hash n \<and> pr_log p = pr_log n then Inr (p, ps')
            else Inl ReceiptCollision)"

definition projection_row_of :: "store_env \<Rightarrow> string \<Rightarrow> string \<Rightarrow> string \<Rightarrow> string \<Rightarrow> string \<Rightarrow> string \<Rightarrow> string \<Rightarrow> projection_row" where
  "projection_row_of E kind owner_field now owner key hash path =
     \<lparr>pr_id = deterministic_id E kind
        (VDict [(owner_field, VStr owner), (''idempotency_key'', VStr key), (''payload_hash'', VStr hash)]),
      pr_owner = owner, pr_key = key, pr_hash = hash, pr_log = path, pr_at = now\<rparr>"

definition projection_args :: "store_env \<Rightarrow> string \<Rightarrow> string \<Rightarrow> string \<Rightarrow> store_error + string \<times> string" where
  "projection_args E fld i path =
     rbind (normalize_identifier E fld (VStr i)) (\<lambda>i.
       rbind (normalize_identifier E ''projection_log_file_path'' (VStr path)) (\<lambda>p. Inr (i, abspath E p)))"

definition project_case_body ::
  "store_env \<Rightarrow> string \<Rightarrow> string \<times> string \<Rightarrow> transfer_db \<Rightarrow> store_error + projection_row \<times> transfer_db" where
  "project_case_body E now = (\<lambda>(cid, path) s.
       case find (\<lambda>x. rc_id x = cid) (review_cases s) of
         None \<Rightarrow> Inl CaseMissing
       | Some x \<Rightarrow> (case case_with_outbox s x of
           None \<Rightarrow> Inl CaseMissing
         | Some (x, o') \<Rightarrow>
             if ob_log o' \<noteq> path \<or> ob_hash o' \<noteq> rc_hash x then Inl ProjectionDiffers
             else rbind (put_projection
                 (projection_row_of E ''POST-REVIEW-PROJECTION'' ''review_case_id'' now cid (rc_key x) (rc_hash x) path)
                 (review_receipts s)) (\<lambda>(p, ps). Inr (p, s\<lparr>review_receipts := ps\<rparr>))))"

definition record_post_review_projection ::
  "store_env \<Rightarrow> caller \<Rightarrow> bool \<Rightarrow> string \<Rightarrow> string \<Rightarrow> string \<Rightarrow> transfer_db \<Rightarrow> (store_error + projection_row) \<times> transfer_db" where
  "record_post_review_projection E c works now cid path =
     write_db c works (projection_args E ''review_case_id'' cid path) (project_case_body E now)"

subsection \<open>Labels waiting for their replacement\<close>

record waiting_request =
  wq_session :: string
  wq_old :: string
  wq_new :: string
  wq_process :: string
  wq_locations :: "string list"
  wq_operator :: string
  wq_label :: string
  wq_path :: string

definition waiting_key :: "string \<Rightarrow> string \<Rightarrow> string \<Rightarrow> string" where
  "waiting_key session old_hash new_hash = ''replacement-wait:'' @ session @ '':'' @ old_hash @ '':'' @ new_hash"

definition waiting_evidence :: "string \<Rightarrow> waiting_row \<Rightarrow> string list \<Rightarrow> pyval" where
  "waiting_evidence now w locations =
     VDict [(''schema_version'', VStr REPLACEMENT_WAITING_SCHEMA_VERSION), (''event_type'', VStr REPLACEMENT_WAITING_EVENT),
       (''intent_id'', VStr (wt_intent w)), (''idempotency_key'', VStr (wt_key w)), (''session_id'', VStr (wt_session w)),
       (''old_label_id'', VStr (wt_old w)), (''old_label_hash'', VStr (wt_old_hash w)), (''new_label_id'', VStr (wt_new w)),
       (''new_label_hash'', VStr (wt_new_hash w)), (''process_context'', VStr (wt_process w)),
       (''location_codes'', VList (map VStr locations)), (''operator'', VStr (wt_operator w)), (''master_label'', VStr (wt_label w)),
       (''observed_at'', VStr now)]"

definition waiting_row_of :: "store_env \<Rightarrow> string \<Rightarrow> string \<Rightarrow> string \<Rightarrow> string \<Rightarrow> string \<Rightarrow> string list \<Rightarrow> waiting_request \<Rightarrow> waiting_row" where
  "waiting_row_of E now session old new process locations q =
     (let oh = digest_of E old; nh = digest_of E new; key = waiting_key session oh nh;
          w = \<lparr>wt_intent = ''phs-replacement-wait-'' @ take 32 (digest_of E key), wt_key = key, wt_session = session, wt_old = old,
               wt_old_hash = oh, wt_new = new, wt_new_hash = nh, wt_process = process,
               wt_locations = dumps (VList (map VStr locations)), wt_operator = strip (wq_operator q),
               wt_label = strip (wq_label q), wt_evidence = [], wt_hash = [], wt_created = now\<rparr>;
          t = dumps (waiting_evidence now w locations)
      in w\<lparr>wt_evidence := t, wt_hash := digest_of E t\<rparr>)"

definition waiting_args :: "store_env \<Rightarrow> string \<Rightarrow> waiting_request \<Rightarrow> store_error + waiting_row \<times> string" where
  "waiting_args E now q =
     rbind (normalize_identifier E ''session_id'' (VStr (wq_session q))) (\<lambda>session.
     rbind (normalize_identifier E ''old_label_id'' (VStr (wq_old q))) (\<lambda>old.
     rbind (normalize_identifier E ''new_label_id'' (VStr (wq_new q))) (\<lambda>new.
     if old = new then Inl SameLabels
     else rbind (normalize_identifier E ''process_context'' (VStr (wq_process q))) (\<lambda>process.
     rbind (rmap (\<lambda>l. normalize_identifier E ''location_code'' (VStr l)) (wq_locations q)) (\<lambda>ls.
     let locations = sort (remdups ls) in
     if locations = [] then Inl NoLocations
     else rbind (normalize_identifier E ''projection_log_file_path'' (VStr (wq_path q))) (\<lambda>p.
       Inr (waiting_row_of E now session old new (lower process) locations q, abspath E p)))))))"

definition waiting_clash :: "waiting_row \<Rightarrow> waiting_row \<Rightarrow> bool" where
  "waiting_clash a b \<longleftrightarrow> wt_intent a = wt_intent b \<or> wt_key a = wt_key b \<or>
     wt_session a = wt_session b \<and> wt_old_hash a = wt_old_hash b \<and> wt_new_hash a = wt_new_hash b"

definition outbox_of_waiting :: "waiting_row \<Rightarrow> outbox_row \<Rightarrow> bool" where
  "outbox_of_waiting w o' \<longleftrightarrow> ob_key o' = wt_key w \<and> ob_payload o' = wt_evidence w \<and> ob_hash o' = wt_hash w"

definition waiting_outbox :: "string \<Rightarrow> waiting_row \<Rightarrow> outbox_row" where
  "waiting_outbox path w = \<lparr>ob_owner = wt_intent w, ob_key = wt_key w, ob_payload = wt_evidence w, ob_hash = wt_hash w, ob_log = path,
     ob_created = wt_created w\<rparr>"

definition mark_body :: "waiting_row \<times> string \<Rightarrow> transfer_db \<Rightarrow> store_error + (waiting_row \<times> outbox_row) \<times> transfer_db" where
  "mark_body = (\<lambda>(n, path) s.
     let ws = (if list_ex (waiting_clash n) (waits s) then waits s else waits s @ [n])
      in case find (\<lambda>w. wt_key w = wt_key n) ws of
          None \<Rightarrow> Inl IdentityCollision
        | Some w \<Rightarrow>
            if wt_intent w \<noteq> wt_intent n \<or> wt_session w \<noteq> wt_session n \<or> wt_old_hash w \<noteq> wt_old_hash n \<or> wt_new_hash w \<noteq> wt_new_hash n
            then Inl IdentityCollision
            else let b = waiting_outbox path w;
                     bs = (if list_ex (outbox_clash b) (wait_outbox s) then wait_outbox s else wait_outbox s @ [b])
              in (case find (\<lambda>o'. ob_owner o' = wt_intent n) bs of
                  None \<Rightarrow> Inl OutboxDiffers
                | Some o' \<Rightarrow>
                    if outbox_of_waiting w o' \<and> strip (ob_log o') \<noteq> [] then Inr ((w, o'), s\<lparr>waits := ws, wait_outbox := bs\<rparr>)
                    else Inl OutboxDiffers))"

definition mark_phs_replacement_waiting ::
  "store_env \<Rightarrow> caller \<Rightarrow> bool \<Rightarrow> string \<Rightarrow> waiting_request \<Rightarrow> transfer_db \<Rightarrow> (store_error + waiting_row \<times> outbox_row) \<times> transfer_db" where
  "mark_phs_replacement_waiting E c works now q = write_db c works (waiting_args E now q) mark_body"

definition waits_in_order :: "transfer_db \<Rightarrow> (waiting_row \<times> outbox_row) list" where
  "waits_in_order s =
     concat (map (\<lambda>o'. map (\<lambda>w. (w, o')) (filter (\<lambda>w. wt_intent w = ob_owner o') (waits s))) (wait_outbox s))"

definition replacement_waiting_outbox :: "caller \<Rightarrow> bool \<Rightarrow> transfer_db \<Rightarrow> store_error + (waiting_row \<times> outbox_row) list" where
  "replacement_waiting_outbox c works = read_db c works (\<lambda>s. Inr (waits_in_order s))"

definition pending_replacement_waiting_projections ::
  "caller \<Rightarrow> bool \<Rightarrow> transfer_db \<Rightarrow> store_error + (waiting_row \<times> outbox_row) list" where
  "pending_replacement_waiting_projections c works =
     read_db c works (\<lambda>s. Inr (filter (\<lambda>(w, o').
       \<not> list_ex (\<lambda>p. pr_owner p = wt_intent w) (wait_receipts s) \<and> ob_log o' \<noteq> []) (waits_in_order s)))"

definition project_waiting_body ::
  "store_env \<Rightarrow> string \<Rightarrow> string \<times> string \<Rightarrow> transfer_db \<Rightarrow> store_error + projection_row \<times> transfer_db" where
  "project_waiting_body E now = (\<lambda>(i, path) s.
       case find (\<lambda>w. wt_intent w = i) (waits s) of
         None \<Rightarrow> Inl (NoIntent i)
       | Some w \<Rightarrow> (case find (\<lambda>o'. ob_owner o' = i) (wait_outbox s) of
           None \<Rightarrow> Inl (NoIntent i)
         | Some o' \<Rightarrow>
             if ob_log o' \<noteq> path \<or> ob_hash o' \<noteq> wt_hash w then Inl ProjectionDiffers
             else rbind (put_projection
                 (projection_row_of E ''PHS-WAIT-PROJECTION'' ''intent_id'' now i (wt_key w) (wt_hash w) path)
                 (wait_receipts s)) (\<lambda>(p, ps). Inr (p, s\<lparr>wait_receipts := ps\<rparr>))))"

definition record_replacement_waiting_projection ::
  "store_env \<Rightarrow> caller \<Rightarrow> bool \<Rightarrow> string \<Rightarrow> string \<Rightarrow> string \<Rightarrow> transfer_db \<Rightarrow> (store_error + projection_row) \<times> transfer_db" where
  "record_replacement_waiting_projection E c works now i path =
     write_db c works (projection_args E ''intent_id'' i path) (project_waiting_body E now)"

definition block_body ::
  "string \<Rightarrow> (string, pyval) dict \<Rightarrow> string \<times> string \<Rightarrow> transfer_db \<Rightarrow> store_error + string \<times> transfer_db" where
  "block_body now details = (\<lambda>(code, rid) s.
     if list_ex (\<lambda>(x, _). x = rid) (block_receipts s) then Inl SqlIntegrity
     else Inr (rid, s\<lparr>block_receipts := block_receipts s @ [(rid, code, dumps (VDict details), now)]\<rparr>))"

definition record_exchange_block ::
  "store_env \<Rightarrow> caller \<Rightarrow> bool \<Rightarrow> string \<Rightarrow> string \<Rightarrow> (string, pyval) dict \<Rightarrow> transfer_db \<Rightarrow> (store_error + string) \<times> transfer_db" where
  "record_exchange_block E c works now reason details =
     write_db c works
       (rbind (normalize_identifier E ''reason_code'' (VStr reason)) (\<lambda>code.
          rbind (canonical_json (VDict [(''reason_code'', VStr code), (''details'', VDict details), (''created_at'', VStr now)])) (\<lambda>t.
            Inr (code, ''EXCHANGE-BLOCK-'' @ upper (take 24 (digest_of E t))))))
       (block_body now details)"

end
