(* ===== verification/Transfer_Ledger.thy ===== *)
theory Transfer_Ledger
  imports Transfer_Store
begin

text \<open>
  The calls of \<open>Transfer_Store\<close> in any order, with failing transactions and restarts: the invariant of the
  tables and what no call ever changes.
\<close>

subsection \<open>Calls\<close>

datatype store_op =
    DoPrepare transfer_request
  | DoBind string "(string, pyval) dict"
  | DoConfirm string
  | DoError string seal_error
  | DoReceipt string "(string, pyval) dict" string
  | DoProjectCase string string
  | DoMarkWaiting waiting_request
  | DoProjectWaiting string string
  | DoBlock string "(string, pyval) dict"
  | DoReopen

record store_call =
  by_caller :: caller
  call_works :: bool
  at_time :: string
  the_op :: store_op

definition store_step :: "store_env \<Rightarrow> store_call \<Rightarrow> transfer_db \<Rightarrow> transfer_db" where
  "store_step E x s =
     (let c = by_caller x; w = call_works x; now = at_time x in
      case the_op x of
        DoPrepare q \<Rightarrow> snd (prepare E c w now q s)
      | DoBind i ctx \<Rightarrow> snd (bind_command E c w now i ctx s)
      | DoConfirm i \<Rightarrow> snd (confirm_completion_checkpoint E c w now i s)
      | DoError i e \<Rightarrow> snd (record_error E c w now i e s)
      | DoReceipt i receipt qr \<Rightarrow> snd (record_receipt E c w now i receipt qr s)
      | DoProjectCase i p \<Rightarrow> snd (record_post_review_projection E c w now i p s)
      | DoMarkWaiting q \<Rightarrow> snd (mark_phs_replacement_waiting E c w now q s)
      | DoProjectWaiting i p \<Rightarrow> snd (record_replacement_waiting_projection E c w now i p s)
      | DoBlock r d \<Rightarrow> snd (record_exchange_block E c w now r d s)
      | DoReopen \<Rightarrow> snd (initialize_store E w s))"

subsection \<open>What no call changes\<close>

definition later :: "intent_row \<Rightarrow> intent_row \<Rightarrow> bool" where
  "later r r' \<longleftrightarrow> ti_id r' = ti_id r \<and> ti_label r' = ti_label r \<and> ti_source_json r' = ti_source_json r \<and> ti_item r' = ti_item r \<and>
     ti_operator r' = ti_operator r \<and> ti_scans_json r' = ti_scans_json r \<and> ti_scan_count r' = ti_scan_count r \<and> ti_hash r' = ti_hash r \<and>
     ti_key r' = ti_key r \<and> ti_lease r' = ti_lease r \<and> ti_created r' = ti_created r \<and>
     (ti_command_json r \<noteq> None \<longrightarrow> ti_command_json r' = ti_command_json r \<and> ti_command_id r' = ti_command_id r \<and>
        ti_command_hash r' = ti_command_hash r) \<and>
     (ti_confirmed r \<longrightarrow> ti_confirmed r') \<and> (ti_log r \<noteq> [] \<longrightarrow> ti_log r' = ti_log r) \<and> ti_attempts r \<le> ti_attempts r'"

definition grows :: "transfer_db \<Rightarrow> transfer_db \<Rightarrow> bool" where
  "grows s s' \<longleftrightarrow> (\<exists>olds news. intents s' = olds @ news \<and> list_all2 later (intents s) olds) \<and>
     prefix (ledger s) (ledger s') \<and> prefix (review_cases s) (review_cases s') \<and> prefix (review_outbox s) (review_outbox s') \<and>
     prefix (review_receipts s) (review_receipts s') \<and> prefix (waits s) (waits s') \<and> prefix (wait_outbox s) (wait_outbox s') \<and>
     prefix (wait_receipts s) (wait_receipts s') \<and> prefix (block_receipts s) (block_receipts s')"

lemma later_refl [simp]: "later r r"
  by (simp add: later_def)

lemma later_trans: "later a b \<Longrightarrow> later b c \<Longrightarrow> later a c"
  by (auto simp: later_def)

lemma all_later_refl [simp]: "list_all2 later rs rs"
  by (simp add: list.rel_refl)

lemma grows_refl [simp]: "grows s s"
  by (force simp: grows_def)

lemma grows_trans:
  assumes "grows s t" "grows t u"
  shows "grows s u"
proof -
  obtain o1 n1 where t: "intents t = o1 @ n1" "list_all2 later (intents s) o1" using assms(1) by (auto simp: grows_def)
  obtain o2 n2 where u: "intents u = o2 @ n2" "list_all2 later (intents t) o2" using assms(2) by (auto simp: grows_def)
  from u(2) t(1) obtain a b where ab: "o2 = a @ b" "list_all2 later o1 a" by (auto simp: list_all2_append1)
  have "list_all2 later (intents s) a" using list_all2_trans [of later later later, OF _ t(2) ab(2)] later_trans by blast
  with u(1) ab(1) have "\<exists>olds news. intents u = olds @ news \<and> list_all2 later (intents s) olds" by auto
  with assms show ?thesis by (auto simp: grows_def intro: prefix_order.trans)
qed

subsection \<open>The invariant\<close>

definition row_ok :: "store_env \<Rightarrow> intent_row \<Rightarrow> bool" where
  "row_ok E r \<longleftrightarrow> ti_id r = intent_id_of (ti_hash r) \<and> ti_key r = seal_key_of (ti_hash r) \<and> 0 < ti_scan_count r \<and>
     (case ti_command_json r of
        None \<Rightarrow> ti_command_id r = None \<and> ti_command_hash r = None
      | Some t \<Rightarrow> ti_command_id r = Some (ti_key r) \<and> ti_command_hash r = Some (digest_of E t) \<and> ti_confirmed r) \<and>
     (ti_status r = ACKED \<longrightarrow> ti_receipt_json r \<noteq> None \<and> ti_seal_qr r \<noteq> None)"

definition linked_to :: "store_env \<Rightarrow> intent_row \<Rightarrow> linked_row \<Rightarrow> bool" where
  "linked_to E r l \<longleftrightarrow> (\<exists>m. linked_row_of E r = Inr m \<and> same_linked m l) \<and> ln_intent l = ti_id r"

definition intents_ok :: "store_env \<Rightarrow> transfer_db \<Rightarrow> bool" where
  "intents_ok E s \<longleftrightarrow> distinct (map ti_id (intents s)) \<and> distinct (map ti_hash (intents s)) \<and> (\<forall>r \<in> set (intents s). row_ok E r)"

definition ledger_ok :: "store_env \<Rightarrow> transfer_db \<Rightarrow> bool" where
  "ledger_ok E s \<longleftrightarrow> list_all2 (linked_to E) (intents s) (ledger s) \<and> distinct (map ln_id (ledger s))"

definition cases_ok :: "transfer_db \<Rightarrow> bool" where
  "cases_ok s \<longleftrightarrow> review_outbox s = map case_outbox (review_cases s) \<and> distinct (map rc_id (review_cases s)) \<and>
     distinct (map rc_intent (review_cases s)) \<and> distinct (map rc_completion (review_cases s)) \<and>
     (\<forall>r \<in> set (intents s). ti_status r = OPERATOR_REVIEW \<longrightarrow> ti_id r \<in> set (map rc_intent (review_cases s)))"

definition case_projected :: "case_row \<Rightarrow> projection_row \<Rightarrow> bool" where
  "case_projected x p \<longleftrightarrow> rc_id x = pr_owner p \<and> pr_key p = rc_key x \<and> pr_hash p = rc_hash x \<and> pr_log p = rc_log x"

definition wait_published :: "waiting_row \<Rightarrow> outbox_row \<Rightarrow> bool" where
  "wait_published w o' \<longleftrightarrow> ob_owner o' = wt_intent w \<and> outbox_of_waiting w o' \<and> strip (ob_log o') \<noteq> []"

definition wait_projected :: "waiting_row \<times> outbox_row \<Rightarrow> projection_row \<Rightarrow> bool" where
  "wait_projected = (\<lambda>(w, o') p. pr_owner p = wt_intent w \<and> pr_key p = wt_key w \<and> pr_hash p = wt_hash w \<and> pr_log p = ob_log o')"

definition projections_ok :: "transfer_db \<Rightarrow> bool" where
  "projections_ok s \<longleftrightarrow> distinct (map pr_owner (review_receipts s)) \<and>
     (\<forall>p \<in> set (review_receipts s). \<exists>x \<in> set (review_cases s). case_projected x p)"

definition waits_ok :: "transfer_db \<Rightarrow> bool" where
  "waits_ok s \<longleftrightarrow> list_all2 wait_published (waits s) (wait_outbox s) \<and> distinct (map wt_intent (waits s)) \<and>
     distinct (map wt_key (waits s)) \<and> distinct (map pr_owner (wait_receipts s)) \<and>
     (\<forall>p \<in> set (wait_receipts s). \<exists>y \<in> set (zip (waits s) (wait_outbox s)). wait_projected y p)"

definition db_ok :: "store_env \<Rightarrow> transfer_db \<Rightarrow> bool" where
  "db_ok E s \<longleftrightarrow> intents_ok E s \<and> ledger_ok E s \<and> cases_ok s \<and> projections_ok s \<and> waits_ok s"

lemma no_rows_ok: "db_ok E no_rows"
  by (simp add: db_ok_def intents_ok_def ledger_ok_def cases_ok_def projections_ok_def waits_ok_def no_rows_def)

lemmas invariant_defs = db_ok_def intents_ok_def ledger_ok_def cases_ok_def projections_ok_def waits_ok_def

subsection \<open>Looking up rows\<close>

lemma write_db_result:
  assumes "write_db c works args body s = (r, s')"
  shows "s' = s \<and> isl r \<or> (\<exists>p x. args = Inr p \<and> body p s = Inr (x, s') \<and> r = Inr x)"
  using assms by (auto simp: write_db_def split: if_splits sum.splits)

lemma write_db_state:
  assumes "\<And>p x s'. args = Inr p \<Longrightarrow> body p s = Inr (x, s') \<Longrightarrow> P s'" "P s"
  shows "P (snd (write_db c works args body s))"
  using write_db_result [of c works args body s] assms by (metis prod.collapse)

lemma find_first:
  assumes "distinct (map f xs)" "x \<in> set xs"
  shows "find (\<lambda>y. f y = f x) xs = Some x"
  using assms
proof (induction xs)
  case (Cons a xs)
  then show ?case by (cases "f a = f x") (auto simp: image_iff)
qed simp

lemma find_key: "find (\<lambda>y. f y = k) xs = Some x \<Longrightarrow> x \<in> set xs \<and> f x = k"
  by (auto simp: find_Some_iff)

lemma find_key_None: "find (\<lambda>y. f y = k) xs = None \<longleftrightarrow> k \<notin> f ` set xs"
  by (auto simp: find_None_iff)

lemma all_linked_intents: "list_all2 (linked_to E) rs ls \<Longrightarrow> map ln_intent ls = map ti_id rs"
  by (induction rule: list_all2_induct) (auto simp: linked_to_def)

lemma find_linked_row:
  assumes "db_ok E s" "r \<in> set (intents s)"
  obtains l where "find_linked (ti_id r) s = Some l" "linked_to E r l"
proof -
  have L: "list_all2 (linked_to E) (intents s) (ledger s)" and d: "distinct (map ti_id (intents s))"
    using assms(1) by (auto simp: invariant_defs)
  from L assms(2) obtain l where l: "l \<in> set (ledger s)" "linked_to E r l"
    by (metis in_set_conv_nth list_all2_conv_all_nth)
  have "map ln_intent (ledger s) = map ti_id (intents s)" using L by (rule all_linked_intents)
  with d have "find_linked (ln_intent l) s = Some l" unfolding find_linked_def using l(1) by (intro find_first) simp_all
  with l(2) that show ?thesis by (simp add: linked_to_def)
qed

lemma linked_row_later: "later r r' \<Longrightarrow> linked_row_of E r' = linked_row_of E r"
  unfolding later_def linked_row_of_def linked_event_payload_def completion_id_of_def by (elim conjE) (simp only:)

lemma linked_to_later: "later r r' \<Longrightarrow> linked_to E r l \<Longrightarrow> linked_to E r' l"
  unfolding linked_to_def by (metis linked_row_later later_def)

subsection \<open>Updating intents\<close>

lemma update_intent_other [simp]:
  "ledger (update_intent i f s) = ledger s" "review_cases (update_intent i f s) = review_cases s"
  "review_outbox (update_intent i f s) = review_outbox s" "review_receipts (update_intent i f s) = review_receipts s"
  "waits (update_intent i f s) = waits s" "wait_outbox (update_intent i f s) = wait_outbox s"
  "wait_receipts (update_intent i f s) = wait_receipts s" "block_receipts (update_intent i f s) = block_receipts s"
  by (simp_all add: update_intent_def)

lemma update_intent_all2:
  assumes "\<And>r. r \<in> set (intents s) \<Longrightarrow> ti_id r = i \<Longrightarrow> later r (f r)"
  shows "list_all2 later (intents s) (intents (update_intent i f s))"
  using assms by (auto simp: update_intent_def list_all2_conv_all_nth)

lemma update_intent_grows:
  assumes "\<And>r. r \<in> set (intents s) \<Longrightarrow> ti_id r = i \<Longrightarrow> later r (f r)"
  shows "grows s (update_intent i f s)"
  using update_intent_all2 [OF assms] by (auto simp: grows_def)

lemma map_later:
  assumes "list_all2 later rs rs'"
  shows "map ti_id rs' = map ti_id rs" "map ti_hash rs' = map ti_hash rs"
  using assms by (induction rule: list_all2_induct) (auto simp: later_def)

lemma linked_all_later:
  assumes "list_all2 later rs rs'" "list_all2 (linked_to E) rs ls"
  shows "list_all2 (linked_to E) rs' ls"
proof -
  have "list_all2 (\<lambda>a b. later b a) rs' rs" using assms(1) by (simp add: list_all2_conv_all_nth)
  then show ?thesis by (rule list_all2_trans [rotated, OF _ assms(2)]) (rule linked_to_later)
qed

text \<open>An update that keeps the row in order keeps the database in order.\<close>

lemma update_intent_ok:
  assumes "db_ok E s"
    and "\<And>r. r \<in> set (intents s) \<Longrightarrow> ti_id r = i \<Longrightarrow> later r (f r) \<and> row_ok E (f r)"
    and "\<And>r. r \<in> set (intents s) \<Longrightarrow> ti_id r = i \<Longrightarrow> ti_status (f r) = OPERATOR_REVIEW \<Longrightarrow> i \<in> set (map rc_intent (review_cases s))"
  shows "db_ok E (update_intent i f s)"
proof -
  let ?s = "update_intent i f s"
  have L: "list_all2 later (intents s) (intents ?s)" using assms(2) by (intro update_intent_all2) blast
  have "\<forall>r \<in> set (intents ?s). row_ok E r"
    using assms(1,2) by (auto simp: update_intent_def invariant_defs)
  then have "intents_ok E ?s" using assms(1) map_later [OF L] by (simp add: invariant_defs)
  moreover have "ledger_ok E ?s" using assms(1) linked_all_later [OF L] by (simp add: invariant_defs)
  moreover have "\<forall>r \<in> set (intents ?s). ti_status r = OPERATOR_REVIEW \<longrightarrow> ti_id r \<in> set (map rc_intent (review_cases s))"
    using assms(1,2,3) by (fastforce simp: update_intent_def invariant_defs later_def)
  then have "cases_ok ?s" using assms(1) by (simp add: invariant_defs)
  ultimately show ?thesis using assms(1) by (simp add: db_ok_def projections_ok_def waits_ok_def)
qed

lemma find_intent_update:
  assumes "find_intent i s = Some r" "ti_id (f r) = i"
  shows "find_intent i (update_intent i f s) = Some (f r)"
proof -
  have "find (\<lambda>r. ti_id r = i) (map (\<lambda>r. if ti_id r = i then f r else r) rs) = Some (f r)"
    if "find (\<lambda>r. ti_id r = i) rs = Some r" for rs
    using that assms(2) by (induction rs) (auto split: if_splits)
  with assms(1) show ?thesis by (simp add: find_intent_def update_intent_def)
qed

lemma find_intent_other: "j \<noteq> i \<Longrightarrow> (\<And>r. ti_id r = i \<Longrightarrow> ti_id (f r) = i) \<Longrightarrow> find_intent j (update_intent i f s) = find_intent j s"
proof -
  assume ij: "j \<noteq> i" and f: "\<And>r. ti_id r = i \<Longrightarrow> ti_id (f r) = i"
  have "find (\<lambda>r. ti_id r = j) (map (\<lambda>r. if ti_id r = i then f r else r) rs) = find (\<lambda>r. ti_id r = j) rs" for rs
    using ij f by (induction rs) auto
  then show ?thesis by (simp add: find_intent_def update_intent_def)
qed

lemma find_intent_in: "find_intent i s = Some r \<Longrightarrow> r \<in> set (intents s) \<and> ti_id r = i"
  unfolding find_intent_def by (rule find_key)

subsection \<open>Every call keeps the invariant and only grows\<close>

lemma grows_append:
  "grows s (s\<lparr>intents := intents s @ xs\<rparr>)" "grows s (s\<lparr>ledger := ledger s @ ls\<rparr>)"
  "grows s (s\<lparr>review_cases := review_cases s @ cs, review_outbox := review_outbox s @ os\<rparr>)"
  "grows s (s\<lparr>review_receipts := review_receipts s @ ps\<rparr>)" "grows s (s\<lparr>wait_receipts := wait_receipts s @ ps\<rparr>)"
  "grows s (s\<lparr>block_receipts := block_receipts s @ bs\<rparr>)"
  by (force simp: grows_def)+

lemma ensure_linked_known:
  assumes "db_ok E s" "r \<in> set (intents s)"
  shows "ensure_linked_event E r s = Inr s"
proof -
  obtain l m where l: "find_linked (ti_id r) s = Some l" "linked_row_of E r = Inr m" "same_linked m l" "ln_intent l = ti_id r"
    using find_linked_row [OF assms] unfolding linked_to_def by metis
  have "l \<in> set (ledger s)" using l(1) by (auto simp: find_linked_def dest: find_key)
  with l have "list_ex (linked_clash m) (ledger s)" by (auto simp: list_ex_iff linked_clash_def same_linked_def)
  with l show ?thesis by (simp add: ensure_linked_event_def)
qed

lemma ensure_all_known: "db_ok E s \<Longrightarrow> set rs \<subseteq> set (intents s) \<Longrightarrow> ensure_all E rs s = Inr s"
  by (induction rs) (simp_all add: ensure_linked_known)

lemma reopen_ok:
  assumes "db_ok E s"
  shows "initialize_store E works s = (if works then Inr () else Inl SqlFailure, s)"
proof -
  have "\<not> list_ex (\<lambda>r. ti_command_id r \<noteq> None \<and> ti_command_id r \<noteq> Some (ti_key r)) (intents s)"
    using assms by (auto simp: list_ex_iff invariant_defs row_ok_def split: option.splits)
  then show ?thesis using ensure_all_known [OF assms, of "sort_key ti_created (intents s)"] by (simp add: initialize_store_def)
qed

lemma ensure_linked_new:
  assumes "ensure_linked_event E n (s\<lparr>intents := intents s @ [n]\<rparr>) = Inr s'" "ledger_ok E s" "ti_id n \<notin> ti_id ` set (intents s)"
  obtains l where "s' = s\<lparr>intents := intents s @ [n], ledger := ledger s @ [l]\<rparr>" "linked_to E n l" "ln_id l \<notin> ln_id ` set (ledger s)"
proof -
  from assms(1) obtain l where l: "linked_row_of E n = Inr l" by (auto simp: ensure_linked_event_def result_simps)
  have i: "ln_intent l = ti_id n" using l by (auto simp: linked_row_of_def result_simps)
  have "map ln_intent (ledger s) = map ti_id (intents s)"
    using assms(2) all_linked_intents unfolding ledger_ok_def by blast
  then have "ln_intent ` set (ledger s) = ti_id ` set (intents s)" by (metis set_map)
  then have "find (\<lambda>m. ln_intent m = ti_id n) (ledger s) = None" using assms(3) by (simp add: find_key_None)
  then have "\<not> list_ex (linked_clash l) (ledger s)" and s': "s' = s\<lparr>intents := intents s @ [n], ledger := ledger s @ [l]\<rparr>"
    using assms(1) l by (auto simp: ensure_linked_event_def Let_def find_linked_def split: if_splits option.splits)
  then show ?thesis using that [OF s'] l i by (auto simp: linked_to_def list_ex_iff linked_clash_def same_linked_def)
qed

lemma new_intent_ok:
  assumes "preview_intent E c q = Inr p"
  shows "row_ok E (new_intent E now q p)"
  using assms by (auto simp: preview_intent_def result_simps Let_def row_ok_def new_intent_def split: if_splits)

lemma prepare_body_ok:
  assumes "db_ok E s" "preview_intent E c q = Inr p" "prepare_body E now q p s = Inr (x, s')"
  shows "db_ok E s' \<and> grows s s'"
proof -
  let ?n = "new_intent E now q p"
  note I = assms(1)
  show ?thesis
  proof (cases "list_ex (intent_clash ?n) (intents s)")
    case True
    then obtain r r2 s2 where r: "find_intent (ti_id ?n) s = Some r"
      and s2: "s2 = (if ti_log r = [] \<and> ti_log ?n \<noteq> [] then update_intent (ti_id ?n) (set_log (ti_log ?n)) s else s)"
      and r2: "find_intent (ti_id ?n) s2 = Some r2" and e: "ensure_linked_event E r2 s2 = Inr s'"
      using assms(3) by (auto simp: prepare_body_def Let_def result_simps split: option.splits if_splits)
    have later: "later t (set_log l t)" for t l by (simp add: later_def set_log_def)
    have "row_ok E (set_log l t)" if "t \<in> set (intents s)" for t l
      using I that by (auto simp: invariant_defs row_ok_def set_log_def split: option.splits)
    then have "db_ok E (update_intent i (set_log l) s)" for i l
      using later I by (intro update_intent_ok) (auto simp: invariant_defs set_log_def split: if_splits)
    then have "db_ok E s2" "grows s s2" using I later s2 by (auto intro: update_intent_grows)
    moreover from ensure_linked_known [OF this(1)] find_intent_in [OF r2] e have "s' = s2" by auto
    ultimately show ?thesis by simp
  next
    case False
    then have new: "ti_id ?n \<notin> ti_id ` set (intents s)" "ti_hash ?n \<notin> ti_hash ` set (intents s)"
      by (auto simp: list_ex_iff intent_clash_def)
    let ?s = "s\<lparr>intents := intents s @ [?n]\<rparr>"
    have f: "find_intent (ti_id ?n) ?s = Some ?n"
    proof -
      have "find (\<lambda>r. ti_id r = k) (xs @ [y]) = Some y" if "k \<notin> ti_id ` set xs" "ti_id y = k" for k xs and y :: intent_row
        using that by (induction xs) auto
      with new(1) show ?thesis by (simp add: find_intent_def)
    qed
    have "ensure_linked_event E ?n ?s = Inr s'"
      using assms(3) False f by (auto simp: prepare_body_def Let_def result_simps split: option.splits if_splits)
    then obtain l where s': "s' = s\<lparr>intents := intents s @ [?n], ledger := ledger s @ [l]\<rparr>" and l: "linked_to E ?n l"
        "ln_id l \<notin> ln_id ` set (ledger s)"
      using ensure_linked_new new(1) I unfolding db_ok_def by metis
    have "grows s s'"
      unfolding s' using grows_trans [OF grows_append(1) [of s "[?n]"] grows_append(2) [of ?s "[l]"]] by simp
    moreover have "ti_status ?n \<noteq> OPERATOR_REVIEW" by (simp add: new_intent_def)
    then have "db_ok E s'"
      using I new l new_intent_ok [OF assms(2)] by (auto simp: s' invariant_defs intro!: list_all2_appendI)
    ultimately show ?thesis by simp
  qed
qed

lemma intent_with_id:
  assumes "db_ok E s" "r \<in> set (intents s)" "r' \<in> set (intents s)" "ti_id r' = ti_id r"
  shows "r' = r"
proof -
  have "distinct (map ti_id (intents s))" using assms(1) by (simp add: invariant_defs)
  then show ?thesis using assms(2-4) by (auto simp: distinct_map dest: inj_onD)
qed

lemma review_has_case:
  "db_ok E s \<Longrightarrow> r \<in> set (intents s) \<Longrightarrow> ti_status r = OPERATOR_REVIEW \<Longrightarrow> ti_id r \<in> set (map rc_intent (review_cases s))"
  by (simp add: invariant_defs)

lemma bind_body_ok:
  assumes "db_ok E s" "bind_body E now i (cid, t) s = Inr (x, s')"
  shows "db_ok E s' \<and> grows s s'"
proof -
  obtain r where r: "find_intent i s = Some r" "ti_confirmed r" "ti_key r = cid"
    using assms(2) by (auto simp: bind_body_def split: option.splits if_splits)
  note i = find_intent_in [OF r(1)]
  show ?thesis
  proof (cases "ti_command_json r")
    case None
    let ?f = "bound_row E now cid t"
    have s': "s' = update_intent i ?f s"
      using assms(2) r None by (auto simp: bind_body_def result_simps split: option.splits if_splits)
    have "later r' (?f r') \<and> row_ok E (?f r')" if "r' \<in> set (intents s)" "ti_id r' = i" for r'
    proof -
      have "r' = r" using intent_with_id [OF assms(1)] that i by blast
      moreover have "row_ok E r" using assms(1) i by (simp add: invariant_defs)
      ultimately show ?thesis using None r by (simp add: later_def row_ok_def bound_row_def)
    qed
    then have "db_ok E s'" "grows s s'"
      unfolding s' using assms(1) by (auto intro!: update_intent_ok update_intent_grows simp: bound_row_def)
    then show ?thesis ..
  next
    case (Some u)
    then have "s' = s" using assms(2) r by (auto simp: bind_body_def result_simps split: option.splits if_splits)
    with assms(1) show ?thesis by simp
  qed
qed

lemma confirm_body_ok:
  assumes "db_ok E s" "confirm_body now i s = Inr (x, s')"
  shows "db_ok E s' \<and> grows s s'"
proof -
  let ?f = "confirmed_row now"
  have "s' = s \<or> s' = update_intent i ?f s"
    using assms(2) by (auto simp: confirm_body_def Let_def split: option.splits prod.splits if_splits)
  moreover have "later r (?f r) \<and> row_ok E (?f r)" if "r \<in> set (intents s)" for r
    using that assms(1) by (auto simp: invariant_defs row_ok_def later_def confirmed_row_def split: option.splits)
  moreover have "i \<in> set (map rc_intent (review_cases s))"
    if "r \<in> set (intents s)" "ti_id r = i" "ti_status (?f r) = OPERATOR_REVIEW" for r
    using that assms(1) by (auto simp: invariant_defs confirmed_row_def split: if_splits)
  ultimately show ?thesis using assms(1) by (auto intro: update_intent_ok update_intent_grows)
qed

lemma receipt_body_ok:
  assumes "db_ok E s" "receipt_body now i t qr s = Inr (x, s')"
  shows "db_ok E s' \<and> grows s s'"
proof -
  let ?f = "acked_row now t qr"
  have s': "s' = update_intent i ?f s" using assms(2) by (simp add: receipt_body_def Let_def)
  have "later r (?f r) \<and> row_ok E (?f r)" if "r \<in> set (intents s)" for r
    using that assms(1) by (auto simp: invariant_defs row_ok_def later_def acked_row_def split: option.splits)
  then show ?thesis unfolding s' using assms(1) by (auto intro!: update_intent_ok update_intent_grows simp: acked_row_def)
qed

text \<open>A new case belongs to an intent that has none.\<close>

lemma ensure_case_ok:
  assumes "ensure_post_review_case E now row e s = Inr s'" "cases_ok (s\<lparr>intents := []\<rparr>)"
  obtains xs where "s' = s\<lparr>review_cases := review_cases s @ xs, review_outbox := review_outbox s @ map case_outbox xs\<rparr>"
    "cases_ok (s'\<lparr>intents := []\<rparr>)" "ti_id (fst row) \<in> set (map rc_intent (review_cases s'))"
proof (cases "find (\<lambda>x. rc_intent x = ti_id (fst row)) (review_cases s)")
  case None
  obtain local where local: "s' = s\<lparr>review_cases := review_cases s @ [new_case E now (fst row) local e],
        review_outbox := review_outbox s @ [case_outbox (new_case E now (fst row) local e)]\<rparr>"
      "\<not> list_ex (case_clash (new_case E now (fst row) local e)) (review_cases s)"
    using assms(1) None by (auto simp: ensure_post_review_case_def Let_def split: if_splits option.splits)
  show ?thesis
    by (rule that [of "[new_case E now (fst row) local e]"])
       (use local assms(2) in \<open>auto simp: cases_ok_def list_ex_iff case_clash_def\<close>, simp add: new_case_def Let_def)
next
  case (Some x)
  then have "s' = s" using assms(1) by (auto simp: ensure_post_review_case_def split: option.splits if_splits)
  moreover have "ti_id (fst row) \<in> set (map rc_intent (review_cases s))" using find_key [OF Some] by force
  ultimately show ?thesis using that [of "[]"] assms(2) by simp
qed

text \<open>An update followed by the case of the updated intent.\<close>

lemma update_with_case_ok:
  assumes "db_ok E s" "\<And>r. r \<in> set (intents s) \<Longrightarrow> later r (f r) \<and> row_ok E (f r)"
    and "ensure_post_review_case E now row e (update_intent i f s) = Inr s'" "ti_id (fst row) = i"
  shows "db_ok E s' \<and> grows s s'"
proof -
  let ?s = "update_intent i f s"
  have C: "cases_ok (?s\<lparr>intents := []\<rparr>)" using assms(1) by (simp add: invariant_defs)
  obtain xs where xs: "s' = ?s\<lparr>review_cases := review_cases s @ xs, review_outbox := review_outbox s @ map case_outbox xs\<rparr>"
      "cases_ok (s'\<lparr>intents := []\<rparr>)" "i \<in> set (map rc_intent (review_cases s'))"
    by (rule ensure_case_ok [OF assms(3) C]) (simp add: assms(4))
  let ?t = "s\<lparr>review_cases := review_cases s @ xs, review_outbox := review_outbox s @ map case_outbox xs\<rparr>"
  have t: "review_cases ?t = review_cases s'" "intents ?t = intents s" by (simp_all add: xs(1))
  have "cases_ok ?t" using assms(1) xs(1,2) by (auto simp: db_ok_def cases_ok_def)
  moreover have "projections_ok ?t" using assms(1) by (auto simp: db_ok_def projections_ok_def)
  moreover have "intents_ok E ?t" "ledger_ok E ?t" "waits_ok ?t"
    using assms(1) by (simp_all add: db_ok_def intents_ok_def ledger_ok_def waits_ok_def)
  ultimately have "db_ok E ?t" by (simp add: db_ok_def)
  then have "db_ok E (update_intent i f ?t)"
    by (rule update_intent_ok) (use assms(2) xs(3) t in auto)
  moreover have "update_intent i f ?t = s'" by (simp add: xs(1) update_intent_def)
  moreover have "grows s ?s" using assms(2) by (intro update_intent_grows) simp
  moreover have "grows ?s s'" unfolding xs(1) using grows_append(3) [of ?s] by simp
  ultimately show ?thesis using grows_trans by auto
qed

lemma error_body_ok:
  assumes "db_ok E s" "error_body E now i e s = Inr (x, s')"
  shows "db_ok E s' \<and> grows s s'"
proof -
  define st where "st = error_status e (find_intent i s)"
  let ?s = "update_intent i (failed_row now st e) s"
  have row: "later r (failed_row now st e r) \<and> row_ok E (failed_row now st e r)" if "r \<in> set (intents s)" for r
  proof -
    have "row_ok E r" using that assms(1) by (simp add: invariant_defs)
    moreover have "st \<noteq> ACKED" by (simp add: st_def error_status_def)
    ultimately show ?thesis by (auto simp: row_ok_def later_def failed_row_def split: option.splits)
  qed
  have B: "error_body E now i e s =
      (case load_in_connection i ?s of None \<Rightarrow> Inl (NoIntent i)
       | Some row \<Rightarrow> if st = OPERATOR_REVIEW then rbind (ensure_post_review_case E now row e ?s) (\<lambda>s2. Inr (row, s2)) else Inr (row, ?s))"
    unfolding error_body_def Let_def st_def ..
  obtain rw where rw: "load_in_connection i ?s = Some rw" using assms(2) B by (auto split: option.splits)
  have id: "ti_id (fst rw) = i" using rw by (auto simp: load_in_connection_def dest: find_intent_in)
  show ?thesis
  proof (cases "st = OPERATOR_REVIEW")
    case True
    then have c: "ensure_post_review_case E now rw e ?s = Inr s'" using assms(2) B rw by (auto simp: result_simps)
    show ?thesis by (rule update_with_case_ok [OF assms(1) row c id])
  next
    case False
    then have "s' = ?s" using assms(2) B rw by simp
    moreover have "db_ok E ?s" by (rule update_intent_ok [OF assms(1)]) (use row False in \<open>auto simp: failed_row_def\<close>)
    ultimately show ?thesis using row by (auto intro: update_intent_grows)
  qed
qed

lemma put_projection_result:
  assumes "put_projection n ps = Inr (p, ps')"
  shows "ps' = ps \<or> ps' = ps @ [n] \<and> pr_owner n \<notin> pr_owner ` set ps"
  using assms by (auto simp: put_projection_def Let_def list_ex_iff projection_clash_def split: if_splits option.splits)

lemma project_case_body_ok:
  assumes "db_ok E s" "project_case_body E now (cid, path) s = Inr (x, s')"
  shows "db_ok E s' \<and> grows s s'"
proof -
  obtain z o' ps where z: "find (\<lambda>x. rc_id x = cid) (review_cases s) = Some z"
      and o': "case_with_outbox s z = Some (z, o')" "ob_log o' = path"
      and put: "put_projection (projection_row_of E ''POST-REVIEW-PROJECTION'' ''review_case_id'' now cid (rc_key z) (rc_hash z) path)
         (review_receipts s) = Inr (x, ps)" and s': "s' = s\<lparr>review_receipts := ps\<rparr>"
    using assms(2) by (auto simp: project_case_body_def result_simps case_with_outbox_def split: option.splits prod.splits if_splits)
  have zin: "z \<in> set (review_cases s)" "rc_id z = cid" using find_key [OF z] by auto
  have o2: "o' \<in> set (review_outbox s)" "ob_owner o' = rc_id z" using o'(1) by (auto simp: case_with_outbox_def dest: find_key)
  have c: "review_outbox s = map case_outbox (review_cases s)" "distinct (map rc_id (review_cases s))"
    using assms(1) by (simp_all add: invariant_defs)
  from o2 c(1) obtain z' where z': "z' \<in> set (review_cases s)" "o' = case_outbox z'" "rc_id z' = rc_id z"
    by (auto simp: case_outbox_def)
  then have "z' = z" using zin(1) c(2) by (auto simp: distinct_map dest: inj_onD)
  then have "rc_log z = path" using z'(2) o'(2) by (simp add: case_outbox_def)
  then have "case_projected z (projection_row_of E kind fld now cid (rc_key z) (rc_hash z) path)" for kind fld
    using zin(2) by (simp add: case_projected_def projection_row_of_def)
  moreover have "pr_owner (projection_row_of E kind fld now cid k h path) = cid" for kind fld k h
    by (simp add: projection_row_of_def)
  ultimately have "projections_ok s'"
    using put_projection_result [OF put] zin(1) assms(1) by (simp add: s' db_ok_def projections_ok_def) (elim disjE; auto)
  moreover have "grows s s'" using put_projection_result [OF put] by (auto simp: s' grows_append)
  ultimately show ?thesis
    using assms(1) by (simp add: s' db_ok_def intents_ok_def ledger_ok_def cases_ok_def waits_ok_def)
qed

lemma wait_published_keys: "list_all2 wait_published ws os \<Longrightarrow> map ob_owner os = map wt_intent ws \<and> map ob_key os = map wt_key ws"
  by (induction rule: list_all2_induct) (auto simp: wait_published_def outbox_of_waiting_def)

lemma mark_body_ok:
  assumes "db_ok E s" "mark_body (n, path) s = Inr (x, s')"
  shows "db_ok E s' \<and> grows s s'"
proof -
  let ?b = "waiting_outbox path"
  have b: "ob_owner (?b w) = wt_intent w" "ob_key (?b w) = wt_key w" "outbox_of_waiting w (?b w)" for w
    by (simp_all add: waiting_outbox_def outbox_of_waiting_def)
  have P: "list_all2 wait_published (waits s) (wait_outbox s)" "distinct (map wt_key (waits s))" using assms(1) by (simp_all add: invariant_defs)
  note keys = wait_published_keys [OF P(1)]
  have sets: "ob_owner ` set (wait_outbox s) = wt_intent ` set (waits s)" "ob_key ` set (wait_outbox s) = wt_key ` set (waits s)"
    using keys by (metis set_map)+
  show ?thesis
  proof (cases "list_ex (waiting_clash n) (waits s)")
    case True
    then obtain v where v: "find (\<lambda>w. wt_key w = wt_key n) (waits s) = Some v"
      using assms(2) by (auto simp: mark_body_def Let_def split: option.splits if_splits)
    have "wt_intent v \<in> ob_owner ` set (wait_outbox s)" using find_key [OF v] sets(1) by auto
    then have "list_ex (outbox_clash (?b v)) (wait_outbox s)" by (auto simp: list_ex_iff outbox_clash_def b)
    with assms(2) True v have "s' = s" by (auto simp: mark_body_def Let_def split: option.splits if_splits)
    with assms(1) show ?thesis by simp
  next
    case False
    then have new: "wt_key n \<notin> wt_key ` set (waits s)" "wt_intent n \<notin> wt_intent ` set (waits s)"
      by (auto simp: list_ex_iff waiting_clash_def)
    have "find (\<lambda>w. wt_key w = wt_key n) (waits s @ [n]) = Some n" using P(2) new(1) by (intro find_first [where f = wt_key]) auto
    moreover have "ob_owner o1 \<noteq> wt_intent n \<and> ob_key o1 \<noteq> wt_key n" if "o1 \<in> set (wait_outbox s)" for o1
      using that new sets by (metis image_eqI)
    then have "\<not> list_ex (outbox_clash (?b n)) (wait_outbox s)"
      unfolding list_ex_iff outbox_clash_def b by metis
    moreover have "find (\<lambda>o'. ob_owner o' = wt_intent n) (wait_outbox s @ [?b n]) = Some (?b n)"
    proof -
      have "find (\<lambda>o'. ob_owner o' = k) (os @ [o1]) = Some o1" if "k \<notin> ob_owner ` set os" "ob_owner o1 = k" for k os and o1 :: outbox_row
        using that by (induction os) auto
      with new(2) sets(1) b(1) show ?thesis by simp
    qed
    ultimately have s': "s' = s\<lparr>waits := waits s @ [n], wait_outbox := wait_outbox s @ [?b n]\<rparr>" and "strip (ob_log (?b n)) \<noteq> []"
      using assms(2) False b(3) by (auto simp: mark_body_def Let_def split: if_splits)
    then have pub: "wait_published n (?b n)" using b by (simp add: wait_published_def)
    have "zip (waits s @ [n]) (wait_outbox s @ [?b n]) = zip (waits s) (wait_outbox s) @ [(n, ?b n)]"
      using list_all2_lengthD [OF P(1)] by simp
    then have "db_ok E s'" using assms(1) new pub by (auto simp: s' invariant_defs intro!: list_all2_appendI)
    moreover have "grows s s'" by (force simp: s' grows_def)
    ultimately show ?thesis ..
  qed
qed

lemma project_waiting_body_ok:
  assumes "db_ok E s" "project_waiting_body E now (i, path) s = Inr (x, s')"
  shows "db_ok E s' \<and> grows s s'"
proof -
  obtain w o' ps where w: "find (\<lambda>w. wt_intent w = i) (waits s) = Some w"
      and o': "find (\<lambda>o'. ob_owner o' = i) (wait_outbox s) = Some o'" "ob_log o' = path"
      and put: "put_projection (projection_row_of E ''PHS-WAIT-PROJECTION'' ''intent_id'' now i (wt_key w) (wt_hash w) path)
         (wait_receipts s) = Inr (x, ps)" and s': "s' = s\<lparr>wait_receipts := ps\<rparr>"
    using assms(2) by (auto simp: project_waiting_body_def result_simps split: option.splits prod.splits if_splits)
  have P: "list_all2 wait_published (waits s) (wait_outbox s)" "distinct (map wt_intent (waits s))"
    using assms(1) by (simp_all add: invariant_defs)
  have win: "w \<in> set (waits s)" "wt_intent w = i" using find_key [OF w] by auto
  have o2: "o' \<in> set (wait_outbox s)" "ob_owner o' = i" using find_key [OF o'(1)] by auto
  from o2(1) obtain k where k: "k < length (wait_outbox s)" "wait_outbox s ! k = o'" by (auto simp: in_set_conv_nth)
  then have kw: "k < length (waits s)" "wait_published (waits s ! k) o'"
    using P(1) by (auto simp: list_all2_conv_all_nth)
  then have "wt_intent (waits s ! k) = i" using o2(2) by (simp add: wait_published_def)
  then have "waits s ! k = w" using P(2) kw(1) win by (auto simp: distinct_map dest!: inj_onD)
  then have "(w, o') \<in> set (zip (waits s) (wait_outbox s))" using k kw(1) by (force simp: in_set_zip)
  moreover have "wait_projected (w, o') (projection_row_of E kind fld now i (wt_key w) (wt_hash w) path)" for kind fld
    using win(2) o'(2) by (simp add: wait_projected_def projection_row_of_def)
  moreover have "pr_owner (projection_row_of E kind fld now i k h path) = i" for kind fld k h
    by (simp add: projection_row_of_def)
  ultimately have "waits_ok s'"
    using put_projection_result [OF put] assms(1) by (simp add: s' db_ok_def waits_ok_def) (elim disjE; auto)
  moreover have "grows s s'" using put_projection_result [OF put] by (auto simp: s' grows_append)
  ultimately show ?thesis
    using assms(1) by (simp add: s' db_ok_def intents_ok_def ledger_ok_def cases_ok_def projections_ok_def)
qed

lemma block_body_ok: "db_ok E s \<Longrightarrow> block_body now d (code, rid) s = Inr (x, s') \<Longrightarrow> db_ok E s' \<and> grows s s'"
  by (auto simp: block_body_def invariant_defs grows_append split: if_splits)

lemma store_step_ok:
  assumes "db_ok E s"
  shows "db_ok E (store_step E x s) \<and> grows s (store_step E x s)"
proof -
  let ?P = "\<lambda>s'. db_ok E s' \<and> grows s s'"
  note W = write_db_state [where P = ?P]
  have S: "?P s" using assms by simp
  show ?thesis
  proof (cases "the_op x")
    case (DoReceipt i receipt qr)
    have "?P (snd (write_db (by_caller x) (call_works x) (Inr ()) (\<lambda>_ s. rbind (canonical_json (VDict receipt)) (\<lambda>t. receipt_body (at_time x) i t qr s)) s))"
      by (rule W) (use assms receipt_body_ok [OF assms] in \<open>auto simp: result_simps\<close>)
    then show ?thesis
      by (auto simp: store_step_def Let_def DoReceipt record_receipt_def split: prod.splits sum.splits option.splits)
  next
    case DoReopen
    with assms show ?thesis by (simp add: store_step_def Let_def reopen_ok)
  qed (auto simp: store_step_def Let_def prepare_def bind_command_def confirm_completion_checkpoint_def record_error_def
        record_post_review_projection_def mark_phs_replacement_waiting_def record_replacement_waiting_projection_def
        record_exchange_block_def assms
      intro!: W S dest!: prepare_body_ok [OF assms] bind_body_ok [OF assms] confirm_body_ok [OF assms] error_body_ok [OF assms]
        project_case_body_ok [OF assms] mark_body_ok [OF assms] project_waiting_body_ok [OF assms] block_body_ok [OF assms])
qed

interpretation transfer: refining_machine "store_step E" "db_ok E" id grows for E
  by unfold_locales (auto simp: store_step_ok)

subsection \<open>Properties\<close>

lemma grows_run: "db_ok E s \<Longrightarrow> db_ok E (fold (store_step E) xs s) \<and> grows s (fold (store_step E) xs s)"
proof (induction xs arbitrary: s)
  case (Cons x xs)
  from store_step_ok [OF Cons.prems, of x] Cons.IH [of "store_step E x s"] show ?case using grows_trans by auto
qed simp

text \<open>
  C7. The transfer ledger is append-only and consistent: after any calls, every intent has exactly its completion row,
  every review its case with the same outbox row, every projection its source, and reopening succeeds without a
  change; and nothing written is ever changed: the identity of an intent, its command once bound, its checkpoint, its log, and every row of the
  other tables stay.
\<close>

theorem transfer_ledger_append_only:
  "db_ok E (fold (store_step E) xs no_rows) \<and> grows (fold (store_step E) xs no_rows) (fold (store_step E) (xs @ ys) no_rows) \<and>
   initialize_store E True (fold (store_step E) xs no_rows) = (Inr (), fold (store_step E) xs no_rows)"
proof -
  have "db_ok E (fold (store_step E) xs no_rows)" by (rule transfer.run_invar [OF no_rows_ok])
  with grows_run reopen_ok show ?thesis by simp
qed

lemma prepare_result:
  assumes "db_ok E s" "prepare_body E now q p s = Inr (row, s1)" "preview_intent E c q = Inr p"
  shows "\<exists>r. find_intent (ti_id (new_intent E now q p)) s1 = Some r \<and> ti_hash r = pv_hash p \<and> ti_key r = seal_key_of (pv_hash p) \<and>
    ti_lease r = pv_lease p \<and> row = (r, map_option ln_id (find_linked (ti_id r) s1))"
proof -
  let ?n = "new_intent E now q p"
  have L: "ensure_linked_event E r t = Inr u \<Longrightarrow> intents u = intents t" for r t u
    by (auto simp: ensure_linked_event_def Let_def result_simps split: if_splits option.splits)
  obtain s2 r0 r2 where r0: "ti_hash r0 = ti_hash ?n" "ti_key r0 = ti_key ?n" "ti_lease r0 = ti_lease ?n"
    and r2: "find_intent (ti_id ?n) s2 = Some r2" "r2 = r0 \<or> r2 = set_log (ti_log ?n) r0" and e: "ensure_linked_event E r2 s2 = Inr s1"
    and row: "load_in_connection (ti_id ?n) s1 = Some row"
  proof -
    let ?s1 = "if list_ex (intent_clash ?n) (intents s) then s else s\<lparr>intents := intents s @ [?n]\<rparr>"
    obtain r where r: "find_intent (ti_id ?n) ?s1 = Some r" "ti_hash r = ti_hash ?n" "ti_key r = ti_key ?n" "ti_lease r = ti_lease ?n"
      using assms(2) by (auto simp: prepare_body_def Let_def split: option.splits if_splits)
    let ?s2 = "if ti_log r = [] \<and> ti_log ?n \<noteq> [] then update_intent (ti_id ?n) (set_log (ti_log ?n)) ?s1 else ?s1"
    obtain r2 where r2: "find_intent (ti_id ?n) ?s2 = Some r2" "ensure_linked_event E r2 ?s2 = Inr s1" "load_in_connection (ti_id ?n) s1 = Some row"
      using assms(2) r by (auto simp: prepare_body_def Let_def result_simps split: option.splits if_splits)
    have "ti_id (set_log (ti_log ?n) r) = ti_id ?n" using find_intent_in [OF r(1)] by (simp add: set_log_def)
    then have "r2 = r \<or> r2 = set_log (ti_log ?n) r"
      using r2(1) r(1) find_intent_update [OF r(1), of "set_log (ti_log ?n)"] by (auto split: if_splits)
    with r(2-4) r2 show thesis by (intro that)
  qed
  have "find_intent (ti_id ?n) s1 = Some r2" using L [OF e] r2(1) by (simp add: find_intent_def)
  moreover have "ti_id r2 = ti_id ?n" using find_intent_in [OF r2(1)] by simp
  moreover have "ti_hash r2 = pv_hash p \<and> ti_key r2 = seal_key_of (pv_hash p) \<and> ti_lease r2 = pv_lease p"
    using r0 r2(2) by (auto simp: new_intent_def set_log_def)
  ultimately show ?thesis using row by (auto simp: load_in_connection_def)
qed

lemma prepare_known:
  assumes "db_ok E s" "find_intent (ti_id (new_intent E now q p)) s = Some r"
    and "ti_hash r = pv_hash p" "ti_key r = seal_key_of (pv_hash p)" "ti_lease r = pv_lease p"
  shows "\<exists>r' s'. prepare_body E now q p s = Inr ((r', map_option ln_id (find_linked (ti_id r) s)), s') \<and> ti_id r' = ti_id r \<and>
    map ti_id (intents s') = map ti_id (intents s) \<and> ledger s' = ledger s"
proof -
  let ?n = "new_intent E now q p"
  have n: "ti_hash ?n = pv_hash p" "ti_key ?n = seal_key_of (pv_hash p)" "ti_lease ?n = pv_lease p" by (simp_all add: new_intent_def)
  have r: "r \<in> set (intents s)" "ti_id r = ti_id ?n" using find_intent_in [OF assms(2)] by auto
  then have clash: "list_ex (intent_clash ?n) (intents s)" by (auto simp: list_ex_iff intent_clash_def intro!: bexI [of _ r])
  let ?f = "set_log (ti_log ?n)"
  have f: "later t (?f t)" "ti_status (?f t) = ti_status t" "ti_id (?f t) = ti_id t" for t by (simp_all add: later_def set_log_def)
  have "row_ok E (?f t)" if "t \<in> set (intents s)" for t
    using assms(1) that by (auto simp: invariant_defs row_ok_def set_log_def split: option.splits)
  then have ok: "db_ok E (update_intent (ti_id ?n) ?f s)"
    by (intro update_intent_ok [OF assms(1)]) (use f review_has_case [OF assms(1)] in force)+
  define b where "b \<longleftrightarrow> ti_log r = [] \<and> ti_log ?n \<noteq> []"
  define s2 where "s2 = (if b then update_intent (ti_id ?n) ?f s else s)"
  define r2 where "r2 = (if b then ?f r else r)"
  have find2: "find_intent (ti_id ?n) s2 = Some r2"
    using assms(2) find_intent_update [OF assms(2), of ?f] f(3) r(2) by (simp add: s2_def r2_def)
  have "ensure_linked_event E r2 s2 = Inr s2"
    using ensure_linked_known [of E s2 r2] find_intent_in [OF find2] ok assms(1) by (simp add: s2_def)
  then have e: "ensure_linked_event E r2 s2 = Inr s2" .
  have "prepare_body E now q p s = Inr ((r2, map_option ln_id (find_linked (ti_id ?n) s2)), s2)"
  proof (cases b)
    case True
    then have "ti_log r = []" "ti_log ?n \<noteq> []" by (simp_all add: b_def)
    with True clash assms(2-5) n find2 e show ?thesis by (simp add: prepare_body_def Let_def s2_def load_in_connection_def)
  next
    case False
    then have "\<not> (ti_log r = [] \<and> ti_log ?n \<noteq> [])" by (simp add: b_def)
    with False clash assms(2-5) n find2 e show ?thesis
      by (auto simp: prepare_body_def Let_def s2_def load_in_connection_def)
  qed
  moreover have "map ti_id (intents s2) = map ti_id (intents s)"
    using f(3) by (auto simp: s2_def update_intent_def)
  moreover have "ledger s2 = ledger s" "find_linked i s2 = find_linked i s" for i by (simp_all add: s2_def find_linked_def)
  ultimately show ?thesis using r(2) f(3) by (auto simp: r2_def)
qed

lemma find_linked_grows:
  assumes "grows s s'" "find_linked i s = Some l"
  shows "find_linked i s' = Some l"
proof -
  obtain ls where "ledger s' = ledger s @ ls" using assms(1) by (auto simp: grows_def prefix_def)
  moreover have "find P (xs @ ys) = Some x" if "find P xs = Some x" for P :: "linked_row \<Rightarrow> bool" and xs ys x
    using that by (induction xs) auto
  ultimately show ?thesis using assms(2) by (simp add: find_linked_def)
qed

text \<open>
  C8. Preparing a tray again finds its intent: the same label, source, item, scans and lease prepared once more,
  after any calls and restarts and by whatever operator, returns the same intent with the same local completion; no
  intent and no completion row is added.
\<close>

theorem prepare_again_finds_intent:
  assumes "prepare E c True now q (fold (store_step E) xs no_rows) = (Inr row, s1)"
    and "rq_label q' = rq_label q" "rq_source q' = rq_source q" "rq_item q' = rq_item q" "rq_scans q' = rq_scans q" "rq_lease q' = rq_lease q"
    and "is_owner c'" "\<not> is_ui_thread c'"
  shows "\<exists>row' s3. prepare E c' True now' q' (fold (store_step E) ys s1) = (Inr row', s3) \<and>
    ti_id (fst row') = ti_id (fst row) \<and> snd row' = snd row \<and> snd row \<noteq> None \<and>
    map ti_id (intents s3) = map ti_id (intents (fold (store_step E) ys s1)) \<and> ledger s3 = ledger (fold (store_step E) ys s1)"
proof -
  let ?s = "fold (store_step E) xs no_rows" and ?s2 = "fold (store_step E) ys s1"
  have ok: "db_ok E ?s" by (rule transfer.run_invar [OF no_rows_ok])
  obtain p where p: "preview_intent E c q = Inr p" "prepare_body E now q p ?s = Inr (row, s1)"
    using write_db_result [OF assms(1) [unfolded prepare_def]] by auto
  have ok1: "db_ok E s1" using prepare_body_ok [OF ok p] by simp
  have G: "grows s1 ?s2" "db_ok E ?s2" using grows_run [OF ok1] by auto
  let ?i = "ti_id (new_intent E now q p)"
  from prepare_result [OF ok p(2,1)] obtain r where r: "find_intent ?i s1 = Some r" "ti_hash r = pv_hash p" "ti_key r = seal_key_of (pv_hash p)"
      "ti_lease r = pv_lease p" "row = (r, map_option ln_id (find_linked (ti_id r) s1))" by blast
  have ri: "r \<in> set (intents s1)" "ti_id r = ?i" using find_intent_in [OF r(1)] by auto
  obtain l where l: "find_linked (ti_id r) s1 = Some l" using find_linked_row [OF ok1 ri(1)] by blast
  obtain r2 where r2: "r2 \<in> set (intents ?s2)" "later r r2"
  proof -
    obtain olds news where o: "intents ?s2 = olds @ news" "list_all2 later (intents s1) olds" using G(1) by (auto simp: grows_def)
    with ri(1) obtain r2 where "r2 \<in> set olds" "later r r2" by (metis in_set_conv_nth list_all2_conv_all_nth)
    then show thesis by (intro that [of r2]) (simp_all add: o(1))
  qed
  have "distinct (map ti_id (intents ?s2))" using G(2) by (simp add: invariant_defs)
  then have "find_intent (ti_id r2) ?s2 = Some r2" unfolding find_intent_def using r2(1) by (rule find_first)
  moreover have "ti_id (new_intent E now' q' p) = ?i" by (simp add: new_intent_def)
  ultimately have f: "find_intent (ti_id (new_intent E now' q' p)) ?s2 = Some r2" using r2(2) ri(2) by (simp add: later_def)
  have "ti_hash r2 = pv_hash p" "ti_key r2 = seal_key_of (pv_hash p)" "ti_lease r2 = pv_lease p" "ti_id r2 = ti_id r"
    using r2(2) r(2-4) by (simp_all add: later_def)
  with prepare_known [OF G(2) f] find_linked_grows [OF G(1) l] obtain r' s3 where
    "prepare_body E now' q' p ?s2 = Inr ((r', Some (ln_id l)), s3)" "ti_id r' = ti_id r"
    "map ti_id (intents s3) = map ti_id (intents ?s2)" "ledger s3 = ledger ?s2" by auto
  moreover have "preview_intent E c' q' = Inr p"
    using p(1) assms(8) unfolding preview_intent_def assms(2-6) by (simp split: if_splits)
  ultimately show ?thesis using assms(7,8) r(5) l by (simp add: prepare_def write_db_def)
qed

subsection \<open>A concrete tray\<close>

lemma prepare_first:
  assumes "preview_intent E c q = Inr p" "is_owner c" "\<not> is_ui_thread c" "\<And>t. loads E t = Some v" "nan_free v"
  shows "\<exists>l. prepare E c True now q no_rows =
    (Inr (new_intent E now q p, Some (ln_id l)), no_rows\<lparr>intents := [new_intent E now q p], ledger := [l]\<rparr>)"
proof -
  let ?n = "new_intent E now q p"
  have "\<not> isl (linked_row_of E ?n)"
    using assms(4,5) by (simp add: linked_row_of_def linked_event_payload_def canonical_json_def dumps_strict_def del: dumps.simps)
  then obtain l where l: "linked_row_of E ?n = Inr l" by (metis isl_def sum.exhaust_sel)
  then have i: "ln_intent l = ti_id ?n" by (auto simp: linked_row_of_def result_simps)
  show ?thesis
    using assms(1-3) l i
    by (intro exI [of _ l]) (simp add: prepare_def write_db_def prepare_body_def Let_def ensure_linked_event_def find_intent_def
        find_linked_def no_rows_def load_in_connection_def same_linked_def)
qed

definition demo_command :: "(string, pyval) dict" where
  "demo_command = [(''idempotency_key'', VStr ''container-seal:h''), (''payload'', VDict [(''member_ids'', VList [VStr ''u1''])])]"

definition demo_store :: store_env where
  "demo_store = \<lparr>nfkc = (\<lambda>t. t), digest_of = (\<lambda>t. ''h''), loads = (\<lambda>t. Some (VDict demo_command)), abspath = (\<lambda>p. p)\<rparr>"

definition demo_caller :: caller where
  "demo_caller = \<lparr>is_owner = True, is_ui_thread = False\<rparr>"

definition demo_request :: transfer_request where
  "demo_request = \<lparr>rq_label = ''LOT7'', rq_source = [], rq_item = ''AB'', rq_operator = ''kim'', rq_scans = [''AB-1''], rq_log = [],
     rq_lease = [], rq_checkpoint = False\<rparr>"

definition demo_preview :: intent_preview where
  "demo_preview = \<lparr>pv_label = ''LOT7'', pv_source = [], pv_item = ''AB'', pv_scans = [''AB-1''], pv_lease = [], pv_hash = ''h''\<rparr>"

lemma demo_environment [simp]:
  "is_owner demo_caller" "\<not> is_ui_thread demo_caller" "loads demo_store t = Some (VDict demo_command)" "nan_free (VDict demo_command)"
  by (simp_all add: demo_caller_def demo_store_def demo_command_def)

theorem prepare_again_finds_intent_witness:
  "\<exists>row s1 row' s3. prepare demo_store demo_caller True ''t1'' demo_request no_rows = (Inr row, s1) \<and>
     prepare demo_store demo_caller True ''t2'' (demo_request\<lparr>rq_operator := ''lee''\<rparr>) s1 = (Inr row', s3) \<and>
     ti_id (fst row') = ti_id (fst row) \<and> ledger s3 = ledger s1"
proof -
  have "preview_intent demo_store demo_caller demo_request = Inr demo_preview"
    by (simp add: preview_intent_def Let_def demo_request_def demo_preview_def normalize_identifier_def normalize_barcode_def strip_def
        lstrip_def rstrip_def is_space_def sha256_of_def demo_store_def upper_def upper_char_def del: dumps.simps)
  from prepare_first [OF this demo_environment] obtain row s1 where
    p: "prepare demo_store demo_caller True ''t1'' demo_request no_rows = (Inr row, s1)" by blast
  then have "prepare demo_store demo_caller True ''t1'' demo_request (fold (store_step demo_store) [] no_rows) = (Inr row, s1)" by simp
  from prepare_again_finds_intent [OF this, of "demo_request\<lparr>rq_operator := ''lee''\<rparr>" demo_caller "''t2''" "[]"] p
  show ?thesis by auto
qed

end
