(* ===== verification/Transfer_Seal.thy ===== *)
theory Transfer_Seal
  imports Transfer_Ledger
begin

text \<open>
  \<open>TransferSealCoordinator\<close> of \<open>transfer_seal.py\<close>: preparing, attempting, rechecking and retrying the transfer of
  a tray, and draining what is pending.

  One attempt reads a row, builds and binds its command, sends it and records the receipt or the error. What the
  outside does in an attempt is the record \<open>world\<close>: the built command or the exception of \<open>_build_command\<close>, the verdict of
  the operation lease, the reply of the server, whether the transactions work, and where the program stops, if
  it does. \<open>validate\<close> is \<open>_validate_receipt\<close>. The commands handed to the client are collected in \<open>sent\<close>.
\<close>

subsection \<open>The source of a label\<close>

definition text_of :: "(string, pyval) dict \<Rightarrow> string \<Rightarrow> string" where
  "text_of d k = strip (str_or_empty (vget d k))"

text \<open>\<open>str(d.get(a) or d.get(b) or "").strip()\<close>\<close>

definition first_text :: "(string, pyval) dict \<Rightarrow> string list \<Rightarrow> string" where
  "first_text d ks = (case filter (\<lambda>k. truthy (vget d k)) ks of [] \<Rightarrow> [] | k # _ \<Rightarrow> strip (py_str (vget d k)))"

definition source_identity_from_label :: "(string, pyval) dict \<Rightarrow> (string, pyval) dict" where
  "source_identity_from_label d =
     (let clc = text_of d ''CLC''; item_alias = first_text d [''ITEM'', ''ITEM_CODE''];
          item = (if upper clc = ''INSPECTION'' \<and> item_alias \<noteq> [] then item_alias else if clc \<noteq> [] then clc else item_alias);
          input_tag = text_of d ''ITG''; kind = text_of d ''SRC'';
          hash_prefix = (if text_of d ''PHS'' = ''2'' \<and> upper kind = ''KMTECH_INPUT_TAG'' then lower (text_of d ''HSH'') else []);
          work_order = first_text d [''WID'', ''WORK_ORDER_ID''];
          is_input_tag = (upper kind = ''KMTECH_INPUT_TAG'' \<or> input_tag \<noteq> []);
          external = (let v = vget d ''PHS_EXTERNAL_ID'' in if truthy v then strip (py_str v) else strip work_order)
      in [(''source_bundle_id'', VStr (first_text d [''BND'', ''BUNDLE_ID'', ''SOURCE_BUNDLE_ID''])),
          (''input_tag_id'', VStr input_tag), (''input_tag_label_id'', VStr (text_of d ''LBL'')),
          (''input_tag_hash_prefix'', VStr hash_prefix), (''compat_work_order_id'', VStr work_order), (''source_kind'', VStr kind),
          (''external_label'', VStr (if is_input_tag then [] else external)),
          (''authority_scope_id'', VStr (first_text d [''AUTH_SCOPE'', ''AUTHORITY_SCOPE_ID''])), (''item_id'', VStr item)])"

subsection \<open>Errors\<close>

datatype raised = SealRaised seal_error | OtherRaised

definition seal_error_of :: "string \<Rightarrow> bool \<Rightarrow> seal_error" where
  "seal_error_of code retryable = \<lparr>err_code = code, err_message = code, err_status = 0, err_retryable = retryable\<rparr>"

text \<open>Both guards raise subclasses of \<open>TransferSealError\<close>; the other errors of the store are no such error.\<close>

definition raised_by_store :: "store_error \<Rightarrow> raised" where
  "raised_by_store e =
     (case e of
        OwnerViolation \<Rightarrow> SealRaised (seal_error_of ''TRANSFER_COORDINATOR_OWNER_VIOLATION'' False)
      | UiThreadRead \<Rightarrow> SealRaised (seal_error_of ''TRANSFER_COORDINATOR_UI_THREAD_READ'' False)
      | _ \<Rightarrow> OtherRaised)"

definition as_raised :: "store_error + 'a \<Rightarrow> raised + 'a" where
  "as_raised r = (case r of Inl e \<Rightarrow> Inl (raised_by_store e) | Inr x \<Rightarrow> Inr x)"

text \<open>The error that is recorded for an exception.\<close>

definition recorded_error :: "raised \<Rightarrow> seal_error" where
  "recorded_error r = (case r of SealRaised e \<Rightarrow> e | OtherRaised \<Rightarrow> seal_error_of ''LOCAL_TRANSFER_SEAL_ERROR'' True)"

subsection \<open>One attempt\<close>

datatype stop_point = Runs | StopsBeforeSending | StopsAfterSending

record world =
  w_now :: string
  built :: "raised + (string, pyval) dict"
  bind_works :: bool
  lease_verdict :: "raised + unit"
  has_client :: bool
  reply :: "raised + (string, pyval) dict"
  lease_recorded :: "raised + unit"
  receipt_works :: bool
  error_works :: bool
  stops :: stop_point

record seal_env =
  store_lib :: store_env
  validate :: "(string, pyval) dict \<Rightarrow> (string, pyval) dict \<Rightarrow> raised + (string, pyval) dict"

type_synonym sending = "string \<times> string"

definition context_of :: "seal_env \<Rightarrow> intent_row \<Rightarrow> raised + (string, pyval) dict" where
  "context_of E r =
     (case ti_command_json r of
        None \<Rightarrow> Inl OtherRaised
      | Some t \<Rightarrow> (case loads (store_lib E) t of Some (VDict d) \<Rightarrow> Inr d | _ \<Rightarrow> Inl OtherRaised))"

definition validate_bound_command :: "seal_env \<Rightarrow> world \<Rightarrow> intent_row \<Rightarrow> (string, pyval) dict \<Rightarrow> raised + unit" where
  "validate_bound_command E W r context =
     rbind (as_raised (canonical_json (VDict context))) (\<lambda>t.
       if Some t \<noteq> ti_command_json r \<or> Some (digest_of (store_lib E) t) \<noteq> ti_command_hash r \<or>
          str_or_empty (vget context ''idempotency_key'') \<noteq> ti_key r
       then Inl (SealRaised (seal_error_of ''TRANSFER_COMMAND_INTEGRITY_MISMATCH'' False))
       else if strip (ti_lease r) = [] then Inr () else lease_verdict W)"

definition seal_qr_of :: "(string, pyval) dict \<Rightarrow> raised + string" where
  "seal_qr_of d =
     (let qr = text_of d ''seal_qr_payload''
      in if qr = [] then Inl (SealRaised (seal_error_of ''RECEIPT_MEMBERSHIP_MISMATCH'' False)) else Inr qr)"

text \<open>What is checked before a receipt is recorded.\<close>

definition accepted_receipt ::
  "seal_env \<Rightarrow> world \<Rightarrow> intent_row \<Rightarrow> (string, pyval) dict \<Rightarrow> raised + (string, pyval) dict \<Rightarrow> raised + (string, pyval) dict \<times> string" where
  "accepted_receipt E W r context answer =
     rbind answer (\<lambda>receipt. rbind (validate E context receipt) (\<lambda>d. rbind (seal_qr_of d) (\<lambda>qr.
       rbind (if strip (ti_lease r) = [] then Inr () else lease_recorded W) (\<lambda>_. Inr (receipt, qr)))))"

datatype outcome = Stopped | Crashed | Failed store_error | Refused seal_error | Got loaded_row

definition settle_error :: "seal_env \<Rightarrow> caller \<Rightarrow> world \<Rightarrow> string \<Rightarrow> raised \<Rightarrow> transfer_db \<Rightarrow> outcome \<times> transfer_db" where
  "settle_error E c W i x s =
     (case record_error (store_lib E) c (error_works W) (w_now W) i (recorded_error x) s of
        (Inl e, s') \<Rightarrow> (Failed e, s')
      | (Inr row, s') \<Rightarrow> (Got row, s'))"

definition bound_command ::
  "seal_env \<Rightarrow> caller \<Rightarrow> world \<Rightarrow> intent_row \<Rightarrow> transfer_db \<Rightarrow> (raised + intent_row) \<times> transfer_db" where
  "bound_command E c W r s =
     (if ti_command_json r \<noteq> None then (Inr r, s)
      else case built W of
          Inl x \<Rightarrow> (Inl x, s)
        | Inr ctx \<Rightarrow>
            (case bind_command (store_lib E) c (bind_works W) (w_now W) (ti_id r) ctx s of
               (Inl e, s') \<Rightarrow> (Inl (raised_by_store e), s')
             | (Inr row, s') \<Rightarrow> (Inr (fst row), s')))"

definition ready_context :: "seal_env \<Rightarrow> world \<Rightarrow> intent_row \<Rightarrow> raised + (string, pyval) dict" where
  "ready_context E W r =
     rbind (context_of E r) (\<lambda>context. rbind (validate_bound_command E W r context) (\<lambda>_.
       if has_client W then Inr context else Inl (SealRaised (seal_error_of ''LOGISTICS_CLIENT_NOT_CONFIGURED'' True))))"

definition send_command ::
  "seal_env \<Rightarrow> caller \<Rightarrow> world \<Rightarrow> intent_row \<Rightarrow> (string, pyval) dict \<Rightarrow> transfer_db \<Rightarrow> outcome \<times> transfer_db" where
  "send_command E c W r context s =
     (if stops W = StopsAfterSending then (Stopped, s)
      else case accepted_receipt E W r context (reply W) of
          Inl x \<Rightarrow> settle_error E c W (ti_id r) x s
        | Inr (receipt, qr) \<Rightarrow>
            (case record_receipt (store_lib E) c (receipt_works W) (w_now W) (ti_id r) receipt qr s of
               (Inl e, s') \<Rightarrow> settle_error E c W (ti_id r) (raised_by_store e) s'
             | (Inr row, s') \<Rightarrow> (Got row, s')))"

definition attempt_row :: "seal_env \<Rightarrow> caller \<Rightarrow> world \<Rightarrow> intent_row \<Rightarrow> transfer_db \<Rightarrow> outcome \<times> transfer_db \<times> sending list" where
  "attempt_row E c W r s =
     (if \<not> is_owner c then (Refused (seal_error_of ''TRANSFER_COORDINATOR_OWNER_VIOLATION'' False), s, [])
      else case bound_command E c W r s of
          (Inl x, s1) \<Rightarrow> (case settle_error E c W (ti_id r) x s1 of (o', s2) \<Rightarrow> (o', s2, []))
        | (Inr r1, s1) \<Rightarrow>
            if stops W = StopsBeforeSending then (Stopped, s1, [])
            else (case ready_context E W r1 of
                Inl x \<Rightarrow> (case settle_error E c W (ti_id r) x s1 of (o', s2) \<Rightarrow> (o', s2, []))
              | Inr context \<Rightarrow> (case send_command E c W r1 context s1 of
                  (o', s2) \<Rightarrow> (o', s2, [(ti_id r1, dumps (VDict context))]))))"

definition attempt :: "seal_env \<Rightarrow> caller \<Rightarrow> bool \<Rightarrow> world \<Rightarrow> string \<Rightarrow> transfer_db \<Rightarrow> outcome \<times> transfer_db \<times> sending list" where
  "attempt E c works W i s =
     (if \<not> is_owner c then (Refused (seal_error_of ''TRANSFER_COORDINATOR_OWNER_VIOLATION'' False), s, [])
      else case load_intent c works i s of
          Inl e \<Rightarrow> (Failed e, s, [])
        | Inr (r, l) \<Rightarrow>
            if \<not> ti_confirmed r then (Refused (seal_error_of ''DURABLE_COMPLETION_CHECKPOINT_REQUIRED'' True), s, [])
            else if ti_status r = ACKED \<or> ti_status r = OPERATOR_REVIEW then (Got (r, l), s, [])
            else attempt_row E c W r s)"

subsection \<open>Reviewed intents\<close>

text \<open>Only the receipt of the original key is read; \<open>reply\<close> is \<^term>\<open>Inr []\<close> for no receipt.\<close>

definition recheck_operator_review_receipt ::
  "seal_env \<Rightarrow> caller \<Rightarrow> bool \<Rightarrow> world \<Rightarrow> string \<Rightarrow> transfer_db \<Rightarrow> outcome \<times> transfer_db" where
  "recheck_operator_review_receipt E c works W i s =
     (if \<not> is_owner c then (Refused (seal_error_of ''TRANSFER_COORDINATOR_OWNER_VIOLATION'' False), s)
      else case load_intent c works i s of
          Inl e \<Rightarrow> (Failed e, s)
        | Inr (r, l) \<Rightarrow>
            if ti_status r \<noteq> OPERATOR_REVIEW \<or> ti_command_json r \<in> {None, Some []} then (Got (r, l), s)
            else (case ready_context E W r of
                Inl _ \<Rightarrow> (Got (r, l), s)
              | Inr context \<Rightarrow>
                  if reply W = Inr [] then (Got (r, l), s)
                  else (case accepted_receipt E W r context (reply W) of
                      Inl _ \<Rightarrow> (Got (r, l), s)
                    | Inr (receipt, qr) \<Rightarrow>
                        (case record_receipt (store_lib E) c (receipt_works W) (w_now W) i receipt qr s of
                           (Inl e, s') \<Rightarrow> (Got (r, l), s')
                         | (Inr row, s') \<Rightarrow> (Got row, s')))))"

record supervision =
  supervisor :: string
  authorized :: bool
  audit_kept :: bool
  still_authorized :: bool

definition retry_operator_review ::
  "seal_env \<Rightarrow> caller \<Rightarrow> bool \<Rightarrow> supervision \<Rightarrow> world \<Rightarrow> string \<Rightarrow> transfer_db \<Rightarrow> outcome \<times> transfer_db \<times> sending list" where
  "retry_operator_review E c works A W i s =
     (let refuse = (\<lambda>code. (Refused (seal_error_of code False), s, [])) in
      if \<not> is_owner c then refuse ''TRANSFER_COORDINATOR_OWNER_VIOLATION''
      else if strip (supervisor A) = [] \<or> \<not> authorized A then refuse ''SUPERVISOR_AUTHORIZATION_REQUIRED''
      else case load_intent c works i s of
          Inl e \<Rightarrow> (Failed e, s, [])
        | Inr (r, l) \<Rightarrow>
            if ti_status r \<noteq> OPERATOR_REVIEW \<or> \<not> ti_confirmed r \<or> l \<in> {None, Some []} \<or> ti_command_json r \<in> {None, Some []} \<or>
               ti_receipt_json r \<noteq> None \<or> ti_seal_qr r \<noteq> None
            then refuse ''TRANSFER_REVIEW_RETRY_NOT_AVAILABLE''
            else (case rbind (context_of E r) (validate_bound_command E W r) of
                Inl (SealRaised e) \<Rightarrow> (Refused e, s, [])
              | Inl OtherRaised \<Rightarrow> (Crashed, s, [])
              | Inr _ \<Rightarrow>
                  (case post_review_case_for_intent (store_lib E) c works i s of
                     Inl e \<Rightarrow> (Failed e, s, [])
                   | Inr (x, o') \<Rightarrow>
                       if Some (rc_completion x) \<noteq> l then refuse ''TRANSFER_COMMAND_INTEGRITY_MISMATCH''
                       else if \<not> audit_kept A then refuse ''TRANSFER_REVIEW_AUDIT_REQUIRED''
                       else if \<not> still_authorized A then refuse ''SUPERVISOR_AUTHORIZATION_REQUIRED''
                       else attempt_row E c W r s)))"

subsection \<open>Draining\<close>

text \<open>The loop over the pending ids: it ends at the first exception, and before an id that may not be attempted.\<close>

fun drain_ids ::
  "seal_env \<Rightarrow> caller \<Rightarrow> bool \<Rightarrow> (string \<Rightarrow> world) \<Rightarrow> (string \<Rightarrow> bool) \<Rightarrow> (string \<Rightarrow> bool) \<Rightarrow> string list \<Rightarrow> transfer_db \<Rightarrow>
     transfer_db \<times> sending list" where
  "drain_ids E c works W may is_last [] s = (s, [])"
| "drain_ids E c works W may is_last (i # is) s =
     (if \<not> may i then (s, [])
      else case attempt E c works (W i) i s of
          (Got row, s1, out) \<Rightarrow>
            if is_last i then (s1, out)
            else (case drain_ids E c works W may is_last is s1 of (s2, out') \<Rightarrow> (s2, out @ out'))
        | (_, s1, out) \<Rightarrow> (s1, out))"

definition drain_pending ::
  "seal_env \<Rightarrow> caller \<Rightarrow> bool \<Rightarrow> (string \<Rightarrow> world) \<Rightarrow> (string \<Rightarrow> bool) \<Rightarrow> transfer_db \<Rightarrow> transfer_db \<times> sending list" where
  "drain_pending E c works W may s =
     (if \<not> is_owner c then (s, [])
      else case pending_ids c works s of Inl e \<Rightarrow> (s, []) | Inr is \<Rightarrow> drain_ids E c works W may (\<lambda>_. False) is s)"

definition drain_pending_through ::
  "seal_env \<Rightarrow> caller \<Rightarrow> bool \<Rightarrow> (string \<Rightarrow> world) \<Rightarrow> string \<Rightarrow> transfer_db \<Rightarrow> transfer_db \<times> sending list" where
  "drain_pending_through E c works W i s =
     (if \<not> is_owner c then (s, [])
      else case load_intent c works i s of
          Inl e \<Rightarrow> (s, [])
        | Inr (r, l) \<Rightarrow>
            if ti_status r \<notin> set PENDING_STATUSES then (s, [])
            else (case pending_ids c works s of
                Inl e \<Rightarrow> (s, [])
              | Inr is \<Rightarrow> drain_ids E c works W (\<lambda>_. True) (\<lambda>j. j = i) is s))"

subsection \<open>Preparing\<close>

text \<open>\<open>verified\<close> is the verdict on the lease before the row is written, \<open>lease_kept\<close> the record of the local completion.\<close>

definition prepared_request :: "(string, pyval) dict \<Rightarrow> transfer_request \<Rightarrow> transfer_request" where
  "prepared_request label_fields q =
     (let src = source_identity_from_label label_fields
      in q\<lparr>rq_source := (if vget src ''item_id'' = VStr [] then dset ''item_id'' (VStr (strip (rq_item q))) src else src),
           rq_lease := strip (rq_lease q)\<rparr>)"

definition prepare_transfer ::
  "seal_env \<Rightarrow> caller \<Rightarrow> bool \<Rightarrow> string \<Rightarrow> raised + unit \<Rightarrow> raised + unit \<Rightarrow> (string, pyval) dict \<Rightarrow> transfer_request \<Rightarrow> transfer_db \<Rightarrow>
     outcome \<times> transfer_db" where
  "prepare_transfer E c works now verified lease_kept label_fields q s =
     (if \<not> is_owner c then (Refused (seal_error_of ''TRANSFER_COORDINATOR_OWNER_VIOLATION'' False), s)
      else case (if strip (rq_lease q) = [] then Inr () else verified) of
          Inl (SealRaised e) \<Rightarrow> (Refused e, s)
        | Inl OtherRaised \<Rightarrow> (Crashed, s)
        | Inr _ \<Rightarrow>
            (case prepare (store_lib E) c works now (prepared_request label_fields q) s of
               (Inl e, s') \<Rightarrow> (Failed e, s')
             | (Inr row, s') \<Rightarrow>
                 (case (if strip (rq_lease q) = [] then Inr () else lease_kept) of
                    Inl (SealRaised e) \<Rightarrow> (Refused e, s')
                  | Inl OtherRaised \<Rightarrow> (Crashed, s')
                  | Inr _ \<Rightarrow> (Got row, s'))))"

end
