(* ===== verification/Transfer_Runs.thy ===== *)
theory Transfer_Runs
  imports Transfer_Seal
begin

text \<open>
  Runs of the coordinator of \<open>Transfer_Seal\<close>: calls in any order with any replies, failures, stops and
  restarts. An intent is sent one command only, its acknowledgement is final and backed by a validated receipt, and
  after a review only a supervisor can have it sent again.
\<close>

subsection \<open>Calls\<close>

datatype transfer_op =
    TPrepare "raised + unit" "raised + unit" "(string, pyval) dict" transfer_request
  | TConfirm string
  | TAttempt string world
  | TRecheck string world
  | TRetry string world supervision
  | TDrain "string \<Rightarrow> world" "string \<Rightarrow> bool"
  | TDrainThrough string "string \<Rightarrow> world"
  | TProjectCase string string
  | TMarkWaiting waiting_request
  | TProjectWaiting string string
  | TBlock string "(string, pyval) dict"
  | TReopen

record transfer_call =
  tc_caller :: caller
  tc_works :: bool
  tc_now :: string
  tc_op :: transfer_op

definition transfer_step :: "seal_env \<Rightarrow> transfer_call \<Rightarrow> transfer_db \<Rightarrow> transfer_db \<times> sending list" where
  "transfer_step E x s =
     (let c = tc_caller x; w = tc_works x; now = tc_now x; L = store_lib E in
      case tc_op x of
        TPrepare v k fs q \<Rightarrow> (snd (prepare_transfer E c w now v k fs q s), [])
      | TConfirm i \<Rightarrow> (snd (confirm_completion_checkpoint L c w now i s), [])
      | TAttempt i W \<Rightarrow> snd (attempt E c w W i s)
      | TRecheck i W \<Rightarrow> (snd (recheck_operator_review_receipt E c w W i s), [])
      | TRetry i W A \<Rightarrow> snd (retry_operator_review E c w A W i s)
      | TDrain W may \<Rightarrow> drain_pending E c w W may s
      | TDrainThrough i W \<Rightarrow> drain_pending_through E c w W i s
      | TProjectCase i p \<Rightarrow> (snd (record_post_review_projection L c w now i p s), [])
      | TMarkWaiting q \<Rightarrow> (snd (mark_phs_replacement_waiting L c w now q s), [])
      | TProjectWaiting i p \<Rightarrow> (snd (record_replacement_waiting_projection L c w now i p s), [])
      | TBlock r d \<Rightarrow> (snd (record_exchange_block L c w now r d s), [])
      | TReopen \<Rightarrow> (snd (initialize_store L w s), []))"

fun run_transfer :: "seal_env \<Rightarrow> transfer_call list \<Rightarrow> transfer_db \<Rightarrow> transfer_db \<times> sending list" where
  "run_transfer E [] s = (s, [])"
| "run_transfer E (x # xs) s =
     (case transfer_step E x s of (s1, out) \<Rightarrow> (case run_transfer E xs s1 of (s2, out') \<Rightarrow> (s2, out @ out')))"

subsection \<open>What a run keeps\<close>

definition backed :: "seal_env \<Rightarrow> intent_row \<Rightarrow> bool" where
  "backed E r \<longleftrightarrow> (ti_status r = ACKED \<longrightarrow> (\<exists>ctx receipt d qr.
     context_of E r = Inr ctx \<and> validate E ctx receipt = Inr d \<and> seal_qr_of d = Inr qr \<and>
     ti_receipt_json r = Some (dumps (VDict receipt)) \<and> ti_seal_qr r = Some qr))"

definition settled :: "intent_row \<Rightarrow> intent_row \<Rightarrow> bool" where
  "settled r r' \<longleftrightarrow> ti_id r' = ti_id r \<and>
     (ti_status r = ACKED \<longrightarrow> ti_status r' = ACKED \<and> ti_receipt_json r' = ti_receipt_json r \<and> ti_seal_qr r' = ti_seal_qr r) \<and>
     (ti_status r = OPERATOR_REVIEW \<longrightarrow> ti_status r' = OPERATOR_REVIEW \<or> ti_status r' = ACKED) \<and>
     (\<forall>t. ti_command_json r = Some t \<longrightarrow> ti_command_json r' = Some t)"

definition good :: "seal_env \<Rightarrow> transfer_db \<Rightarrow> bool" where
  "good E s \<longleftrightarrow> db_ok (store_lib E) s \<and> (\<forall>r \<in> set (intents s). backed E r)"

definition settles :: "transfer_db \<Rightarrow> transfer_db \<Rightarrow> bool" where
  "settles s s' \<longleftrightarrow> (\<forall>r \<in> set (intents s). \<exists>r' \<in> set (intents s'). settled r r')"

definition moves :: "seal_env \<Rightarrow> transfer_db \<Rightarrow> transfer_db \<Rightarrow> bool" where
  "moves E s s' \<longleftrightarrow> good E s' \<and> settles s s'"

definition sent_ok :: "transfer_db \<Rightarrow> sending list \<Rightarrow> bool" where
  "sent_ok s out \<longleftrightarrow> (\<forall>(i, t) \<in> set out. \<exists>r \<in> set (intents s). ti_id r = i \<and> ti_command_json r = Some t)"

lemma settled_refl [simp]: "settled r r"
  by (simp add: settled_def)

lemma settled_trans: "settled a b \<Longrightarrow> settled b c \<Longrightarrow> settled a c"
  by (auto simp: settled_def)

lemma settles_refl [simp]: "settles s s"
  by (auto simp: settles_def intro: settled_refl)

lemma settles_trans: "settles s t \<Longrightarrow> settles t u \<Longrightarrow> settles s u"
  unfolding settles_def using settled_trans by meson

lemma moves_refl: "good E s \<Longrightarrow> moves E s s"
  by (simp add: moves_def)

lemma moves_trans: "moves E s t \<Longrightarrow> moves E t u \<Longrightarrow> moves E s u"
  unfolding moves_def using settles_trans by blast

lemma sent_ok_settles: "sent_ok s out \<Longrightarrow> settles s s' \<Longrightarrow> sent_ok s' out"
  unfolding sent_ok_def settles_def settled_def by fastforce

lemma sent_ok_append: "sent_ok s (a @ b) \<longleftrightarrow> sent_ok s a \<and> sent_ok s b"
  by (simp add: sent_ok_def ball_Un)

lemma sent_ok_Nil [simp]: "sent_ok s []"
  by (simp add: sent_ok_def)

lemma moves_same_intents:
  assumes "good E s" "db_ok (store_lib E) s'" "intents s' = intents s"
  shows "moves E s s'"
  using assms by (auto simp: moves_def good_def settles_def intro: settled_refl)

text \<open>One row is updated.\<close>

lemma moves_update:
  assumes "good E s" "db_ok (store_lib E) s'" "intents s' = intents (update_intent i f s)"
    and "\<And>r. r \<in> set (intents s) \<Longrightarrow> ti_id r = i \<Longrightarrow> settled r (f r) \<and> backed E (f r)"
  shows "moves E s s'"
proof -
  have "\<forall>r \<in> set (intents s'). backed E r"
    using assms(1,4) by (auto simp: assms(3) update_intent_def good_def)
  moreover have "settles s s'"
    unfolding settles_def
  proof
    fix r assume r: "r \<in> set (intents s)"
    then have "(if ti_id r = i then f r else r) \<in> set (intents s')" by (auto simp: assms(3) update_intent_def)
    then show "\<exists>r' \<in> set (intents s'). settled r r'" using assms(4) r by (metis settled_refl)
  qed
  ultimately show ?thesis using assms(2) by (simp add: moves_def good_def)
qed

subsection \<open>The store under the coordinator\<close>

lemma store_moves_ok:
  assumes "good E s"
  shows "db_ok (store_lib E) (store_step (store_lib E) x s)"
  using assms store_step_ok by (auto simp: good_def)

lemma write_db_cases:
  obtains (same) e where "write_db c works args body s = (Inl e, s)"
  | (committed) p x s' where "args = Inr p" "body p s = Inr (x, s')" "write_db c works args body s = (Inr x, s')"
  using write_db_result [of c works args body s] by (metis isl_def surj_pair)

lemma one_row: "good E s \<Longrightarrow> find_intent i s = Some r \<Longrightarrow> r' \<in> set (intents s) \<Longrightarrow> ti_id r' = i \<Longrightarrow> r' = r"
  using find_intent_in intent_with_id by (metis good_def)

lemma bind_moves:
  assumes "good E s" "find_intent i s = Some r" "ti_status r \<noteq> OPERATOR_REVIEW \<or> ti_command_json r \<noteq> None"
    and "bind_command (store_lib E) c works now i ctx s = (res, s')"
  shows "moves E s s' \<and> (\<exists>r1. find_intent i s' = Some r1 \<and> (ti_status r1 = ti_status r \<or> ti_status r1 = COMMAND_READY) \<and>
     (\<forall>row. res = Inr row \<longrightarrow> fst row = r1))"
  using write_db_cases [of c works "rbind (normalize_identifier (store_lib E) ''idempotency_key'' (vget ctx ''idempotency_key''))
     (\<lambda>cid. rbind (canonical_json (VDict ctx)) (\<lambda>t. Inr (cid, t)))" "bind_body (store_lib E) now i" s]
proof cases
  case same
  then have "s' = s" "isl res" using assms(4) by (auto simp: bind_command_def)
  with assms(1,2) show ?thesis by (auto intro: moves_refl)
next
  case (committed p x s1)
  obtain cid t where p: "p = (cid, t)" by (cases p)
  have s1: "s' = s1" "res = Inr x" using committed(3) assms(4) by (simp_all add: bind_command_def)
  note body = committed(2) [unfolded p]
  have ok: "db_ok (store_lib E) s'" using bind_body_ok [OF _ body] assms(1) s1(1) by (simp add: good_def)
  have r: "ti_id r = i" "r \<in> set (intents s)" using find_intent_in [OF assms(2)] by auto
  show ?thesis
  proof (cases "ti_command_json r")
    case None
    have st: "ti_status r \<noteq> ACKED"
    proof
      assume "ti_status r = ACKED"
      then have "\<exists>ctx. context_of E r = Inr ctx" using assms(1) r by (auto simp: good_def backed_def)
      with None show False by (simp add: context_of_def)
    qed
    have u: "s' = update_intent i (bound_row (store_lib E) now cid t) s"
      using body assms(2) None s1(1) by (auto simp: bind_body_def result_simps split: option.splits if_splits)
    have new: "find_intent i s' = Some (bound_row (store_lib E) now cid t r)"
      unfolding u by (rule find_intent_update [OF assms(2)]) (simp add: bound_row_def r(1))
    have "settled r (bound_row (store_lib E) now cid t r) \<and> backed E (bound_row (store_lib E) now cid t r)"
      using st assms(3) None by (auto simp: settled_def bound_row_def backed_def)
    then have "moves E s s'"
      by (intro moves_update [OF assms(1) ok, of i]) (use one_row [OF assms(1,2)] u in auto)
    moreover have "fst x = bound_row (store_lib E) now cid t r"
      using body new s1(1) by (auto simp: bind_body_def load_in_connection_def result_simps split: option.splits if_splits)
    ultimately show ?thesis using new s1(2) by (auto simp: bound_row_def)
  next
    case (Some u)
    then have "s' = s" "fst x = r"
      using body assms(2) s1(1) by (auto simp: bind_body_def load_in_connection_def result_simps split: option.splits if_splits)
    with assms(1,2) s1(2) show ?thesis by (auto intro: moves_refl)
  qed
qed

lemma error_body_intents:
  assumes "error_body E now i e s = Inr (x, s')"
  shows "intents s' = intents (update_intent i (failed_row now (error_status e (find_intent i s)) e) s)"
proof -
  have "ensure_post_review_case E now row e t = Inr u \<Longrightarrow> intents u = intents t" for row t u
    by (auto simp: ensure_post_review_case_def Let_def split: option.splits if_splits)
  then show ?thesis
    using assms by (auto simp: error_body_def Let_def result_simps split: option.splits if_splits)
qed

lemma error_moves:
  assumes "good E s" "find_intent i s = Some r" "ti_status r \<noteq> ACKED"
  shows "moves E s (snd (record_error (store_lib E) c works now i e s))"
  using write_db_cases [of c works "Inr ()" "\<lambda>_. error_body (store_lib E) now i e" s]
proof cases
  case same
  with assms(1) show ?thesis by (simp add: record_error_def moves_refl)
next
  case (committed p x s')
  let ?f = "failed_row now (error_status e (Some r)) e"
  have ok: "db_ok (store_lib E) s'" using error_body_ok [OF _ committed(2)] assms(1) by (simp add: good_def)
  have i: "intents s' = intents (update_intent i ?f s)" using error_body_intents [OF committed(2)] assms(2) by simp
  have st: "error_status e (Some r) \<noteq> ACKED" "ti_status r = OPERATOR_REVIEW \<Longrightarrow> error_status e (Some r) = OPERATOR_REVIEW"
    by (simp_all add: error_status_def)
  have "settled r (?f r) \<and> backed E (?f r)"
    using assms(3) st by (auto simp: settled_def failed_row_def backed_def)
  then have "moves E s s'" by (intro moves_update [OF assms(1) ok i]) (use one_row [OF assms(1,2)] in auto)
  with committed(3) show ?thesis by (simp add: record_error_def)
qed

lemma receipt_moves:
  assumes "good E s" "find_intent i s = Some r" "ti_status r \<noteq> ACKED"
    and "context_of E r = Inr ctx" "validate E ctx receipt = Inr d" "seal_qr_of d = Inr qr"
    and "record_receipt (store_lib E) c works now i receipt qr s = (res, s')"
  shows "moves E s s' \<and> (isl res \<longrightarrow> s' = s)"
  using write_db_cases [of c works "Inr ()" "\<lambda>_ s. rbind (canonical_json (VDict receipt)) (\<lambda>t. receipt_body now i t qr s)" s]
proof cases
  case same
  with assms(1,7) show ?thesis by (auto simp: record_receipt_def moves_refl)
next
  case (committed p x s1)
  let ?t = "dumps (VDict receipt)" let ?f = "acked_row now ?t qr"
  have b: "receipt_body now i ?t qr s = Inr (x, s1)"
    using committed(2) by (auto simp: result_simps canonical_json_def dumps_strict_def split: if_splits)
  have ok: "db_ok (store_lib E) s1" using receipt_body_ok [OF _ b] assms(1) by (simp add: good_def)
  have u: "s1 = update_intent i ?f s" "x = load_in_connection i s1" using b by (auto simp: receipt_body_def Let_def)
  have "settled r (?f r)" using assms(3) by (auto simp: settled_def acked_row_def)
  moreover have "context_of E (?f r) = Inr ctx" using assms(4) by (simp add: context_of_def acked_row_def)
  then have "backed E (?f r)" using assms(5,6) unfolding backed_def by (intro impI exI conjI) (simp_all add: acked_row_def)
  ultimately have m: "moves E s s1"
    by (intro moves_update [OF assms(1) ok, of i ?f]) (use one_row [OF assms(1,2)] u(1) in auto)
  have "find_intent i s1 = Some (?f r)"
    unfolding u(1) by (rule find_intent_update [OF assms(2)]) (use find_intent_in [OF assms(2)] in \<open>simp add: acked_row_def\<close>)
  then have "x \<noteq> None" using u(2) by (simp add: load_in_connection_def)
  then have "\<not> isl res" "s' = s1" using committed(3) assms(7) by (auto simp: record_receipt_def)
  with m show ?thesis by simp
qed

subsection \<open>Attempts\<close>

lemma accepted_receipt_ok:
  assumes "accepted_receipt E W r context answer = Inr (receipt, qr)"
  obtains d where "validate E context receipt = Inr d" "seal_qr_of d = Inr qr"
  using assms by (auto simp: accepted_receipt_def result_simps)

lemma settle_error_moves:
  assumes "good E s" "find_intent i s = Some r" "ti_status r \<noteq> ACKED"
  shows "moves E s (snd (settle_error E c W i x s))"
  using error_moves [OF assms, of c "error_works W" "w_now W" "recorded_error x"]
  by (auto simp: settle_error_def split: prod.splits sum.splits)

lemma send_moves:
  assumes "good E s" "find_intent i s = Some r" "ti_status r \<noteq> ACKED" "context_of E r = Inr ctx"
  shows "moves E s (snd (send_command E c W r ctx s))"
proof -
  have i: "ti_id r = i" using find_intent_in [OF assms(2)] by simp
  show ?thesis
  proof (cases "accepted_receipt E W r ctx (reply W)")
    case (Inl x)
    then show ?thesis using settle_error_moves [OF assms(1-3)] assms(1) by (simp add: send_command_def i moves_refl)
  next
    case (Inr y)
    obtain receipt qr where y: "y = (receipt, qr)" by (cases y)
    obtain d where d: "validate E ctx receipt = Inr d" "seal_qr_of d = Inr qr" using accepted_receipt_ok Inr y by metis
    obtain res s' where rr: "record_receipt (store_lib E) c (receipt_works W) (w_now W) i receipt qr s = (res, s')"
      by (metis surj_pair)
    note m = receipt_moves [OF assms d rr]
    show ?thesis
    proof (cases res)
      case (Inl e)
      with m have "s' = s" by simp
      then show ?thesis
        using rr Inl Inr y settle_error_moves [OF assms(1-3)] assms(1) by (simp add: send_command_def i moves_refl)
    next
      case (Inr row)
      then show ?thesis using m rr \<open>accepted_receipt E W r ctx (reply W) = Inr y\<close> y assms(1) by (simp add: send_command_def i moves_refl)
    qed
  qed
qed

lemma ready_context_ok:
  assumes "ready_context E W r = Inr ctx"
  shows "context_of E r = Inr ctx" "ti_command_json r = Some (dumps (VDict ctx))" "str_or_empty (vget ctx ''idempotency_key'') = ti_key r"
  using assms by (auto simp: ready_context_def validate_bound_command_def result_simps as_raised_def canonical_json_def dumps_strict_def
      split: if_splits sum.splits)

lemma attempt_row_moves:
  assumes "good E s" "find_intent i s = Some r" "ti_status r \<noteq> ACKED" "ti_status r \<noteq> OPERATOR_REVIEW \<or> ti_command_json r \<noteq> None"
    and "attempt_row E c W r s = (o', s', out)"
  shows "moves E s s' \<and> sent_ok s' out \<and> fst ` set out \<subseteq> {i}"
proof (cases "is_owner c")
  case True
  have i: "ti_id r = i" using find_intent_in [OF assms(2)] by simp
  obtain b s1 where b: "bound_command E c W r s = (b, s1)" by (cases "bound_command E c W r s")
  have B: "moves E s s1 \<and> (\<exists>r1. find_intent i s1 = Some r1 \<and> ti_status r1 \<noteq> ACKED \<and> (\<forall>y. b = Inr y \<longrightarrow> y = r1))"
  proof (cases "ti_command_json r \<noteq> None \<or> isl (built W)")
    case True
    with b have "s1 = s" "\<not> isl b \<longrightarrow> b = Inr r" by (auto simp: bound_command_def split: if_splits sum.splits)
    with assms(1-3) show ?thesis by (auto intro: moves_refl)
  next
    case False
    then obtain ctx where ctx: "ti_command_json r = None" "built W = Inr ctx" by (cases "built W") auto
    obtain res s2 where bc: "bind_command (store_lib E) c (bind_works W) (w_now W) i ctx s = (res, s2)" by (metis surj_pair)
    from bind_moves [OF assms(1,2,4) bc] obtain r1 where r1: "moves E s s2" "find_intent i s2 = Some r1"
        "ti_status r1 = ti_status r \<or> ti_status r1 = COMMAND_READY" "\<forall>row. res = Inr row \<longrightarrow> fst row = r1" by blast
    have "s1 = s2 \<and> (\<forall>y. b = Inr y \<longrightarrow> y = r1)"
      using b bc ctx i r1(4) by (auto simp: bound_command_def split: sum.splits)
    then show ?thesis using r1(1-3) assms(3) by auto
  qed
  then obtain r1 where r1: "find_intent i s1 = Some r1" "ti_status r1 \<noteq> ACKED" "\<And>y. b = Inr y \<Longrightarrow> y = r1" by blast
  have m1: "moves E s s1" and g1: "good E s1" using B by (auto simp: moves_def)
  have E1: "moves E s (snd (settle_error E c W i x s1))" for x
    using moves_trans [OF m1 settle_error_moves [OF g1 r1(1,2)]] .
  show ?thesis
  proof (cases b)
    case (Inl x)
    then show ?thesis using assms(5) b True E1 [of x] by (auto simp: attempt_row_def i split: prod.splits)
  next
    case (Inr y)
    have y: "y = r1" using r1(3) Inr by simp
    have i1: "ti_id r1 = i" using find_intent_in [OF r1(1)] by simp
    show ?thesis
    proof (cases "ready_context E W r1")
      case (Inl x)
      then show ?thesis
        using assms(5) b True Inr y m1 E1 [of x] by (auto simp: attempt_row_def i split: prod.splits if_splits)
    next
      case (Inr ctx)
      note rc = ready_context_ok [OF Inr]
      have m: "moves E s (snd (send_command E c W r1 ctx s1))"
        using moves_trans [OF m1 send_moves [OF g1 r1(1,2) rc(1)]] .
      have "sent_ok s1 [(i, dumps (VDict ctx))]" using r1(1) rc(2) find_intent_in by (auto simp: sent_ok_def)
      moreover have "settles s1 (snd (send_command E c W r1 ctx s1))"
        using send_moves [OF g1 r1(1,2) rc(1)] by (simp add: moves_def)
      ultimately have "sent_ok (snd (send_command E c W r1 ctx s1)) [(i, dumps (VDict ctx))]" by (rule sent_ok_settles)
      then show ?thesis
        using assms(5) b True \<open>b = Inr y\<close> y Inr m m1 i1 by (auto simp: attempt_row_def i split: prod.splits if_splits)
    qed
  qed
next
  case False
  then show ?thesis using assms(1,5) by (simp add: attempt_row_def moves_refl)
qed

lemma load_intent_row:
  "load_intent c works i s = Inr (r, l) \<Longrightarrow> find_intent i s = Some r \<and> l = map_option ln_id (find_linked i s)"
  by (auto simp: load_intent_def read_db_def load_in_connection_def split: if_splits option.splits)

lemma attempt_moves:
  assumes "good E s" "attempt E c works W i s = (o', s', out)"
  shows "moves E s s' \<and> sent_ok s' out \<and>
    (\<forall>j \<in> fst ` set out. \<exists>r. find_intent j s = Some r \<and> ti_status r \<noteq> ACKED \<and> ti_status r \<noteq> OPERATOR_REVIEW)"
proof (cases "out = [] \<and> s' = s")
  case True
  then show ?thesis using assms(1) by (simp add: moves_refl)
next
  case False
  then obtain r l where r: "load_intent c works i s = Inr (r, l)" "ti_status r \<noteq> ACKED" "ti_status r \<noteq> OPERATOR_REVIEW"
      "attempt_row E c W r s = (o', s', out)"
    using assms(2) by (auto simp: attempt_def split: if_splits sum.splits prod.splits)
  have f: "find_intent i s = Some r" using load_intent_row [OF r(1)] by simp
  from attempt_row_moves [OF assms(1) f r(2) _ r(4)] r(3) have "moves E s s' \<and> sent_ok s' out \<and> fst ` set out \<subseteq> {i}" by blast
  with f r(2,3) show ?thesis by auto
qed

lemma recheck_moves:
  assumes "good E s"
  shows "moves E s (snd (recheck_operator_review_receipt E c works W i s))"
proof (cases "snd (recheck_operator_review_receipt E c works W i s) = s")
  case True
  with assms show ?thesis by (simp add: moves_refl)
next
  case False
  then obtain r l ctx receipt qr where r: "load_intent c works i s = Inr (r, l)" "ti_status r = OPERATOR_REVIEW"
      "ready_context E W r = Inr ctx" "accepted_receipt E W r ctx (reply W) = Inr (receipt, qr)"
    and s': "snd (recheck_operator_review_receipt E c works W i s) =
      snd (record_receipt (store_lib E) c (receipt_works W) (w_now W) i receipt qr s)"
    by (auto simp: recheck_operator_review_receipt_def split: if_splits sum.splits prod.splits)
  obtain res s1 where rr: "record_receipt (store_lib E) c (receipt_works W) (w_now W) i receipt qr s = (res, s1)" by (metis surj_pair)
  obtain d where d: "validate E ctx receipt = Inr d" "seal_qr_of d = Inr qr" using accepted_receipt_ok [OF r(4)] .
  have "find_intent i s = Some r" "ti_status r \<noteq> ACKED" using load_intent_row [OF r(1)] r(2) by auto
  from receipt_moves [OF assms this ready_context_ok(1) [OF r(3)] d rr] s' rr show ?thesis by simp
qed

lemma retry_moves:
  assumes "good E s" "retry_operator_review E c works A W i s = (o', s', out)"
  shows "moves E s s' \<and> sent_ok s' out"
proof (cases "out = [] \<and> s' = s")
  case True
  then show ?thesis using assms(1) by (simp add: moves_refl)
next
  case False
  then obtain r l where r: "load_intent c works i s = Inr (r, l)" "ti_status r = OPERATOR_REVIEW" "ti_command_json r \<noteq> None"
      "attempt_row E c W r s = (o', s', out)"
    using assms(2) by (auto simp: retry_operator_review_def Let_def split: if_splits sum.splits prod.splits raised.splits)
  have "find_intent i s = Some r" "ti_status r \<noteq> ACKED" using load_intent_row [OF r(1)] r(2) by auto
  from attempt_row_moves [OF assms(1) this _ r(4)] r(3) show ?thesis by blast
qed

text \<open>A reviewed or acknowledged row stays so, so that what was sent later was neither before.\<close>

lemma settles_find:
  assumes "settles s s'" "good E s'" "find_intent i s = Some r"
  obtains r' where "find_intent i s' = Some r'" "settled r r'"
proof -
  have r: "r \<in> set (intents s)" "ti_id r = i" using find_intent_in [OF assms(3)] by auto
  with assms(1) obtain r' where r': "r' \<in> set (intents s')" "settled r r'" by (auto simp: settles_def)
  have "distinct (map ti_id (intents s'))" using assms(2) by (simp add: good_def invariant_defs)
  then have "find_intent (ti_id r') s' = Some r'" unfolding find_intent_def using r'(1) by (rule find_first)
  moreover have "ti_id r' = i" using r'(2) r(2) by (simp add: settled_def)
  ultimately show ?thesis using that r'(2) by simp
qed

definition unsettled :: "transfer_db \<Rightarrow> string \<Rightarrow> bool" where
  "unsettled s j \<longleftrightarrow> (\<forall>r. find_intent j s = Some r \<longrightarrow> ti_status r \<noteq> ACKED \<and> ti_status r \<noteq> OPERATOR_REVIEW)"

lemma unsettled_before:
  assumes "settles s s'" "good E s'" "unsettled s' j"
  shows "unsettled s j"
  unfolding unsettled_def
proof (intro allI impI)
  fix r assume "find_intent j s = Some r"
  then obtain r' where "find_intent j s' = Some r'" "settled r r'" using settles_find [OF assms(1,2)] by blast
  with assms(3) show "ti_status r \<noteq> ACKED \<and> ti_status r \<noteq> OPERATOR_REVIEW" by (auto simp: unsettled_def settled_def)
qed

lemma drain_ids_moves:
  assumes "good E s" "drain_ids E c works W may is_last is s = (s', out)"
  shows "moves E s s' \<and> sent_ok s' out \<and> (\<forall>j \<in> fst ` set out. unsettled s j)"
  using assms
proof (induction "is" arbitrary: s s' out)
  case Nil
  then show ?case by (simp add: moves_refl)
next
  case (Cons i js)
  show ?case
  proof (cases "may i")
    case False
    with Cons.prems show ?thesis by (simp add: moves_refl)
  next
    case True
    obtain o1 s1 out1 where a: "attempt E c works (W i) i s = (o1, s1, out1)" by (metis prod_cases3)
    note A = attempt_moves [OF Cons.prems(1) a]
    have u1: "\<forall>j \<in> fst ` set out1. unsettled s j" using A by (force simp: unsettled_def)
    show ?thesis
    proof (cases "(\<exists>row. o1 = Got row) \<and> \<not> is_last i")
      case True
      obtain s2 out2 where d: "drain_ids E c works W may is_last js s1 = (s2, out2)" by (metis surj_pair)
      have g1: "good E s1" "settles s s1" using A by (simp_all add: moves_def)
      note D = Cons.IH [OF g1(1) d]
      have e: "s' = s2" "out = out1 @ out2" using Cons.prems(2) True \<open>may i\<close> a d by auto
      have "sent_ok s2 out1" using A D sent_ok_settles by (auto simp: moves_def)
      moreover have "\<forall>j \<in> fst ` set out2. unsettled s j" using D unsettled_before [OF g1(2,1)] by blast
      ultimately show ?thesis using A D u1 moves_trans [of E s s1 s2] by (auto simp: e sent_ok_append)
    next
      case False
      then have "s' = s1" "out = out1" using Cons.prems(2) \<open>may i\<close> a by (auto split: outcome.splits)
      with A u1 show ?thesis by simp
    qed
  qed
qed

lemma prepare_moves:
  assumes "good E s"
  shows "moves E s (snd (prepare (store_lib E) c works now q s))"
  using write_db_cases [of c works "preview_intent (store_lib E) c q" "prepare_body (store_lib E) now q" s]
proof cases
  case same
  with assms show ?thesis by (simp add: prepare_def moves_refl)
next
  case (committed p x s')
  let ?n = "new_intent (store_lib E) now q p"
  have ok: "db_ok (store_lib E) s'" using prepare_body_ok [OF _ committed(1,2)] assms by (simp add: good_def)
  have L: "ensure_linked_event (store_lib E) r t = Inr u \<Longrightarrow> intents u = intents t" for r t u
    by (auto simp: ensure_linked_event_def Let_def result_simps split: if_splits option.splits)
  have up: "settled r (set_log l r)" "backed E r \<Longrightarrow> backed E (set_log l r)" for r l
    by (auto simp: settled_def set_log_def backed_def context_of_def)
  have "backed E ?n" by (simp add: backed_def new_intent_def)
  show ?thesis
  proof (cases "list_ex (intent_clash ?n) (intents s)")
    case True
    then have "intents s' = intents s \<or> intents s' = intents (update_intent (ti_id ?n) (set_log (ti_log ?n)) s)"
      using committed(2) by (auto simp: prepare_body_def Let_def result_simps dest!: L split: option.splits if_splits)
    then have "moves E s s'"
      using moves_same_intents [OF assms ok] moves_update [OF assms ok] up assms by (metis good_def)
    with committed(3) show ?thesis by (simp add: prepare_def)
  next
    case False
    let ?s = "s\<lparr>intents := intents s @ [?n]\<rparr>"
    have "intents s' = intents ?s \<or> intents s' = intents (update_intent (ti_id ?n) (set_log (ti_log ?n)) ?s)"
      using committed(2) False by (auto simp: prepare_body_def Let_def result_simps dest!: L split: option.splits if_splits)
    then have i: "intents s' = intents s @ [?n] \<or> intents s' = map (\<lambda>r. if ti_id r = ti_id ?n then set_log (ti_log ?n) r else r) (intents s @ [?n])"
      by (simp add: update_intent_def)
    have "\<forall>r \<in> set (intents s'). backed E r"
      using i assms \<open>backed E ?n\<close> up(2) by (auto simp: good_def)
    moreover have "settles s s'"
      unfolding settles_def
    proof
      fix r assume "r \<in> set (intents s)"
      then have "r \<in> set (intents s') \<or> (if ti_id r = ti_id ?n then set_log (ti_log ?n) r else r) \<in> set (intents s')"
        using i by auto
      then show "\<exists>r' \<in> set (intents s'). settled r r'" using up(1) settled_refl by metis
    qed
    ultimately have "moves E s s'" using ok by (simp add: moves_def good_def)
    with committed(3) show ?thesis by (simp add: prepare_def)
  qed
qed

lemma confirm_moves:
  assumes "good E s"
  shows "moves E s (snd (confirm_completion_checkpoint (store_lib E) c works now i s))"
  using write_db_cases [of c works "normalize_identifier (store_lib E) ''intent_id'' (VStr i)" "confirm_body now" s]
proof cases
  case same
  with assms show ?thesis by (simp add: confirm_completion_checkpoint_def moves_refl)
next
  case (committed j x s')
  have ok: "db_ok (store_lib E) s'" using confirm_body_ok [OF _ committed(2)] assms by (simp add: good_def)
  have "s' = s \<or> s' = update_intent j (confirmed_row now) s"
    using committed(2) by (auto simp: confirm_body_def Let_def split: option.splits prod.splits if_splits)
  moreover have "settled r (confirmed_row now r)" "backed E r \<Longrightarrow> backed E (confirmed_row now r)" for r
    by (auto simp: settled_def confirmed_row_def backed_def context_of_def)
  ultimately have "moves E s s'"
    using moves_refl [OF assms] moves_update [OF assms ok, of j "confirmed_row now"] assms by (auto simp: good_def)
  with committed(3) show ?thesis by (simp add: confirm_completion_checkpoint_def)
qed

lemma side_moves:
  assumes "good E s"
  shows "moves E s (snd (record_post_review_projection (store_lib E) c w now i p s))"
    "moves E s (snd (mark_phs_replacement_waiting (store_lib E) c w now q s))"
    "moves E s (snd (record_replacement_waiting_projection (store_lib E) c w now i p s))"
    "moves E s (snd (record_exchange_block (store_lib E) c w now rs d s))"
    "moves E s (snd (initialize_store (store_lib E) w s))"
proof -
  have P: "moves E s s'" if "db_ok (store_lib E) s'" "intents s' = intents s" for s'
    using moves_same_intents [OF assms that] .
  have D: "db_ok (store_lib E) s" using assms by (simp add: good_def)
  have same: "moves E s s" using assms by (rule moves_refl)
  have 1: "intents s' = intents s" if "project_case_body (store_lib E) now y s = Inr (x, s')" for x y s'
    using that by (cases y) (auto simp: project_case_body_def result_simps split: option.splits prod.splits if_splits)
  have 2: "intents s' = intents s" if "mark_body y s = Inr (x, s')" for x y s'
    using that by (cases y) (auto simp: mark_body_def Let_def split: option.splits if_splits)
  have 3: "intents s' = intents s" if "project_waiting_body (store_lib E) now y s = Inr (x, s')" for x y s'
    using that by (cases y) (auto simp: project_waiting_body_def result_simps split: option.splits prod.splits if_splits)
  have 4: "intents s' = intents s" if "block_body now d y s = Inr (x, s')" for x y s'
    using that by (cases y) (auto simp: block_body_def split: if_splits)
  have ok: "db_ok (store_lib E) s'" if "project_case_body (store_lib E) now y s = Inr (x, s')" for x y s'
    using that project_case_body_ok [OF D] by (cases y) blast
  show "moves E s (snd (record_post_review_projection (store_lib E) c w now i p s))"
    unfolding record_post_review_projection_def by (rule write_db_state) (auto intro: P 1 ok same)
  have ok: "db_ok (store_lib E) s'" if "mark_body y s = Inr (x, s')" for x y s'
    using that mark_body_ok [OF D] by (cases y) blast
  show "moves E s (snd (mark_phs_replacement_waiting (store_lib E) c w now q s))"
    unfolding mark_phs_replacement_waiting_def by (rule write_db_state) (auto intro: P 2 ok same)
  have ok: "db_ok (store_lib E) s'" if "project_waiting_body (store_lib E) now y s = Inr (x, s')" for x y s'
    using that project_waiting_body_ok [OF D] by (cases y) blast
  show "moves E s (snd (record_replacement_waiting_projection (store_lib E) c w now i p s))"
    unfolding record_replacement_waiting_projection_def by (rule write_db_state) (auto intro: P 3 ok same)
  have ok: "db_ok (store_lib E) s'" if "block_body now d y s = Inr (x, s')" for x y s'
    using that block_body_ok [OF D] by (cases y) blast
  show "moves E s (snd (record_exchange_block (store_lib E) c w now rs d s))"
    unfolding record_exchange_block_def by (rule write_db_state) (auto intro: P 4 ok same)
  show "moves E s (snd (initialize_store (store_lib E) w s))" using reopen_ok [OF D] same by simp
qed

lemma prepare_transfer_moves:
  assumes "good E s"
  shows "moves E s (snd (prepare_transfer E c w now v k fs q s))"
proof -
  have "snd (prepare_transfer E c w now v k fs q s) \<in> {s, snd (prepare (store_lib E) c w now (prepared_request fs q) s)}"
    by (simp add: prepare_transfer_def split: sum.split prod.split raised.split)
  with prepare_moves [OF assms] moves_refl [OF assms] show ?thesis by auto
qed

definition is_retry :: "transfer_call \<Rightarrow> bool" where
  "is_retry x \<longleftrightarrow> (case tc_op x of TRetry i W A \<Rightarrow> True | _ \<Rightarrow> False)"

lemma transfer_step_moves:
  assumes "good E s" "transfer_step E x s = (s', out)"
  shows "moves E s s' \<and> sent_ok s' out \<and> (\<not> is_retry x \<longrightarrow> (\<forall>j \<in> fst ` set out. unsettled s j))"
proof (cases "tc_op x")
  case (TAttempt i W)
  obtain o1 s1 out1 where a: "attempt E (tc_caller x) (tc_works x) W i s = (o1, s1, out1)" by (metis prod_cases3)
  then have e: "s1 = s'" "out1 = out" using assms(2) TAttempt by (simp_all add: transfer_step_def Let_def)
  note m = attempt_moves [OF assms(1) a, unfolded e]
  have "\<forall>j \<in> fst ` set out. unsettled s j"
    using conjunct2 [OF conjunct2 [OF m]] unfolding unsettled_def by (metis option.inject)
  then show ?thesis using m by simp
next
  case (TRetry i W A)
  obtain o1 s1 out1 where a: "retry_operator_review E (tc_caller x) (tc_works x) A W i s = (o1, s1, out1)" by (metis prod_cases3)
  then have "s1 = s'" "out1 = out" using assms(2) TRetry by (simp_all add: transfer_step_def Let_def)
  with retry_moves [OF assms(1) a] TRetry show ?thesis by (simp add: is_retry_def)
next
  case (TDrain W may)
  then have d: "drain_pending E (tc_caller x) (tc_works x) W may s = (s', out)" using assms(2) by (simp add: transfer_step_def Let_def)
  show ?thesis
  proof (cases "s' = s \<and> out = []")
    case True
    with assms(1) show ?thesis by (simp add: moves_refl)
  next
    case False
    then obtain "is" where "drain_ids E (tc_caller x) (tc_works x) W may (\<lambda>_. False) is s = (s', out)"
      using d by (auto simp: drain_pending_def split: if_splits sum.splits)
    from drain_ids_moves [OF assms(1) this] show ?thesis by blast
  qed
next
  case (TDrainThrough i W)
  then have d: "drain_pending_through E (tc_caller x) (tc_works x) W i s = (s', out)" using assms(2) by (simp add: transfer_step_def Let_def)
  show ?thesis
  proof (cases "s' = s \<and> out = []")
    case True
    with assms(1) show ?thesis by (simp add: moves_refl)
  next
    case False
    then obtain "is" where "drain_ids E (tc_caller x) (tc_works x) W (\<lambda>_. True) (\<lambda>j. j = i) is s = (s', out)"
      using d by (auto simp: drain_pending_through_def split: if_splits sum.splits prod.splits)
    from drain_ids_moves [OF assms(1) this] show ?thesis by blast
  qed
qed (use assms in \<open>auto simp: transfer_step_def Let_def prepare_transfer_moves confirm_moves recheck_moves side_moves\<close>)

lemma run_transfer_moves:
  assumes "good E s" "run_transfer E xs s = (s', out)"
  shows "moves E s s' \<and> sent_ok s' out \<and> ((\<forall>x \<in> set xs. \<not> is_retry x) \<longrightarrow> (\<forall>j \<in> fst ` set out. unsettled s j))"
  using assms
proof (induction xs arbitrary: s s' out)
  case Nil
  then show ?case by (simp add: moves_refl)
next
  case (Cons x xs)
  obtain s1 out1 where a: "transfer_step E x s = (s1, out1)" by (metis surj_pair)
  obtain s2 out2 where b: "run_transfer E xs s1 = (s2, out2)" by (metis surj_pair)
  have e: "s' = s2" "out = out1 @ out2" using Cons.prems(2) a b by auto
  note A = transfer_step_moves [OF Cons.prems(1) a]
  then have g1: "good E s1" "settles s s1" by (simp_all add: moves_def)
  note B = Cons.IH [OF g1(1) b]
  have "sent_ok s2 out1" using A B sent_ok_settles by (auto simp: moves_def)
  moreover have "\<forall>j \<in> fst ` set out2. unsettled s j" if "\<forall>y \<in> set xs. \<not> is_retry y"
    using B that unsettled_before [OF g1(2,1)] by blast
  ultimately show ?case using A B moves_trans [of E s s1 s2] by (auto simp: e sent_ok_append)
qed

lemma no_rows_good: "good E no_rows"
  using no_rows_ok by (simp add: good_def no_rows_def)

subsection \<open>Properties of runs\<close>

text \<open>
  C3. A transfer is one command: over any attempts, drains, rechecks, supervised retries, failures, stops and
  restarts, everything that is sent for an intent is the same text, the command bound to it, under the
  idempotency key no other intent has.
\<close>

theorem transfer_sends_one_command:
  assumes "run_transfer E xs no_rows = (s, out)" "(i, t) \<in> set out"
  shows "(\<forall>u. (i, u) \<in> set out \<longrightarrow> u = t) \<and>
    (\<exists>r \<in> set (intents s). ti_id r = i \<and> ti_command_json r = Some t \<and> ti_command_id r = Some (ti_key r) \<and> ti_confirmed r \<and>
       (\<forall>r' \<in> set (intents s). ti_key r' = ti_key r \<longrightarrow> r' = r))"
proof -
  note R = run_transfer_moves [OF no_rows_good assms(1)]
  then have ok: "db_ok (store_lib E) s" and sent: "sent_ok s out" by (simp_all add: moves_def good_def)
  obtain r where r: "r \<in> set (intents s)" "ti_id r = i" "ti_command_json r = Some t"
    using sent assms(2) by (auto simp: sent_ok_def)
  have "u = t" if "(i, u) \<in> set out" for u
    using sent that r intent_with_id [OF ok] by (fastforce simp: sent_ok_def)
  moreover have rok: "row_ok (store_lib E) r'" if "r' \<in> set (intents s)" for r' using ok that by (simp add: invariant_defs)
  have "r' = r" if "r' \<in> set (intents s)" "ti_key r' = ti_key r" for r'
  proof -
    have "ti_hash r' = ti_hash r" using rok [OF that(1)] rok [OF r(1)] that(2) by (simp add: row_ok_def seal_key_of_def)
    then show ?thesis using ok that(1) r(1) by (auto simp: invariant_defs distinct_map dest: inj_onD)
  qed
  moreover have "ti_command_id r = Some (ti_key r) \<and> ti_confirmed r" using rok [OF r(1)] r(3) by (simp add: row_ok_def)
  ultimately show ?thesis using r by blast
qed

text \<open>
  C4. An acknowledgement is final and earned: an acknowledged intent stays acknowledged with the same receipt and seal QR
  through everything that follows, and its receipt has passed the validation against the command that is bound to it.
\<close>

theorem acknowledged_transfer_final:
  assumes "run_transfer E xs no_rows = (s, out)" "run_transfer E ys s = (s', out')"
    and "r \<in> set (intents s)" "ti_status r = ACKED"
  shows "\<exists>r' \<in> set (intents s'). ti_id r' = ti_id r \<and> ti_status r' = ACKED \<and> ti_receipt_json r' = ti_receipt_json r \<and>
    ti_seal_qr r' = ti_seal_qr r \<and> ti_command_json r' = ti_command_json r \<and>
    (\<exists>ctx receipt d qr. context_of E r = Inr ctx \<and> validate E ctx receipt = Inr d \<and> seal_qr_of d = Inr qr \<and>
       ti_receipt_json r = Some (dumps (VDict receipt)) \<and> ti_seal_qr r = Some qr)"
proof -
  have g: "good E s" using run_transfer_moves [OF no_rows_good assms(1)] by (simp add: moves_def)
  have "settles s s'" using run_transfer_moves [OF g assms(2)] by (simp add: moves_def)
  then obtain r' where r': "r' \<in> set (intents s')" "settled r r'" using assms(3) by (auto simp: settles_def)
  have b: "backed E r" using g assms(3) by (simp add: good_def)
  then obtain t where t: "ti_command_json r = Some t" using assms(4) by (auto simp: backed_def context_of_def split: option.splits)
  from r' t assms(4) have "ti_id r' = ti_id r \<and> ti_status r' = ACKED \<and> ti_receipt_json r' = ti_receipt_json r \<and>
      ti_seal_qr r' = ti_seal_qr r \<and> ti_command_json r' = ti_command_json r" by (simp add: settled_def)
  with r'(1) b assms(4) show ?thesis unfolding backed_def by blast
qed

text \<open>
  C5. After a review only a supervisor can have a transfer sent again: as long as no supervised retry is called, an
  intent under review (or acknowledged) is never sent and stays under review until a recheck finds its receipt.
\<close>

theorem reviewed_transfer_waits:
  assumes "run_transfer E xs no_rows = (s, out)" "run_transfer E ys s = (s', out')" "\<forall>y \<in> set ys. \<not> is_retry y"
    and "find_intent i s = Some r" "ti_status r = OPERATOR_REVIEW \<or> ti_status r = ACKED"
  shows "i \<notin> fst ` set out' \<and>
    (\<exists>r'. find_intent i s' = Some r' \<and> (ti_status r' = OPERATOR_REVIEW \<or> ti_status r' = ACKED))"
proof -
  have g: "good E s" using run_transfer_moves [OF no_rows_good assms(1)] by (simp add: moves_def)
  note R = run_transfer_moves [OF g assms(2)]
  then have "settles s s'" "good E s'" by (simp_all add: moves_def)
  then obtain r' where "find_intent i s' = Some r'" "settled r r'" using settles_find assms(4) by blast
  moreover have "\<not> unsettled s i" using assms(4,5) by (auto simp: unsettled_def)
  ultimately show ?thesis using R assms(3,5) by (auto simp: settled_def)
qed

subsection \<open>A concrete run\<close>

definition demo_receipt :: "(string, pyval) dict" where
  "demo_receipt = [(''receipt_id'', VStr ''r1''), (''seal_qr_payload'', VStr ''TRF=1|QT=1'')]"

definition demo_seal :: seal_env where
  "demo_seal = \<lparr>store_lib = demo_store, validate = (\<lambda>c r. Inr r)\<rparr>"

definition demo_world :: "raised + (string, pyval) dict \<Rightarrow> world" where
  "demo_world answer = \<lparr>w_now = ''t2'', built = Inr demo_command, bind_works = True, lease_verdict = Inr (), has_client = True,
     reply = answer, lease_recorded = Inr (), receipt_works = True, error_works = True, stops = Runs\<rparr>"

definition demo_call :: "transfer_op \<Rightarrow> transfer_call" where
  "demo_call x = \<lparr>tc_caller = demo_caller, tc_works = True, tc_now = ''t1'', tc_op = x\<rparr>"

definition demo_intent :: string where
  "demo_intent = ''transfer-intent-h''"

definition demo_pv :: intent_preview where
  "demo_pv = \<lparr>pv_label = ''LOT7'', pv_source = source_identity_from_label [(''CLC'', VStr ''AB'')], pv_item = ''AB'', pv_scans = [''AB-1''],
     pv_lease = [], pv_hash = ''h''\<rparr>"

definition demo_row :: intent_row where
  "demo_row = new_intent demo_store ''t1'' (prepared_request [] demo_request) demo_pv"

lemmas demo_env = demo_store_def demo_caller_def demo_request_def demo_pv_def

subsection \<open>A drain that succeeds\<close>

definition cooperates :: "seal_env \<Rightarrow> world \<Rightarrow> intent_row \<Rightarrow> bool" where
  "cooperates E W r \<longleftrightarrow> stops W = Runs \<and> bind_works W \<and> receipt_works W \<and> has_client W \<and> lease_verdict W = Inr () \<and>
     lease_recorded W = Inr () \<and> (\<exists>ctx receipt d qr.
       (case ti_command_json r of None \<Rightarrow> built W = Inr ctx | Some t \<Rightarrow> t = dumps (VDict ctx)) \<and>
       nan_free (VDict ctx) \<and> loads (store_lib E) (dumps (VDict ctx)) = Some (VDict ctx) \<and>
       normalize_identifier (store_lib E) ''idempotency_key'' (vget ctx ''idempotency_key'') = Inr (ti_key r) \<and>
       str_or_empty (vget ctx ''idempotency_key'') = ti_key r \<and>
       reply W = Inr receipt \<and> nan_free (VDict receipt) \<and> validate E ctx receipt = Inr d \<and> seal_qr_of d = Inr qr)"

lemma record_receipt_acks:
  assumes "is_owner c" "\<not> is_ui_thread c" "find_intent i s = Some r" "nan_free (VDict receipt)"
  shows "\<exists>row. record_receipt L c True now i receipt qr s = (Inr row, update_intent i (acked_row now (dumps (VDict receipt)) qr) s)"
    "find_intent i (update_intent i (acked_row now t qr) s) = Some (acked_row now t qr r)"
proof -
  have i: "ti_id r = i" using find_intent_in [OF assms(3)] by simp
  show new: "find_intent i (update_intent i (acked_row now t qr) s) = Some (acked_row now t qr r)" for t
    by (rule find_intent_update [OF assms(3)]) (simp add: acked_row_def i)
  then show "\<exists>row. record_receipt L c True now i receipt qr s = (Inr row, update_intent i (acked_row now (dumps (VDict receipt)) qr) s)"
    using assms(1,2,4)
    by (simp add: record_receipt_def write_db_def canonical_json_def dumps_strict_def receipt_body_def Let_def load_in_connection_def
        del: dumps.simps nan_free.simps)
qed

lemma bind_command_binds:
  assumes "db_ok L s" "is_owner c" "\<not> is_ui_thread c" "find_intent i s = Some r" "ti_command_json r = None" "ti_confirmed r"
    and "nan_free (VDict ctx)" "normalize_identifier L ''idempotency_key'' (vget ctx ''idempotency_key'') = Inr (ti_key r)"
  shows "\<exists>row. bind_command L c True now i ctx s =
      (Inr row, update_intent i (bound_row L now (ti_key r) (dumps (VDict ctx))) s) \<and> fst row = bound_row L now (ti_key r) (dumps (VDict ctx)) r"
    "find_intent i (update_intent i (bound_row L now k t) s) = Some (bound_row L now k t r)"
proof -
  have i: "ti_id r = i" "r \<in> set (intents s)" using find_intent_in [OF assms(4)] by auto
  show new: "find_intent i (update_intent i (bound_row L now k t) s) = Some (bound_row L now k t r)" for k t
    by (rule find_intent_update [OF assms(4)]) (simp add: bound_row_def i)
  have "ti_id x = i" if x: "x \<in> set (intents s)" "ti_command_id x = Some (ti_key r)" for x
  proof -
    have "row_ok L x" "row_ok L r" using assms(1) x(1) i(2) by (simp_all add: invariant_defs)
    then have "ti_hash x = ti_hash r" using x(2) by (simp add: row_ok_def seal_key_of_def split: option.splits)
    then show ?thesis using assms(1) x(1) i by (auto simp: invariant_defs distinct_map dest: inj_onD)
  qed
  then have "\<not> list_ex (\<lambda>x. ti_id x \<noteq> i \<and> ti_command_id x = Some (ti_key r)) (intents s)" by (auto simp: list_ex_iff)
  then show "\<exists>row. bind_command L c True now i ctx s =
      (Inr row, update_intent i (bound_row L now (ti_key r) (dumps (VDict ctx))) s) \<and> fst row = bound_row L now (ti_key r) (dumps (VDict ctx)) r"
    using assms(2-8) new
    by (simp add: bind_command_def write_db_def canonical_json_def dumps_strict_def bind_body_def load_in_connection_def
        del: dumps.simps nan_free.simps)
qed

lemma ready_when_bound:
  assumes "ti_command_json r = Some (dumps (VDict ctx))" "ti_command_hash r = Some (digest_of (store_lib E) (dumps (VDict ctx)))"
    and "nan_free (VDict ctx)" "loads (store_lib E) (dumps (VDict ctx)) = Some (VDict ctx)"
    and "str_or_empty (vget ctx ''idempotency_key'') = ti_key r" "lease_verdict W = Inr ()" "has_client W"
  shows "ready_context E W r = Inr ctx"
  using assms by (simp add: ready_context_def context_of_def validate_bound_command_def as_raised_def canonical_json_def dumps_strict_def
      del: dumps.simps nan_free.simps)

lemma send_acks:
  assumes "is_owner c" "\<not> is_ui_thread c" "find_intent i s = Some r"
    and "stops W = Runs" "receipt_works W" "lease_recorded W = Inr ()" "reply W = Inr receipt" "nan_free (VDict receipt)"
    and "validate E ctx receipt = Inr d" "seal_qr_of d = Inr qr"
  shows "\<exists>row. send_command E c W r ctx s = (Got row, update_intent i (acked_row (w_now W) (dumps (VDict receipt)) qr) s)"
proof -
  have i: "ti_id r = i" using find_intent_in [OF assms(3)] by simp
  have "accepted_receipt E W r ctx (reply W) = Inr (receipt, qr)"
    using assms(6,7,9,10) by (simp add: accepted_receipt_def)
  with record_receipt_acks(1) [OF assms(1-3,8), of "store_lib E" "w_now W" qr] assms(4,5) show ?thesis
    by (auto simp: send_command_def i simp del: dumps.simps)
qed

lemma attempt_acks:
  assumes "good E s" "is_owner c" "\<not> is_ui_thread c" "find_intent i s = Some r" "is_pending r" "cooperates E W r"
  obtains row s' t r' where "attempt E c True W i s = (Got row, s', [(i, t)])" "find_intent i s' = Some r'" "ti_status r' = ACKED"
    "\<And>j. j \<noteq> i \<Longrightarrow> find_intent j s' = find_intent j s"
proof -
  have i: "ti_id r = i" "r \<in> set (intents s)" using find_intent_in [OF assms(4)] by auto
  have ok: "db_ok (store_lib E) s" "row_ok (store_lib E) r" using assms(1) i(2) by (simp_all add: good_def invariant_defs)
  have p: "ti_confirmed r" "ti_status r \<noteq> ACKED" "ti_status r \<noteq> OPERATOR_REVIEW"
    using assms(5) by (auto simp: is_pending_def PENDING_STATUSES_def)
  obtain ctx receipt d qr where W: "stops W = Runs" "bind_works W" "receipt_works W" "has_client W" "lease_verdict W = Inr ()"
      "lease_recorded W = Inr ()" and
    cmd: "case ti_command_json r of None \<Rightarrow> built W = Inr ctx | Some t \<Rightarrow> t = dumps (VDict ctx)" and
    ctx: "nan_free (VDict ctx)" "loads (store_lib E) (dumps (VDict ctx)) = Some (VDict ctx)"
       "normalize_identifier (store_lib E) ''idempotency_key'' (vget ctx ''idempotency_key'') = Inr (ti_key r)"
       "str_or_empty (vget ctx ''idempotency_key'') = ti_key r" and
    ans: "reply W = Inr receipt" "nan_free (VDict receipt)" "validate E ctx receipt = Inr d" "seal_qr_of d = Inr qr"
    using assms(6) unfolding cooperates_def by blast
  let ?L = "store_lib E" and ?t = "dumps (VDict ctx)"
  obtain r1 s1 where b: "bound_command E c W r s = (Inr r1, s1)" "find_intent i s1 = Some r1" "ti_command_json r1 = Some ?t"
      "ti_command_hash r1 = Some (digest_of ?L ?t)" "ti_key r1 = ti_key r" "\<And>j. j \<noteq> i \<Longrightarrow> find_intent j s1 = find_intent j s"
  proof (cases "ti_command_json r")
    case None
    from bind_command_binds(1) [OF ok(1) assms(2-4) None p(1) ctx(1,3), of "w_now W"] obtain row where
      "bind_command ?L c True (w_now W) i ctx s = (Inr row, update_intent i (bound_row ?L (w_now W) (ti_key r) ?t) s)"
      "fst row = bound_row ?L (w_now W) (ti_key r) ?t r" by blast
    then have "bound_command E c W r s = (Inr (bound_row ?L (w_now W) (ti_key r) ?t r), update_intent i (bound_row ?L (w_now W) (ti_key r) ?t) s)"
      using None cmd W(2) i(1) by (simp add: bound_command_def)
    then show thesis
      using bind_command_binds(2) [OF ok(1) assms(2-4) None p(1) ctx(1,3)]
      by (rule that) (simp_all add: bound_row_def find_intent_other)
  next
    case (Some t)
    then show thesis using that [of r s] cmd ok(2) assms(4) by (simp add: bound_command_def row_ok_def del: dumps.simps)
  qed
  have i1: "ti_id r1 = i" using find_intent_in [OF b(2)] by simp
  have rc: "ready_context E W r1 = Inr ctx"
    using ready_when_bound [OF b(3,4) ctx(1,2) _ W(5,4)] ctx(4) b(5) by simp
  let ?s = "update_intent i (acked_row (w_now W) (dumps (VDict receipt)) qr) s1"
  from send_acks [OF assms(2,3) b(2) W(1,3,6) ans] obtain row where sc: "send_command E c W r1 ctx s1 = (Got row, ?s)" by blast
  have "attempt_row E c W r s = (Got row, ?s, [(i, ?t)])"
    using b(1) rc sc assms(2) W(1) i1 by (simp add: attempt_row_def del: dumps.simps)
  moreover have "\<exists>l. load_intent c True i s = Inr (r, l)"
    using assms(3,4) by (simp add: load_intent_def read_db_def load_in_connection_def)
  ultimately have "attempt E c True W i s = (Got row, ?s, [(i, ?t)])"
    using assms(2) p by (auto simp: attempt_def simp del: dumps.simps)
  then show ?thesis
  proof (rule that)
    show "find_intent i ?s = Some (acked_row (w_now W) (dumps (VDict receipt)) qr r1)"
      by (rule record_receipt_acks(2) [OF assms(2,3) b(2) ans(2)])
    show "find_intent j ?s = find_intent j s" if "j \<noteq> i" for j
      using that b(6) find_intent_other [OF that, of "acked_row (w_now W) (dumps (VDict receipt)) qr" s1] by (simp add: acked_row_def)
  qed (simp add: acked_row_def)
qed

lemma drain_ids_acks:
  assumes "good E s" "is_owner c" "\<not> is_ui_thread c" "distinct is"
    and "\<And>i. i \<in> set is \<Longrightarrow> \<exists>r. find_intent i s = Some r \<and> is_pending r \<and> cooperates E (W i) r"
    and "drain_ids E c True W (\<lambda>_. True) (\<lambda>_. False) is s = (s', out)"
  shows "map fst out = is \<and> (\<forall>i \<in> set is. \<exists>r'. find_intent i s' = Some r' \<and> ti_status r' = ACKED) \<and>
    (\<forall>j. j \<notin> set is \<longrightarrow> find_intent j s' = find_intent j s)"
  using assms
proof (induction "is" arbitrary: s s' out)
  case (Cons i js)
  obtain r where r: "find_intent i s = Some r" "is_pending r" "cooperates E (W i) r" using Cons.prems(5) by auto
  obtain row s1 t r1 where a: "attempt E c True (W i) i s = (Got row, s1, [(i, t)])" "find_intent i s1 = Some r1" "ti_status r1 = ACKED"
      "\<And>j. j \<noteq> i \<Longrightarrow> find_intent j s1 = find_intent j s"
    using attempt_acks [OF Cons.prems(1-3) r] by metis
  obtain s2 out2 where d: "drain_ids E c True W (\<lambda>_. True) (\<lambda>_. False) js s1 = (s2, out2)" by (metis surj_pair)
  have g1: "good E s1" using attempt_moves [OF Cons.prems(1) a(1)] by (simp add: moves_def)
  have e: "s' = s2" "out = (i, t) # out2" using Cons.prems(6) a(1) d by auto
  have IH: "map fst out2 = js \<and> (\<forall>i \<in> set js. \<exists>r'. find_intent i s2 = Some r' \<and> ti_status r' = ACKED) \<and>
      (\<forall>j. j \<notin> set js \<longrightarrow> find_intent j s2 = find_intent j s1)"
  proof (rule Cons.IH [OF g1 Cons.prems(2,3) _ _ d])
    show "\<exists>r. find_intent k s1 = Some r \<and> is_pending r \<and> cooperates E (W k) r" if "k \<in> set js" for k
      using Cons.prems(4,5) a(4) that by (metis distinct.simps(2) list.set_intros(2))
  qed (use Cons.prems(4) in simp)
  have "i \<notin> set js" using Cons.prems(4) by simp
  with IH a(2-4) show ?case unfolding e by auto
qed simp

lemma pending_rows:
  assumes "db_ok L s"
  shows "distinct (map ti_id (sort_key ti_created (filter is_pending (intents s))))"
    "i \<in> set (map ti_id (sort_key ti_created (filter is_pending (intents s)))) \<longleftrightarrow> (\<exists>r. find_intent i s = Some r \<and> is_pending r)"
proof -
  have d: "distinct (map ti_id (intents s))" using assms by (simp add: invariant_defs)
  then show "distinct (map ti_id (sort_key ti_created (filter is_pending (intents s))))"
    by (simp add: distinct_map inj_on_def)
  have "find_intent (ti_id r) s = Some r" if "r \<in> set (intents s)" for r
    unfolding find_intent_def using d that by (rule find_first)
  then show "i \<in> set (map ti_id (sort_key ti_created (filter is_pending (intents s)))) \<longleftrightarrow> (\<exists>r. find_intent i s = Some r \<and> is_pending r)"
    using find_intent_in by (auto simp: image_iff) metis
qed



text \<open>
  C6. A drain settles everything: when the server accepts the command of every pending intent and every transaction works, a drain
  sends each of them exactly once, oldest first, all end acknowledged, and nothing stays pending.
\<close>

theorem drain_settles_pending:
  assumes "run_transfer E xs no_rows = (s, sent)" "is_owner c" "\<not> is_ui_thread c"
    and "\<And>i r. find_intent i s = Some r \<Longrightarrow> is_pending r \<Longrightarrow> cooperates E (W i) r"
    and "drain_pending E c True W (\<lambda>_. True) s = (s', out)"
  shows "pending_ids c True s = Inr (map fst out) \<and> pending_ids c True s' = Inr [] \<and>
    (\<forall>i r. find_intent i s = Some r \<longrightarrow> is_pending r \<longrightarrow> (\<exists>r'. find_intent i s' = Some r' \<and> ti_status r' = ACKED))"
proof -
  have g: "good E s" using run_transfer_moves [OF no_rows_good assms(1)] by (simp add: moves_def)
  let ?is = "map ti_id (sort_key ti_created (filter is_pending (intents s)))"
  have db: "db_ok (store_lib E) s" using g by (simp add: good_def)
  have p: "pending_ids c True s = Inr ?is" using assms(3) by (simp add: pending_ids_def read_db_def)
  then have d: "drain_ids E c True W (\<lambda>_. True) (\<lambda>_. False) ?is s = (s', out)" using assms(2,5) by (simp add: drain_pending_def)
  have D: "map fst out = ?is \<and> (\<forall>i \<in> set ?is. \<exists>r'. find_intent i s' = Some r' \<and> ti_status r' = ACKED) \<and>
      (\<forall>j. j \<notin> set ?is \<longrightarrow> find_intent j s' = find_intent j s)"
    by (rule drain_ids_acks [OF g assms(2,3) pending_rows(1) [OF db] _ d]) (use pending_rows(2) [OF db] assms(4) in blast)
  have db': "db_ok (store_lib E) s'" using drain_ids_moves [OF g d] by (simp add: moves_def good_def)
  have "\<not> (\<exists>r. find_intent i s' = Some r \<and> is_pending r)" for i
  proof (cases "i \<in> set ?is")
    case True
    with D show ?thesis by (auto simp: is_pending_def PENDING_STATUSES_def)
  next
    case False
    then have "\<not> (\<exists>r. find_intent i s = Some r \<and> is_pending r)" using pending_rows(2) [OF db] by blast
    with D False show ?thesis by auto
  qed
  then have none: "set (map ti_id (sort_key ti_created (filter is_pending (intents s')))) \<subseteq> {}"
    using pending_rows(2) [OF db'] by (intro subsetI) metis
  then have "pending_ids c True s' = Inr []" using assms(3) by (simp add: pending_ids_def read_db_def)
  moreover have "\<exists>r'. find_intent i s' = Some r' \<and> ti_status r' = ACKED" if "find_intent i s = Some r" "is_pending r" for i r
    using D pending_rows(2) [OF db] that by blast
  ultimately show ?thesis using p D by auto
qed


subsection \<open>Its evaluation\<close>

lemma demo_label_preview:
  "preview_intent demo_store demo_caller (prepared_request [] demo_request) = Inr demo_pv"
  by (simp add: demo_env preview_intent_def prepared_request_def source_identity_from_label_def text_of_def first_text_def Let_def
      upper_def lower_def normalize_identifier_def normalize_barcode_def strip_def lstrip_def rstrip_def is_space_def sha256_of_def
      intent_material_def upper_char_def del: dumps.simps)

lemma demo_row_fields:
  "ti_id demo_row = demo_intent" "ti_key demo_row = ''container-seal:h''" "ti_status demo_row = PREPARED" "ti_command_json demo_row = None"
  "ti_confirmed demo_row" "ti_lease demo_row = []" "ti_log demo_row = []" "ti_hash demo_row = ''h''"
  by (simp_all add: demo_row_def demo_intent_def demo_pv_def new_intent_def intent_id_of_def seal_key_of_def relay_path_def demo_request_def prepared_request_def Let_def)

definition demo_prepare :: "transfer_call list" where
  "demo_prepare = [demo_call (TPrepare (Inr ()) (Inr ()) [] demo_request)]"

lemma demo_prepared:
  obtains l where "run_transfer demo_seal demo_prepare no_rows = (no_rows\<lparr>intents := [demo_row], ledger := [l]\<rparr>, [])"
proof -
  obtain l where "prepare demo_store demo_caller True ''t1'' (prepared_request [] demo_request) no_rows =
      (Inr (demo_row, Some (ln_id l)), no_rows\<lparr>intents := [demo_row], ledger := [l]\<rparr>)"
    using prepare_first [OF demo_label_preview demo_environment] unfolding demo_row_def by blast
  then show ?thesis
    by (intro that [of l]) (simp add: demo_prepare_def demo_call_def transfer_step_def Let_def prepare_transfer_def demo_seal_def
        demo_request_def)
qed

lemma demo_source: "is_pending demo_row" "cooperates demo_seal (demo_world (Inr demo_receipt)) demo_row"
proof -
  show "is_pending demo_row" by (simp add: is_pending_def PENDING_STATUSES_def demo_row_fields)
  have key: "normalize_identifier demo_store ''idempotency_key'' (vget demo_command ''idempotency_key'') = Inr ''container-seal:h''"
    by (simp add: normalize_identifier_def demo_store_def demo_command_def strip_def lstrip_def rstrip_def is_space_def)
  have "seal_qr_of demo_receipt = Inr ''TRF=1|QT=1''"
    by (simp add: seal_qr_of_def text_of_def demo_receipt_def strip_def lstrip_def rstrip_def is_space_def)
  moreover have "str_or_empty (vget demo_command ''idempotency_key'') = ''container-seal:h''" by (simp add: demo_command_def)
  moreover have "nan_free (VDict demo_command)" "nan_free (VDict demo_receipt)" by (simp_all add: demo_command_def demo_receipt_def)
  ultimately show "cooperates demo_seal (demo_world (Inr demo_receipt)) demo_row"
    unfolding cooperates_def using key
    by (intro conjI exI [of _ demo_command] exI [of _ demo_receipt] exI [of _ "''TRF=1|QT=1''"])
       (simp_all add: demo_world_def demo_row_fields demo_seal_def demo_store_def del: nan_free.simps)
qed

abbreviation demo_drain :: transfer_call where
  "demo_drain \<equiv> demo_call (TDrain (\<lambda>i. demo_world (Inr demo_receipt)) (\<lambda>i. True))"

lemma demo_drained:
  obtains s s' t r where "run_transfer demo_seal demo_prepare no_rows = (s, [])" "find_intent demo_intent s = Some demo_row"
    "run_transfer demo_seal [demo_drain] s = (s', [(demo_intent, t)])"
    "run_transfer demo_seal (demo_prepare @ [demo_drain]) no_rows = (s', [(demo_intent, t)])"
    "find_intent demo_intent s' = Some r" "ti_status r = ACKED"
proof -
  obtain l where l: "run_transfer demo_seal demo_prepare no_rows = (no_rows\<lparr>intents := [demo_row], ledger := [l]\<rparr>, [])"
    by (rule demo_prepared)
  let ?s = "no_rows\<lparr>intents := [demo_row], ledger := [l]\<rparr>" and ?W = "\<lambda>i :: string. demo_world (Inr demo_receipt)"
  have f: "find_intent demo_intent ?s = Some demo_row" by (simp add: find_intent_def demo_row_fields)
  have g: "good demo_seal ?s" using run_transfer_moves [OF no_rows_good l] by (simp add: moves_def)
  have c: "is_owner demo_caller" "\<not> is_ui_thread demo_caller" by (simp_all add: demo_caller_def)
  obtain row s' t r where a: "attempt demo_seal demo_caller True (?W demo_intent) demo_intent ?s = (Got row, s', [(demo_intent, t)])"
      "find_intent demo_intent s' = Some r" "ti_status r = ACKED"
    using attempt_acks [OF g c f demo_source] by metis
  have "pending_ids demo_caller True ?s = Inr [demo_intent]"
    using demo_source(1) by (simp add: pending_ids_def read_db_def c demo_row_fields)
  then have d: "drain_pending demo_seal demo_caller True ?W (\<lambda>i. True) ?s = (s', [(demo_intent, t)])"
    using a(1) c by (simp add: drain_pending_def)
  then have r: "run_transfer demo_seal [demo_drain] ?s = (s', [(demo_intent, t)])"
    by (simp add: transfer_step_def Let_def demo_call_def)
  then have "run_transfer demo_seal (demo_prepare @ [demo_drain]) no_rows = (s', [(demo_intent, t)])"
    using l by (simp add: demo_prepare_def split: prod.splits)
  then show ?thesis by (rule that [OF l f r _ a(2,3)])
qed

theorem transfer_sends_one_command_witness:
  "\<exists>s out t. run_transfer demo_seal (demo_prepare @ [demo_drain]) no_rows = (s, out) \<and> (demo_intent, t) \<in> set out \<and>
     (\<forall>u. (demo_intent, u) \<in> set out \<longrightarrow> u = t)"
proof -
  obtain s t where "run_transfer demo_seal (demo_prepare @ [demo_drain]) no_rows = (s, [(demo_intent, t)])"
    using demo_drained by metis
  from transfer_sends_one_command [OF this, of demo_intent t] this show ?thesis by auto
qed

theorem acknowledged_transfer_final_witness:
  "\<exists>s out r. run_transfer demo_seal (demo_prepare @ [demo_drain]) no_rows = (s, out) \<and> find_intent demo_intent s = Some r \<and>
     ti_status r = ACKED \<and> (\<exists>s' out' r'. run_transfer demo_seal [demo_drain] s = (s', out') \<and> r' \<in> set (intents s') \<and> ti_status r' = ACKED)"
proof -
  obtain s t r where d: "run_transfer demo_seal (demo_prepare @ [demo_drain]) no_rows = (s, [(demo_intent, t)])"
      "find_intent demo_intent s = Some r" "ti_status r = ACKED"
    using demo_drained by metis
  obtain s' out' where e: "run_transfer demo_seal [demo_drain] s = (s', out')" by (metis surj_pair)
  have "r \<in> set (intents s)" using find_intent_in [OF d(2)] by simp
  from acknowledged_transfer_final [OF d(1) e this d(3)] d e show ?thesis by blast
qed

theorem reviewed_transfer_waits_witness:
  "\<exists>s out. run_transfer demo_seal (demo_prepare @ [demo_drain]) no_rows = (s, out) \<and>
     (\<exists>s' out'. run_transfer demo_seal [demo_drain] s = (s', out') \<and> demo_intent \<notin> fst ` set out')"
proof -
  obtain s t r where d: "run_transfer demo_seal (demo_prepare @ [demo_drain]) no_rows = (s, [(demo_intent, t)])"
      "find_intent demo_intent s = Some r" "ti_status r = ACKED"
    using demo_drained by metis
  obtain s' out' where e: "run_transfer demo_seal [demo_drain] s = (s', out')" by (metis surj_pair)
  have "\<forall>y \<in> set [demo_drain]. \<not> is_retry y" by (simp add: is_retry_def demo_call_def)
  from reviewed_transfer_waits [OF d(1) e this d(2)] d(1,3) e show ?thesis by blast
qed

theorem drain_settles_pending_witness:
  "\<exists>s s' out. run_transfer demo_seal demo_prepare no_rows = (s, []) \<and> is_pending demo_row \<and> find_intent demo_intent s = Some demo_row \<and>
     drain_pending demo_seal demo_caller True (\<lambda>i. demo_world (Inr demo_receipt)) (\<lambda>i. True) s = (s', out) \<and>
     map fst out = [demo_intent] \<and> pending_ids demo_caller True s' = Inr []"
proof -
  obtain l where l: "run_transfer demo_seal demo_prepare no_rows = (no_rows\<lparr>intents := [demo_row], ledger := [l]\<rparr>, [])"
    by (rule demo_prepared)
  let ?s = "no_rows\<lparr>intents := [demo_row], ledger := [l]\<rparr>"
  obtain s' out where d: "drain_pending demo_seal demo_caller True (\<lambda>i. demo_world (Inr demo_receipt)) (\<lambda>i. True) ?s = (s', out)"
    by (metis surj_pair)
  have f: "find_intent demo_intent ?s = Some demo_row" by (simp add: find_intent_def demo_row_fields)
  have c: "is_owner demo_caller" "\<not> is_ui_thread demo_caller" by (simp_all add: demo_caller_def)
  have p: "pending_ids demo_caller True ?s = Inr [demo_intent]"
    using demo_source(1) by (simp add: pending_ids_def read_db_def c demo_row_fields)
  have "cooperates demo_seal (demo_world (Inr demo_receipt)) r" if "find_intent i ?s = Some r" for i r
    using find_intent_in [OF that] demo_source(2) by simp
  from drain_settles_pending [OF l c this d] p l f d demo_source(1) show ?thesis by auto
qed

end
