(* ===== verification/Spec2Isabelle.thy ===== *)
theory Spec2Isabelle
  imports Completion_Runs Completion_History Hold_Drain Recovery_Journal Product_Exchange Ui_Lane
  Transfer_Runs
begin

text \<open>
  Verification of the tray audit program \<open>Container_Audit\<close>.

  \<^bold>\<open>The program.\<close> At a packing station an operator scans the label of a tray (the master label), then every
  product that goes into it. Each product passes the identity gates; a full tray is completed: its
  transfer is sealed with the central service, one \<open>TRAY_COMPLETE\<close> event is written to the event
  log of the day and the tray is released. The window state survives crashes in a state file. While
  the central check of a label is pending, products are held in a durable first-in first-out hold.
  Products can be exchanged one for one. Long operations run on a one-place worker lane
  beside the Tk loop. A two-phase journal guards the recovery of a station's credentials.

  \<^bold>\<open>Theories and sources\<close> (paths under \<open>src/\<close>).

  \<^item> \<open>Prelude\<close>: results as sums, checks in sequence, ordered dictionaries, shared list lemmas.
  \<open>Py_Text\<close>, \<open>Py_Value\<close>: the parts of Python the code uses: stripping, case, integers as text, dynamic
  values, \<open>str\<close>, truth, equality, \<open>json.dumps\<close>.
  \<open>Machines\<close>: two interfaces as locales, a machine that refines a specification of its calls
  and a store whose calls conserve their items, with the theorems about runs of calls.
  \<^item> \<open>Label_Qr\<close> (\<open>label_qr.py\<close>): the label formats, canonical keys, quantities.
  \<^item> \<open>Product_Identity\<close> (\<open>product_identity_port.py\<close>, \<open>product_scan.py\<close>, \<open>item_catalog.py\<close>): the gates a
  scanned product passes and the catalog search.
  \<^item> \<open>Event_Contracts\<close>, \<open>Event_Payloads\<close> (\<open>event_contracts.py\<close>, \<open>event_payloads.py\<close>): evidence hashes and
  the details of the events.
  \<^item> \<open>Product_Exchange\<close> (\<open>product_exchange.py\<close>): exchange sessions.
  \<^item> \<open>Ui_Lane\<close> (\<open>tk_serial_ui_lane.py\<close>): the lane as an interleaving of worker and Tk steps.
  \<^item> \<open>Preflight_Hold\<close> (\<open>preflight_scan_hold.py\<close>): the hold file and its quarantine.
  \<^item> \<open>Tray_State\<close> (\<open>tray_state.py\<close>): the tray, its state file, validation and restoring.
  \<^item> \<open>Recovery_Journal\<close> (\<open>recovery_two_phase.py\<close>): the journal and the sealed package.
  \<^item> \<open>Event_Log\<close> (\<open>event_log_store.py\<close>): the CSV log, the idempotent append, the outbox.
  \<^item> \<open>Event_Writer\<close> (\<open>_log_event\<close> of \<open>Container_Audit.py\<close>, \<open>event_stream_policy.py\<close>,
  \<open>protected_admin.py\<close>): from an event to its row.
  \<^item> \<open>Warning_Presenter\<close> (\<open>warning_presenter.py\<close>): notices and completion outcomes.
  \<^item> \<open>Tray_Completion\<close> (\<open>tray_completion.py\<close> and the methods of \<open>Container_Audit.py\<close> it calls): the
  completion generator. \<open>Completion_Runs\<close>: its runs with crashes and restarts.
  \<^item> \<open>Session_History\<close> (\<open>session_history.py\<close>): the counters and completed labels read back from the logs;
  \<open>Completion_History\<close>: they agree with the counters the completion keeps in memory.

  \<^bold>\<open>How the code is modelled.\<close> Objects are records, enums datatypes, untyped JSON is \<^typ>\<open>pyval\<close> and a
  dictionary an association list in insertion order. An exception is a value of the component's error type;
  an operation that can fail at the file system takes the outcome as an argument, so every failure is a
  branch. Python integers are \<^typ>\<open>int\<close>. The clock, SHA-256, base64, \<open>json.loads\<close> and ISO dates are arguments,
  and what the code relies on of them stands as a hypothesis in the theorem that needs it. Generators
  are the datatype \<^typ>\<open>'r steps\<close>, one branch per outcome of the yielded operation. All loops are
  structural recursions or have a termination proof; no fuel is used. Characters are
  8-bit: Korean operator texts are constructors or arguments.

  \<^bold>\<open>What is shown.\<close>
  The completion: at most one event per tray over attempts, crashes and restarts; a release needs a full,
  confirmed tray; success when nothing fails; at most ten operations per run. The composition
  with the log writer, the state file, the presenter and the payload builder is part of these statements.
  The log: the outbox delivers exactly once, in order; rows hide the administrator. The lane: one task at a time,
  none lost, drained when closed. The hold: first in, first out, nothing lost. The tray state: save, validate
  and restore agree. The journal refines its decision table, with bounded complete
  history and durable packages. The gates accept exactly the stated scans; labels, hashes and searches meet
  their specifications. The theorems of kind \<open>error\<close> show behaviour the code does not intend.

  \<^bold>\<open>Not modelled.\<close> The rest of \<open>Container_Audit.py\<close> is Tk windows and wiring. The central
  transfer (\<open>transfer_seal.py\<close>, \<open>transfer_store.py\<close>, \<open>transfer_client.py\<close>, \<open>transfer_member_exchange.py\<close>),
  the direct sync (\<open>direct_sync_push.py\<close> and its companions) and the PHS workflows are SQLite and HTTP clients:
  the completion sees the transfer only as the outcomes of its operations. Tools, capture scripts,
  installers and onboarding under \<open>tools/\<close> are outside the running program.
\<close>

subsection \<open>A completed label is not started again\<close>

lemma label_scan_completed:
  assumes "qr_fields C (normalize_master_label_input C raw) \<noteq> []" "C = codecs (window E)"
    and "label \<in> set (own_labels o')"
    and "canonical_master_label_key C (normalize_master_label_input C raw) = canonical_master_label_key C label"
  shows "label_scan E f L raw o' = AlreadyCompleted"
proof -
  have "qr_fields C [] = []" by (simp add: qr_fields_def parse_new_format_qr_def parse_pipe_form_def)
  then have "is_completed_master_label C (own_labels o') (normalize_master_label_input C raw)"
    using assms(1,3,4) by (auto simp: is_completed_master_label_def list_ex_iff)
  then show ?thesis using assms(1,2) by (simp add: label_scan_def Let_def)
qed

text \<open>
  C2. A completed label is not started again: when the window keeps the completed labels the history loads and the log
  of a day in the look-back holds a valid full completion of a label, every scan of that label or of another
  writing of it (base64, JSON, other order of fields within the canonical key) ends as already completed, whatever the parked work, the
  holds and the catalog say.
\<close>

theorem completed_label_not_restarted:
  assumes "load_session_history H broken files w today pieces lookback per_piece = Inr h"
    and "lf \<in> set files" "select_file H today lookback (sanitize_worker_name w) lf = Some (lf, own)" "row \<in> set (file_rows lf)"
    and "row_event row = ''TRAY_COMPLETE''" "row_details row = Some (VDict d)"
    and "fromisoformat (hist_iso H) (row_timestamp row) = Some t" "day_of t \<le> today"
    and "validate_history_complete_details (hist_codecs H) d = Inr ()" "vget d ''master_label_code'' = VStr label"
    and "vget d ''is_test_tray'' \<noteq> VBool True" "vget d ''is_partial_submission'' \<noteq> VBool True"
    and "hist_codecs H = codecs (window E)" "own_labels o' = completed_master_labels h"
    and "qr_fields (codecs (window E)) (normalize_master_label_input (codecs (window E)) raw) \<noteq> []"
    and "canonical_master_label_key (codecs (window E)) (normalize_master_label_input (codecs (window E)) raw) =
      canonical_master_label_key (codecs (window E)) label"
  shows "label_scan E f L raw o' = AlreadyCompleted"
  by (rule label_scan_completed [OF assms(15) refl _ assms(16)])
    (use completed_label_known [OF assms(1-12)] assms(14) in simp)

definition shipped_row :: log_row where
  "shipped_row = \<lparr>row_timestamp = ''10'', row_worker = ''lee'', row_event = ''TRAY_COMPLETE'',
     row_details = Some (VDict [(''master_label_code'', VStr ''CLC=AB|PHS=1''), (''item_code'', VStr ''AB'')])\<rparr>"

definition shipped_file :: log_file where
  "shipped_file = \<lparr>file_name = ''old_lee_00010101.csv'', file_lines = [Line shipped_row], file_torn = False\<rparr>"

theorem completed_label_not_restarted_witness:
  "\<exists>h. load_session_history demo_history True [shipped_file] ''kim'' 0 60 7 5 = Inr h \<and>
     (\<forall>f L. label_scan held_env f L ''  CLC=AB|PHS=1 '' (held_owner\<lparr>own_labels := completed_master_labels h\<rparr>) = AlreadyCompleted)"
proof -
  let ?d = "[(''master_label_code'', VStr ''CLC=AB|PHS=1''), (''item_code'', VStr ''AB'')]"
  have "\<not> isl (load_session_history demo_history True [shipped_file] ''kim'' 0 60 7 5)" by code_simp
  then obtain h where h: "load_session_history demo_history True [shipped_file] ''kim'' 0 60 7 5 = Inr h"
    using Inr_if_not_isl by blast
  have "label_scan held_env f L ''  CLC=AB|PHS=1 '' (held_owner\<lparr>own_labels := completed_master_labels h\<rparr>) = AlreadyCompleted" for f L
  proof (rule completed_label_not_restarted [OF h])
    show "select_file demo_history 0 7 (sanitize_worker_name ''kim'') shipped_file = Some (shipped_file, False)" by code_simp
    show "fromisoformat (hist_iso demo_history) (row_timestamp shipped_row) = Some \<lparr>wall = 10, utc_offset = None\<rparr>" by code_simp
    show "validate_history_complete_details (hist_codecs demo_history) ?d = Inr ()" by code_simp
    show "qr_fields (codecs (window held_env)) (normalize_master_label_input (codecs (window held_env)) ''  CLC=AB|PHS=1 '') \<noteq> []"
      by code_simp
    show "canonical_master_label_key (codecs (window held_env)) (normalize_master_label_input (codecs (window held_env)) ''  CLC=AB|PHS=1 '') =
        canonical_master_label_key (codecs (window held_env)) ''CLC=AB|PHS=1''" by code_simp
  qed (simp_all add: shipped_file_def file_rows_def shipped_row_def day_of_def day_micros_def vget_def demo_history_def held_env_def)
  with h show ?thesis by blast
qed

end
